(* ===== verification/Base.thy ===== *)
theory Base
  imports Main "HOL-Library.Word"
begin

text \<open>
  The prelude of the development: the machine types of the Rust sources, results
  (\<open>Result<T, E>\<close> as the sum \<open>'e + 'a\<close>, with \<open>Inl\<close> for \<open>Err\<close>), checked
  arithmetic on \<open>usize\<close>, sub-slices, and the fixed-width little- and big-endian
  encodings (\<open>to_le_bytes\<close>, \<open>from_le_bytes\<close>, \<open>to_be_bytes\<close>, \<open>from_be_bytes\<close>)
  that every binary format of the program uses.  The target is a 64-bit one:
  \<open>usize\<close> values are natural numbers and \<open>usize_limit\<close> is \<open>2 ^ 64\<close>.
\<close>

type_synonym u8 = "8 word"
type_synonym u16 = "16 word"
type_synonym u32 = "32 word"
type_synonym u64 = "64 word"
type_synonym bytes = "8 word list"
type_synonym ('e, 'a) result = "'e + 'a"

named_theorems result_simps "inversion of results: when does a combinator succeed"
named_theorems endian_simps "round trips and lengths of the integer encodings"

datatype io_error = Not_found | Other_error

section \<open>Results\<close>

definition bindr :: "('e, 'a) result \<Rightarrow> ('a \<Rightarrow> ('e, 'b) result) \<Rightarrow> ('e, 'b) result" where
  "bindr r f = (case r of Inl e \<Rightarrow> Inl e | Inr x \<Rightarrow> f x)"

definition ok_or :: "'e \<Rightarrow> 'a option \<Rightarrow> ('e, 'a) result" where
  "ok_or e m = (case m of None \<Rightarrow> Inl e | Some x \<Rightarrow> Inr x)"

definition ensure :: "bool \<Rightarrow> 'e \<Rightarrow> ('e, unit) result" where
  "ensure b e = (if b then Inr () else Inl e)"

definition map_err :: "('e \<Rightarrow> 'f) \<Rightarrow> ('e, 'a) result \<Rightarrow> ('f, 'a) result" where
  "map_err g r = (case r of Inl e \<Rightarrow> Inl (g e) | Inr x \<Rightarrow> Inr x)"

lemma map_err_iff [result_simps, simp]:
  "map_err g r = Inr x \<longleftrightarrow> r = Inr x" "map_err g r = Inl f \<longleftrightarrow> (\<exists>e. r = Inl e \<and> f = g e)"
  "map_err g (Inr x) = Inr x" "map_err g (Inl e) = Inl (g e)"
  by (auto simp: map_err_def split: sum.splits)

lemma bindr_simps [simp]: "bindr (Inl e) f = Inl e" "bindr (Inr x) f = f x"
  by (simp_all add: bindr_def)

lemma bindr_Inr_iff [result_simps]:
  "bindr r f = Inr y \<longleftrightarrow> (\<exists>x. r = Inr x \<and> f x = Inr y)"
  by (cases r) auto

lemma bindr_Inl_iff [result_simps]:
  "bindr r f = Inl e \<longleftrightarrow> r = Inl e \<or> (\<exists>x. r = Inr x \<and> f x = Inl e)"
  by (cases r) auto

lemma bindr_cong [fundef_cong]:
  "r = r' \<Longrightarrow> (\<And>x. r' = Inr x \<Longrightarrow> f x = g x) \<Longrightarrow> bindr r f = bindr r' g"
  by (cases r') auto

lemma bindr_assoc: "bindr (bindr r f) g = bindr r (\<lambda>x. bindr (f x) g)"
  by (cases r) auto

lemma ok_or_simps [simp]: "ok_or e None = Inl e" "ok_or e (Some x) = Inr x"
  by (simp_all add: ok_or_def)

lemma ok_or_Inr_iff [result_simps]: "ok_or e m = Inr x \<longleftrightarrow> m = Some x"
  by (cases m) auto

lemma ok_or_Inl_iff [result_simps]: "ok_or e m = Inl e' \<longleftrightarrow> m = None \<and> e' = e"
  by (cases m) auto

lemma ensure_simps [simp]: "ensure True e = Inr ()" "ensure False e = Inl e"
  by (simp_all add: ensure_def)

lemma ensure_Inr_iff [result_simps]: "ensure b e = Inr u \<longleftrightarrow> b"
  by (simp add: ensure_def)

lemma ensure_Inl_iff [result_simps]: "ensure b e = Inl e' \<longleftrightarrow> \<not> b \<and> e' = e"
  by (auto simp: ensure_def)

section \<open>Checked arithmetic on \<open>usize\<close> and \<open>u64\<close>\<close>

definition usize_limit :: nat where
  "usize_limit = 2 ^ 64"

definition checked_add :: "nat \<Rightarrow> nat \<Rightarrow> nat option" where
  "checked_add a b = (if a + b < usize_limit then Some (a + b) else None)"

definition checked_mul :: "nat \<Rightarrow> nat \<Rightarrow> nat option" where
  "checked_mul a b = (if a * b < usize_limit then Some (a * b) else None)"

definition checked_add_u64 :: "u64 \<Rightarrow> u64 \<Rightarrow> u64 option" where
  "checked_add_u64 a b = (if unat a + unat b < 2 ^ 64 then Some (a + b) else None)"

definition saturating_add_u64 :: "u64 \<Rightarrow> u64 \<Rightarrow> u64" where
  "saturating_add_u64 a b = (if unat a + unat b < 2 ^ 64 then a + b else - 1)"

definition u32_try_from :: "nat \<Rightarrow> u32 option" where
  "u32_try_from n = (if n < 2 ^ 32 then Some (word_of_nat n) else None)"

definition u64_try_from :: "nat \<Rightarrow> u64 option" where
  "u64_try_from n = (if n < 2 ^ 64 then Some (word_of_nat n) else None)"

lemma checked_add_Some_iff [result_simps]:
  "checked_add a b = Some c \<longleftrightarrow> c = a + b \<and> a + b < usize_limit"
  by (auto simp: checked_add_def)

lemma checked_mul_Some_iff [result_simps]:
  "checked_mul a b = Some c \<longleftrightarrow> c = a * b \<and> a * b < usize_limit"
  by (auto simp: checked_mul_def)

lemma checked_add_u64_Some:
  "checked_add_u64 a b = Some c \<Longrightarrow> unat c = unat a + unat b"
  by (auto simp: checked_add_u64_def unat_word_ariths split: if_splits)

lemma u32_try_from_Some_iff [result_simps]:
  "u32_try_from n = Some w \<longleftrightarrow> n < 2 ^ 32 \<and> w = word_of_nat n"
  by (auto simp: u32_try_from_def)

lemma u64_try_from_Some_iff [result_simps]:
  "u64_try_from n = Some w \<longleftrightarrow> n < usize_limit \<and> w = word_of_nat n"
  by (auto simp: u64_try_from_def usize_limit_def)

lemma u32_try_from_unat: "u32_try_from n = Some w \<Longrightarrow> unat w = n"
  by (auto simp: u32_try_from_def unat_of_nat split: if_splits)

lemma unat_lt: "unat (w :: 'a::len word) < 2 ^ LENGTH('a)"
  by (rule unsigned_less)

lemma unat_u32_of_nat: "n < 2 ^ 32 \<Longrightarrow> unat (word_of_nat n :: u32) = n"
  by (simp add: unat_of_nat)

lemma unat_u64_of_nat: "n < usize_limit \<Longrightarrow> unat (word_of_nat n :: u64) = n"
  by (simp add: unat_of_nat usize_limit_def)

lemma unat_u64_less: "unat (w :: u64) < usize_limit"
  using unat_lt [of w] by (simp add: usize_limit_def)

lemma unat_u32_less: "unat (w :: u32) < 2 ^ 32"
  using unat_lt [of w] by simp

lemma unat_u32_less_usize: "unat (w :: u32) < usize_limit"
  using unat_lt [of w] by (simp add: usize_limit_def)

section \<open>Sub-slices\<close>

definition subslice :: "nat \<Rightarrow> nat \<Rightarrow> 'a list \<Rightarrow> 'a list" where
  "subslice i j xs = take (j - i) (drop i xs)"

definition get_range :: "'a list \<Rightarrow> nat \<Rightarrow> nat \<Rightarrow> 'a list option" where
  "get_range xs i j = (if i \<le> j \<and> j \<le> length xs then Some (subslice i j xs) else None)"

definition copy_slice :: "'a list \<Rightarrow> nat \<Rightarrow> 'a list \<Rightarrow> 'a list" where
  "copy_slice xs i ys = take i xs @ ys @ drop (i + length ys) xs"

definition resize :: "nat \<Rightarrow> 'a \<Rightarrow> 'a list \<Rightarrow> 'a list" where
  "resize n x xs = take n xs @ replicate (n - length xs) x"

definition strip_prefix :: "'a list \<Rightarrow> 'a list \<Rightarrow> 'a list option" where
  "strip_prefix p xs = (if take (length p) xs = p then Some (drop (length p) xs) else None)"

lemma length_subslice [simp]: "j \<le> length xs \<Longrightarrow> length (subslice i j xs) = j - i"
  by (simp add: subslice_def)

lemma subslice_append_mid [simp]:
  "subslice (length pre) (length pre + length x) (pre @ x @ post) = x"
  by (simp add: subslice_def)

lemma subslice_append_mid':
  "length pre = i \<Longrightarrow> j = i + length x \<Longrightarrow> subslice i j (pre @ x @ post) = x"
  by (simp add: subslice_def)

lemma subslice_zero: "subslice 0 n xs = take n xs"
  by (simp add: subslice_def)

lemma get_range_append_mid [simp]:
  "get_range (pre @ x @ post) (length pre) (length pre + length x) = Some x"
  by (simp add: get_range_def)

lemma get_range_Some_iff [result_simps]:
  "get_range xs i j = Some ys \<longleftrightarrow> i \<le> j \<and> j \<le> length xs \<and> ys = subslice i j xs"
  by (auto simp: get_range_def)

lemma subslice_split: "i \<le> j \<Longrightarrow> j \<le> k \<Longrightarrow> subslice i k xs = subslice i j xs @ subslice j k xs"
proof -
  assume "i \<le> j" "j \<le> k"
  then have "take (k - i) (drop i xs) = take ((j - i) + (k - j)) (drop i xs)" by simp
  also have "\<dots> = take (j - i) (drop i xs) @ take (k - j) (drop (j - i) (drop i xs))"
    by (simp only: take_add)
  finally show ?thesis using \<open>i \<le> j\<close> by (simp add: subslice_def)
qed

lemma length_copy_slice [simp]:
  "i + length ys \<le> length xs \<Longrightarrow> length (copy_slice xs i ys) = length xs"
  by (simp add: copy_slice_def)

lemma nth_copy_slice:
  assumes "i + length ys \<le> length xs" and "k < length xs"
  shows "copy_slice xs i ys ! k = (if i \<le> k \<and> k < i + length ys then ys ! (k - i) else xs ! k)"
  using assms by (auto simp: copy_slice_def nth_append min_def)

lemma length_resize [simp]: "length (resize n x xs) = n"
  by (simp add: resize_def)

lemma resize_same [simp]: "resize (length xs) x xs = xs"
  by (simp add: resize_def)

lemma nth_resize: "k < n \<Longrightarrow> k < length xs \<Longrightarrow> resize n x xs ! k = xs ! k"
  by (simp add: resize_def nth_append)

lemma take_resize: "k \<le> length xs \<Longrightarrow> k \<le> n \<Longrightarrow> take k (resize n x xs) = take k xs"
  by (simp add: resize_def min_def)

lemma strip_prefix_append [simp]: "strip_prefix p (p @ xs) = Some xs"
  by (simp add: strip_prefix_def)

lemma strip_prefix_Some_iff [result_simps]: "strip_prefix p xs = Some ys \<longleftrightarrow> xs = p @ ys"
  by (auto simp: strip_prefix_def) (metis append_take_drop_id)

section \<open>Integer encodings\<close>

text \<open>
  The encodings are defined once on natural numbers, for any number of bytes, and
  specialised to the widths the formats use.
\<close>

fun le_bytes :: "nat \<Rightarrow> nat \<Rightarrow> bytes" where
  "le_bytes 0 v = []"
| "le_bytes (Suc n) v = word_of_nat v # le_bytes n (v div 256)"

fun le_val :: "bytes \<Rightarrow> nat" where
  "le_val [] = 0"
| "le_val (b # bs) = unat b + 256 * le_val bs"

lemma le_bytes_numeral [simp]:
  "le_bytes (numeral k) v = word_of_nat v # le_bytes (pred_numeral k) (v div 256)"
  by (simp only: numeral_eq_Suc [of k] le_bytes.simps)

lemma length_le_bytes [simp, endian_simps]: "length (le_bytes n v) = n"
  by (induction n v rule: le_bytes.induct) auto

lemma le_val_le_bytes: "le_val (le_bytes n v) = v mod 256 ^ n"
proof (induction n v rule: le_bytes.induct)
  case (1 v)
  show ?case by simp
next
  case (2 n v)
  have "v mod 256 ^ Suc n = v mod 256 + 256 * (v div 256 mod 256 ^ n)"
    by (simp add: mod_mult2_eq)
  with 2 show ?case by (simp add: unat_of_nat)
qed

lemma le_val_less: "le_val bs < 256 ^ length bs"
proof (induction bs)
  case Nil
  show ?case by simp
next
  case (Cons b bs)
  have "unat b < 256" using unat_lt [of b] by simp
  with Cons show ?case by simp
qed

lemma le_bytes_le_val: "le_bytes (length bs) (le_val bs) = bs"
proof (induction bs)
  case Nil
  show ?case by simp
next
  case (Cons b bs)
  have lt: "unat b < 256" using unat_lt [of b] by simp
  then have dv: "(unat b + 256 * le_val bs) div 256 = le_val bs" by simp
  have "(word_of_nat (unat b + 256 * le_val bs) :: u8) = word_of_nat (unat b)"
    by (simp only: word_of_nat_eq_iff take_bit_eq_mod) (simp add: mod_add_right_eq [symmetric])
  with Cons dv show ?case by simp
qed

definition u16_to_le :: "u16 \<Rightarrow> bytes" where
  "u16_to_le w = le_bytes 2 (unat w)"

definition u32_to_le :: "u32 \<Rightarrow> bytes" where
  "u32_to_le w = le_bytes 4 (unat w)"

definition u64_to_le :: "u64 \<Rightarrow> bytes" where
  "u64_to_le w = le_bytes 8 (unat w)"

definition u16_from_le :: "bytes \<Rightarrow> u16" where
  "u16_from_le bs = word_of_nat (le_val bs)"

definition u32_from_le :: "bytes \<Rightarrow> u32" where
  "u32_from_le bs = word_of_nat (le_val bs)"

definition u64_from_le :: "bytes \<Rightarrow> u64" where
  "u64_from_le bs = word_of_nat (le_val bs)"

definition u32_to_be :: "u32 \<Rightarrow> bytes" where
  "u32_to_be w = rev (u32_to_le w)"

definition u16_from_be :: "bytes \<Rightarrow> u16" where
  "u16_from_be bs = u16_from_le (rev bs)"

definition u32_from_be :: "bytes \<Rightarrow> u32" where
  "u32_from_be bs = u32_from_le (rev bs)"

lemma length_to_le [simp, endian_simps]:
  "length (u16_to_le a) = 2" "length (u32_to_le b) = 4" "length (u64_to_le c) = 8"
  "length (u32_to_be b) = 4"
  by (simp_all add: u16_to_le_def u32_to_le_def u64_to_le_def u32_to_be_def
      del: le_bytes_numeral)

lemma to_le_not_Nil [simp]: "u16_to_le a \<noteq> []" "u32_to_le b \<noteq> []" "u64_to_le c \<noteq> []" "u32_to_be b \<noteq> []"
  using length_to_le by (metis list.size(3) zero_neq_numeral)+

lemma u16_from_to_le [simp, endian_simps]: "u16_from_le (u16_to_le w) = w"
  using unat_lt [of w]
  by (simp add: u16_from_le_def u16_to_le_def le_val_le_bytes del: le_bytes_numeral)

lemma u32_from_to_le [simp, endian_simps]: "u32_from_le (u32_to_le w) = w"
  using unat_lt [of w]
  by (simp add: u32_from_le_def u32_to_le_def le_val_le_bytes del: le_bytes_numeral)

lemma u64_from_to_le [simp, endian_simps]: "u64_from_le (u64_to_le w) = w"
  using unat_lt [of w]
  by (simp add: u64_from_le_def u64_to_le_def le_val_le_bytes del: le_bytes_numeral)

lemma u32_from_to_be [simp, endian_simps]: "u32_from_be (u32_to_be w) = w"
  by (simp add: u32_from_be_def u32_to_be_def)

lemma u32_to_from_le [endian_simps]: "length bs = 4 \<Longrightarrow> u32_to_le (u32_from_le bs) = bs"
  using le_val_less [of bs] le_bytes_le_val [of bs]
  by (simp add: u32_from_le_def u32_to_le_def unat_of_nat del: le_bytes_numeral)

lemma u64_to_from_le [endian_simps]: "length bs = 8 \<Longrightarrow> u64_to_le (u64_from_le bs) = bs"
  using le_val_less [of bs] le_bytes_le_val [of bs]
  by (simp add: u64_from_le_def u64_to_le_def unat_of_nat del: le_bytes_numeral)

lemma u64_to_le_inject [simp]: "u64_to_le a = u64_to_le b \<longleftrightarrow> a = b"
  by (metis u64_from_to_le)

lemma u32_to_le_inject [simp]: "u32_to_le a = u32_to_le b \<longleftrightarrow> a = b"
  by (metis u32_from_to_le)

section \<open>Decimal numbers and ASCII text\<close>

text \<open>
  A Rust \<open>String\<close> is its UTF-8 byte sequence; it is modelled as an Isabelle string, one
  character per byte.  \<open>decimal\<close> lists the decimal digits that \<open>to_string\<close> and
  \<open>format!\<close> print, \<open>undecimal\<close> reads them back.
\<close>

fun decimal :: "nat \<Rightarrow> nat list" where
  "decimal n = (if n < 10 then [n] else decimal (n div 10) @ [n mod 10])"

declare decimal.simps [simp del]

definition undecimal :: "nat list \<Rightarrow> nat" where
  "undecimal ds = foldl (\<lambda>n d. 10 * n + d) 0 ds"

definition show_nat :: "nat \<Rightarrow> string" where
  "show_nat n = map (\<lambda>d. char_of (48 + d)) (decimal n)"

definition string_bytes :: "string \<Rightarrow> bytes" where
  "string_bytes cs = map (\<lambda>c. word_of_nat (of_char c)) cs"

definition bytes_string :: "bytes \<Rightarrow> string" where
  "bytes_string bs = map (\<lambda>b. char_of (unat b)) bs"

definition ascii_upper :: "u8 \<Rightarrow> u8" where
  "ascii_upper b = (if 0x61 \<le> b \<and> b \<le> 0x7A then b - 0x20 else b)"

definition to_ascii_uppercase :: "string \<Rightarrow> string" where
  "to_ascii_uppercase cs = bytes_string (map ascii_upper (string_bytes cs))"

definition eq_ignore_ascii_case :: "string \<Rightarrow> string \<Rightarrow> bool" where
  "eq_ignore_ascii_case a b \<longleftrightarrow> to_ascii_uppercase a = to_ascii_uppercase b"

lemma ascii_upper_idem [simp]: "ascii_upper (ascii_upper b) = ascii_upper b"
proof (cases "0x61 \<le> b \<and> b \<le> 0x7A")
  case True
  then have "unat (b - 0x20) = unat b - 32"
    by (subst unat_sub) (auto simp: word_le_nat_alt)
  with True show ?thesis by (auto simp: ascii_upper_def word_le_nat_alt)
next
  case False
  then show ?thesis by (auto simp: ascii_upper_def)
qed

lemma undecimal_decimal [simp]: "undecimal (decimal n) = n"
proof (induction n rule: decimal.induct)
  case (1 n)
  show ?case
    by (subst decimal.simps) (use 1 in \<open>auto simp: undecimal_def\<close>)
qed

lemma decimal_digits: "d \<in> set (decimal n) \<Longrightarrow> d < 10"
proof (induction n rule: decimal.induct)
  case (1 n)
  then show ?case by (subst (asm) decimal.simps) (auto split: if_splits)
qed

lemma decimal_not_Nil [simp]: "decimal n \<noteq> []"
  by (subst decimal.simps) simp

lemma decimal_inject [simp]: "decimal m = decimal n \<longleftrightarrow> m = n"
  by (metis undecimal_decimal)

lemma bytes_string_inverse [simp]: "string_bytes (bytes_string bs) = bs"
proof (induction bs)
  case Nil
  show ?case by (simp add: string_bytes_def bytes_string_def)
next
  case (Cons b bs)
  have "unat b < 256" using unat_lt [of b] by simp
  then have "of_char (char_of (unat b)) = unat b" by (simp add: of_char_of)
  with Cons show ?case by (simp add: string_bytes_def bytes_string_def)
qed

lemma string_bytes_inverse [simp]: "bytes_string (string_bytes cs) = cs"
proof (induction cs)
  case Nil
  show ?case by (simp add: string_bytes_def bytes_string_def)
next
  case (Cons c cs)
  have "(of_char c :: nat) < 256" by simp
  then have "unat (word_of_nat (of_char c) :: u8) = of_char c" by (simp add: unat_of_nat)
  with Cons show ?case by (simp add: string_bytes_def bytes_string_def)
qed

lemma to_ascii_uppercase_idem [simp]:
  "to_ascii_uppercase (to_ascii_uppercase s) = to_ascii_uppercase s"
  by (simp add: to_ascii_uppercase_def comp_def)

lemma string_bytes_inject [simp]: "string_bytes a = string_bytes b \<longleftrightarrow> a = b"
  by (metis string_bytes_inverse)

lemma length_string_bytes [simp]: "length (string_bytes cs) = length cs"
  by (simp add: string_bytes_def)

section \<open>Reading a payload with a cursor\<close>

text \<open>
  Two decoders of the program read a byte slice through a mutable cursor: the delta
  decoder of \<open>dbf/wal_delta.rs\<close> (\<open>take_delta_bytes\<close>) and the XBF codec
  (\<open>codec::take\<close>).  Both promise the same: the next \<open>n\<close> bytes and the advanced
  cursor when they are there, an error otherwise.  What the decoders rely on is
  stated once, as a locale.  \<open>cursor_at bs c rest\<close> says that \<open>rest\<close> is what is left to
  read; a decoder's round trip is a step from \<open>cursor_at bs c (x @ rest)\<close> to
  \<open>cursor_at bs (c + length x) rest\<close>.
\<close>

definition cursor_at :: "bytes \<Rightarrow> nat \<Rightarrow> bytes \<Rightarrow> bool" where
  "cursor_at bs c rest \<longleftrightarrow> c \<le> length bs \<and> drop c bs = rest"

lemma cursor_at_start: "cursor_at bs 0 bs"
  by (simp add: cursor_at_def)

lemma cursor_at_append: "cursor_at (pre @ rest) (length pre) rest"
  by (simp add: cursor_at_def)

lemma cursor_at_skip: "cursor_at bs c (x @ rest) \<Longrightarrow> cursor_at bs (c + length x) rest"
proof -
  assume a: "cursor_at bs c (x @ rest)"
  then have "bs = take c bs @ x @ rest" by (metis append_take_drop_id cursor_at_def)
  moreover have "length (take c bs) = c" using a by (simp add: cursor_at_def)
  ultimately show ?thesis by (metis append.assoc cursor_at_append length_append)
qed

lemma cursor_at_end: "cursor_at bs c [] \<longleftrightarrow> c = length bs"
  by (auto simp: cursor_at_def)

lemma cursor_at_length: "cursor_at bs c rest \<Longrightarrow> length bs = c + length rest"
  by (auto simp: cursor_at_def)

lemma cursor_at_subslice:
  "cursor_at bs c (x @ rest) \<Longrightarrow> subslice c (c + length x) bs = x"
  by (simp add: cursor_at_def subslice_def)

locale cursor_reader =
  fixes take_bytes :: "bytes \<Rightarrow> nat \<Rightarrow> nat \<Rightarrow> ('e, bytes \<times> nat) result"
  assumes take_Inr_iff:
    "take_bytes bs c n = Inr (x, c') \<longleftrightarrow>
       c + n \<le> length bs \<and> c + n < usize_limit \<and> x = subslice c (c + n) bs \<and> c' = c + n"
begin

lemma take_at:
  assumes "cursor_at bs c (x @ rest)" "length bs < usize_limit" "n = length x"
  shows "take_bytes bs c n = Inr (x, c + n)"
  using assms cursor_at_length [OF assms(1)] cursor_at_subslice [OF assms(1)]
  by (simp add: take_Inr_iff)

lemma take_progress: "take_bytes bs c n = Inr (x, c') \<Longrightarrow> c' = c + n \<and> c' \<le> length bs \<and> length x = n"
  by (simp add: take_Inr_iff)

lemma take_cursor_at:
  assumes "take_bytes bs c n = Inr (x, c')"
  shows "cursor_at bs c (x @ drop c' bs) \<and> length x = n \<and> c' = c + n"
  using assms unfolding take_Inr_iff cursor_at_def subslice_def
  by (auto simp: min_def) (metis add.commute append_take_drop_id drop_drop)

end

end
