(* ===== verification/Wal_Log.thy ===== *)
theory Wal_Log
  imports Base
begin

text \<open>
  The write-ahead log of \<open>src/transaction/wal.rs\<close>: the record framing
  (\<open>TXWL\<close>, length, LSN, payload), \<open>encode_records\<close>, the recovering parser
  \<open>parse_wal\<close>, and the two implementations of the \<open>Wal\<close> trait, \<open>MemoryWal\<close>
  and \<open>FileWal\<close>.  The file behind a \<open>FileWal\<close> is its content together with
  the outcomes of the coming I/O calls, so that a write that fails half way is a
  value of the model.  The parser is proved sound on arbitrary bytes and complete
  on every prefix of an encoded log (a torn tail).
\<close>

section \<open>Errors, constants\<close>

datatype transaction_error =
    Io
  | Record_exceeds_limit
  | Record_length_overflows
  | Lsn_overflows
  | Invalid_magic
  | Unexpected_lsn u64 u64
  | Transaction_not_active
  | Transaction_id_overflows

type_synonym wal_record = "u64 \<times> bytes"

definition WAL_MAGIC :: bytes where
  "WAL_MAGIC = [0x54, 0x58, 0x57, 0x4C]"

definition WAL_HEADER_SIZE :: nat where
  "WAL_HEADER_SIZE = 16"

definition MAX_WAL_RECORD_SIZE :: nat where
  "MAX_WAL_RECORD_SIZE = 16 * 1024 * 1024"

lemmas wal_consts = WAL_MAGIC_def WAL_HEADER_SIZE_def MAX_WAL_RECORD_SIZE_def

lemma length_WAL_MAGIC [simp]: "length WAL_MAGIC = 4"
  by (simp add: WAL_MAGIC_def)

section \<open>Record checks and log sequence numbers\<close>

definition validate_record_size :: "bytes \<Rightarrow> (transaction_error, unit) result" where
  "validate_record_size r = ensure (length r \<le> MAX_WAL_RECORD_SIZE) Record_exceeds_limit"

definition next_lsn :: "u64 option \<Rightarrow> (transaction_error, u64) result" where
  "next_lsn last_lsn =
     (case last_lsn of
        Some v \<Rightarrow> ok_or Lsn_overflows (checked_add_u64 v 1)
      | None \<Rightarrow> Inr 0)"

definition transaction_id_from_record :: "bytes \<Rightarrow> u64 option" where
  "transaction_id_from_record r =
     (if length r = 17 \<and> (r ! 0 = 0x43 \<or> r ! 0 = 0x52)
      then Some (u64_from_le (subslice 1 9 r)) else None)"

fun max_u64 :: "u64 list \<Rightarrow> u64 option" where
  "max_u64 [] = None"
| "max_u64 (x # xs) = (case max_u64 xs of None \<Rightarrow> Some x | Some y \<Rightarrow> Some (max x y))"

definition next_transaction_id_after_records :: "wal_record list \<Rightarrow> u64" where
  "next_transaction_id_after_records rs =
     (case max_u64 (List.map_filter (\<lambda>(_, r). transaction_id_from_record r) rs) of
        None \<Rightarrow> 1
      | Some i \<Rightarrow> saturating_add_u64 i 1)"

section \<open>Framing and parsing\<close>

definition wal_frame :: "u64 \<Rightarrow> bytes \<Rightarrow> bytes" where
  "wal_frame lsn r = WAL_MAGIC @ u32_to_le (word_of_nat (length r)) @ u64_to_le lsn @ r"

fun encode_records_from :: "nat \<Rightarrow> bytes list \<Rightarrow> (transaction_error, bytes) result" where
  "encode_records_from i [] = Inr []"
| "encode_records_from i (r # rs) =
     bindr (validate_record_size r) (\<lambda>_.
     bindr (ok_or Record_length_overflows (u32_try_from (length r))) (\<lambda>len.
     bindr (ensure (i < 2 ^ 64) Lsn_overflows) (\<lambda>_.
     bindr (encode_records_from (Suc i) rs) (\<lambda>rest.
       Inr (WAL_MAGIC @ u32_to_le len @ u64_to_le (word_of_nat i) @ r @ rest)))))"

definition encode_records :: "bytes list \<Rightarrow> (transaction_error, bytes) result" where
  "encode_records rs = encode_records_from 0 rs"

record parsed_wal =
  pw_records :: "wal_record list"
  pw_valid_bytes :: nat

function parse_wal_from ::
  "bytes \<Rightarrow> nat \<Rightarrow> u64 \<Rightarrow> wal_record list \<Rightarrow> (transaction_error, parsed_wal) result" where
  "parse_wal_from bs offset expected rs =
     (if \<not> offset < length bs then Inr \<lparr>pw_records = rs, pw_valid_bytes = length bs\<rparr>
      else if length bs - offset < WAL_HEADER_SIZE
        then Inr \<lparr>pw_records = rs, pw_valid_bytes = offset\<rparr>
      else if subslice offset (offset + 4) bs \<noteq> WAL_MAGIC then Inl Invalid_magic
      else
        let len = unat (u32_from_le (subslice (offset + 4) (offset + 8) bs)) in
        if len > MAX_WAL_RECORD_SIZE then Inl Record_exceeds_limit
        else
          case Option.bind (checked_add offset WAL_HEADER_SIZE) (\<lambda>h. checked_add h len) of
            None \<Rightarrow> Inl Record_length_overflows
          | Some end_ \<Rightarrow>
              if end_ > length bs then Inr \<lparr>pw_records = rs, pw_valid_bytes = offset\<rparr>
              else
                let lsn = u64_from_le (subslice (offset + 8) (offset + 16) bs) in
                if lsn \<noteq> expected then Inl (Unexpected_lsn lsn expected)
                else
                  case checked_add_u64 expected 1 of
                    None \<Rightarrow> Inl Lsn_overflows
                  | Some expected' \<Rightarrow>
                      parse_wal_from bs end_ expected'
                        (rs @ [(lsn, subslice (offset + WAL_HEADER_SIZE) end_ bs)]))"
  by pat_completeness auto
termination
  by (relation "measure (\<lambda>(bs, offset, _, _). length bs - offset)")
    (auto simp: result_simps WAL_HEADER_SIZE_def Option.bind_eq_Some_conv)

declare parse_wal_from.simps [simp del]

definition parse_wal :: "bytes \<Rightarrow> (transaction_error, parsed_wal) result" where
  "parse_wal bs = parse_wal_from bs 0 0 []"

section \<open>\<open>MemoryWal\<close>\<close>

record memory_wal =
  mw_records :: "wal_record list"
  mw_last_lsn :: "u64 option"
  mw_synced :: bool

definition memory_wal_default :: memory_wal where
  "memory_wal_default = \<lparr>mw_records = [], mw_last_lsn = None, mw_synced = False\<rparr>"

definition memory_append ::
  "memory_wal \<Rightarrow> bytes \<Rightarrow> memory_wal \<times> (transaction_error, u64) result" where
  "memory_append w r =
     (case bindr (validate_record_size r) (\<lambda>_. next_lsn (mw_last_lsn w)) of
        Inl e \<Rightarrow> (w, Inl e)
      | Inr lsn \<Rightarrow>
          (w\<lparr>mw_records := mw_records w @ [(lsn, r)], mw_last_lsn := Some lsn,
             mw_synced := False\<rparr>, Inr lsn))"

definition memory_sync :: "memory_wal \<Rightarrow> memory_wal \<times> (transaction_error, unit) result" where
  "memory_sync w = (w\<lparr>mw_synced := True\<rparr>, Inr ())"

definition memory_current_lsn :: "memory_wal \<Rightarrow> u64" where
  "memory_current_lsn w = (case mw_last_lsn w of None \<Rightarrow> 0 | Some l \<Rightarrow> l)"

definition memory_next_transaction_id :: "memory_wal \<Rightarrow> u64" where
  "memory_next_transaction_id w = next_transaction_id_after_records (mw_records w)"

section \<open>\<open>FileWal\<close>\<close>

text \<open>
  \<open>std::fs::File\<close> as the log uses it: the content, and the outcomes of the coming
  calls that may fail.  \<open>None\<close> is a call that succeeds, \<open>Some k\<close> one that fails;
  a failing \<open>write_all\<close> has stored the first \<open>k\<close> bytes.  When the list is
  used up every call succeeds.
\<close>

record disk_file =
  file_bytes :: bytes
  file_faults :: "nat option list"

definition pop_fault :: "disk_file \<Rightarrow> nat option \<times> disk_file" where
  "pop_fault f =
     (case file_faults f of [] \<Rightarrow> (None, f) | x # xs \<Rightarrow> (x, f\<lparr>file_faults := xs\<rparr>))"

definition write_all :: "disk_file \<Rightarrow> bytes \<Rightarrow> disk_file \<times> (transaction_error, unit) result" where
  "write_all f data =
     (case pop_fault f of
        (None, f') \<Rightarrow> (f'\<lparr>file_bytes := file_bytes f' @ data\<rparr>, Inr ())
      | (Some k, f') \<Rightarrow> (f'\<lparr>file_bytes := file_bytes f' @ take k data\<rparr>, Inl Io))"

definition sync_all :: "disk_file \<Rightarrow> disk_file \<times> (transaction_error, unit) result" where
  "sync_all f = (case pop_fault f of (None, f') \<Rightarrow> (f', Inr ()) | (Some _, f') \<Rightarrow> (f', Inl Io))"

definition set_len :: "disk_file \<Rightarrow> nat \<Rightarrow> disk_file \<times> (transaction_error, unit) result" where
  "set_len f n =
     (case pop_fault f of
        (None, f') \<Rightarrow> (f'\<lparr>file_bytes := resize n 0 (file_bytes f')\<rparr>, Inr ())
      | (Some _, f') \<Rightarrow> (f', Inl Io))"

definition seek :: "disk_file \<Rightarrow> disk_file \<times> (transaction_error, unit) result" where
  "seek f = (case pop_fault f of (None, f') \<Rightarrow> (f', Inr ()) | (Some _, f') \<Rightarrow> (f', Inl Io))"

record file_wal =
  fw_file :: disk_file
  fw_records :: "wal_record list"
  fw_last_lsn :: "u64 option"

definition last_lsn_of :: "wal_record list \<Rightarrow> u64 option" where
  "last_lsn_of rs = (if rs = [] then None else Some (fst (last rs)))"

definition file_open :: "disk_file \<Rightarrow> disk_file \<times> (transaction_error, file_wal) result" where
  "file_open f =
     (case parse_wal (file_bytes f) of
        Inl e \<Rightarrow> (f, Inl e)
      | Inr p \<Rightarrow>
          (case (if pw_valid_bytes p < length (file_bytes f)
                 then (case set_len f (pw_valid_bytes p) of
                         (f', Inl e) \<Rightarrow> (f', Inl e)
                       | (f', Inr _) \<Rightarrow> sync_all f')
                 else (f, Inr ())) of
             (f', Inl e) \<Rightarrow> (f', Inl e)
           | (f', Inr _) \<Rightarrow>
               (case seek f' of
                  (f'', Inl e) \<Rightarrow> (f'', Inl e)
                | (f'', Inr _) \<Rightarrow>
                    (f'', Inr \<lparr>fw_file = f'', fw_records = pw_records p,
                              fw_last_lsn = last_lsn_of (pw_records p)\<rparr>))))"

record wal_record_info =
  wi_lsn :: u64
  wi_length :: nat

record wal_inspection =
  ins_file_bytes :: nat
  ins_valid_bytes :: nat
  ins_truncated_tail :: bool
  ins_records :: "wal_record_info list"

definition file_inspect :: "disk_file \<Rightarrow> (transaction_error, wal_inspection) result" where
  "file_inspect f =
     bindr (parse_wal (file_bytes f)) (\<lambda>p.
       Inr \<lparr>ins_file_bytes = length (file_bytes f), ins_valid_bytes = pw_valid_bytes p,
            ins_truncated_tail = (pw_valid_bytes p < length (file_bytes f)),
            ins_records = map (\<lambda>(l, r). \<lparr>wi_lsn = l, wi_length = length r\<rparr>) (pw_records p)\<rparr>)"

definition file_clear :: "file_wal \<Rightarrow> file_wal \<times> (transaction_error, unit) result" where
  "file_clear w =
     (case set_len (fw_file w) 0 of
        (f, Inl e) \<Rightarrow> (w\<lparr>fw_file := f\<rparr>, Inl e)
      | (f, Inr _) \<Rightarrow>
          (case seek f of
             (f', Inl e) \<Rightarrow> (w\<lparr>fw_file := f'\<rparr>, Inl e)
           | (f', Inr _) \<Rightarrow>
               (case sync_all f' of
                  (f'', Inl e) \<Rightarrow> (w\<lparr>fw_file := f''\<rparr>, Inl e)
                | (f'', Inr _) \<Rightarrow> (w\<lparr>fw_file := f'', fw_records := [], fw_last_lsn := None\<rparr>, Inr ()))))"

definition file_append ::
  "file_wal \<Rightarrow> bytes \<Rightarrow> file_wal \<times> (transaction_error, u64) result" where
  "file_append w r =
     (case bindr (validate_record_size r) (\<lambda>_.
           bindr (next_lsn (fw_last_lsn w)) (\<lambda>lsn.
           bindr (ok_or Record_length_overflows (u32_try_from (length r))) (\<lambda>len.
             Inr (lsn, WAL_MAGIC @ u32_to_le len @ u64_to_le lsn)))) of
        Inl e \<Rightarrow> (w, Inl e)
      | Inr (lsn, header) \<Rightarrow>
          (case seek (fw_file w) of
             (f, Inl e) \<Rightarrow> (w\<lparr>fw_file := f\<rparr>, Inl e)
           | (f, Inr _) \<Rightarrow>
               (case write_all f header of
                  (f, Inl e) \<Rightarrow> (w\<lparr>fw_file := f\<rparr>, Inl e)
                | (f, Inr _) \<Rightarrow>
                    (case write_all f r of
                       (f', Inl e) \<Rightarrow> (w\<lparr>fw_file := f'\<rparr>, Inl e)
                     | (f', Inr _) \<Rightarrow>
                         (w\<lparr>fw_file := f', fw_records := fw_records w @ [(lsn, r)],
                            fw_last_lsn := Some lsn\<rparr>, Inr lsn)))))"

definition file_sync :: "file_wal \<Rightarrow> file_wal \<times> (transaction_error, unit) result" where
  "file_sync w = (case sync_all (fw_file w) of (f, r) \<Rightarrow> (w\<lparr>fw_file := f\<rparr>, r))"

definition file_current_lsn :: "file_wal \<Rightarrow> u64" where
  "file_current_lsn w = (case fw_last_lsn w of None \<Rightarrow> 0 | Some l \<Rightarrow> l)"

definition file_next_transaction_id :: "file_wal \<Rightarrow> u64" where
  "file_next_transaction_id w = next_transaction_id_after_records (fw_records w)"

section \<open>What a log is: the specification of the parser\<close>

text \<open>
  \<open>log_bytes rs\<close> is the file image of the records \<open>rs\<close>, \<open>wf_log n rs\<close> says that
  their LSNs count up from \<open>n\<close> and that no record is too large, and
  \<open>whole_records k rs\<close> are the records whose frames lie within the first \<open>k\<close> bytes.
\<close>


definition log_bytes :: "wal_record list \<Rightarrow> bytes" where
  "log_bytes rs = concat (map (\<lambda>(l, r). wal_frame l r) rs)"

fun wf_log :: "nat \<Rightarrow> wal_record list \<Rightarrow> bool" where
  "wf_log n [] = True"
| "wf_log n ((l, r) # rs) =
     (Suc n < 2 ^ 64 \<and> l = word_of_nat n \<and> length r \<le> MAX_WAL_RECORD_SIZE \<and> wf_log (Suc n) rs)"

fun whole_records :: "nat \<Rightarrow> wal_record list \<Rightarrow> wal_record list" where
  "whole_records n [] = []"
| "whole_records n ((l, r) # rs) =
     (if WAL_HEADER_SIZE + length r \<le> n
      then (l, r) # whole_records (n - (WAL_HEADER_SIZE + length r)) rs else [])"

lemma log_bytes_simps [simp]:
  "log_bytes [] = []"
  "log_bytes ((l, r) # rs) = wal_frame l r @ log_bytes rs"
  "log_bytes (xs @ ys) = log_bytes xs @ log_bytes ys"
  by (simp_all add: log_bytes_def)

lemma length_wal_frame [simp]: "length (wal_frame l r) = WAL_HEADER_SIZE + length r"
  by (simp add: wal_frame_def wal_consts)

lemma wf_log_append:
  "wf_log n (xs @ ys) \<longleftrightarrow> wf_log n xs \<and> wf_log (n + length xs) ys"
  by (induction n xs rule: wf_log.induct) auto

lemma max_record_u32: "length r \<le> MAX_WAL_RECORD_SIZE \<Longrightarrow> length r < 2 ^ 32"
  by (simp add: wal_consts)

lemma subslice_frame:
  fixes pre post r :: bytes and l :: u64
  defines "bs \<equiv> pre @ wal_frame l r @ post"
  shows "subslice (length pre) (length pre + 4) bs = WAL_MAGIC"
    and "subslice (length pre + 4) (length pre + 8) bs = u32_to_le (word_of_nat (length r))"
    and "subslice (length pre + 8) (length pre + 16) bs = u64_to_le l"
    and "subslice (length pre + WAL_HEADER_SIZE) (length pre + WAL_HEADER_SIZE + length r) bs = r"
  unfolding bs_def wal_frame_def
  by (simp_all add: subslice_def WAL_HEADER_SIZE_def)

lemma parse_step:
  assumes "length r \<le> MAX_WAL_RECORD_SIZE" and "Suc n < 2 ^ 64"
    and "length (pre @ wal_frame (word_of_nat n) r @ post) < usize_limit"
  shows "parse_wal_from (pre @ wal_frame (word_of_nat n) r @ post) (length pre) (word_of_nat n) acc =
    parse_wal_from (pre @ wal_frame (word_of_nat n) r @ post)
      (length pre + WAL_HEADER_SIZE + length r) (word_of_nat (Suc n)) (acc @ [(word_of_nat n, r)])"
proof -
  let ?l = "word_of_nat n :: u64"
  let ?bs = "pre @ wal_frame ?l r @ post"
  have n: "unat ?l = n" using assms(2) by (simp add: unat_of_nat)
  have next_lsn: "checked_add_u64 ?l 1 = Some (word_of_nat (Suc n))"
    using assms(2) n by (simp add: checked_add_u64_def add.commute)
  have len: "unat (word_of_nat (length r) :: u32) = length r"
    using max_record_u32 [OF assms(1)] by (rule unat_u32_of_nat)
  have "Option.bind (checked_add (length pre) WAL_HEADER_SIZE) (\<lambda>h. checked_add h (length r))
      = Some (length pre + WAL_HEADER_SIZE + length r)"
    using assms(3) by (simp add: checked_add_def WAL_HEADER_SIZE_def)
  with len next_lsn assms(1) show ?thesis
    by (subst parse_wal_from.simps)
      (simp add: subslice_frame subslice_frame(4) [unfolded WAL_HEADER_SIZE_def] Let_def
        WAL_HEADER_SIZE_def)
qed

lemma parse_torn:
  assumes "length r \<le> MAX_WAL_RECORD_SIZE" and "k < WAL_HEADER_SIZE + length r"
    and "length (pre @ wal_frame l r) < usize_limit"
  shows "parse_wal_from (pre @ take k (wal_frame l r)) (length pre) l acc =
    Inr \<lparr>pw_records = acc, pw_valid_bytes = length pre\<rparr>"
proof (cases "k < WAL_HEADER_SIZE")
  case True
  then show ?thesis by (subst parse_wal_from.simps) auto
next
  case False
  let ?bs = "pre @ take k (wal_frame l r)"
  let ?full = "pre @ wal_frame l r @ []"
  have same: "subslice i j ?bs = subslice i j ?full" if "i \<le> j" "length pre \<le> i" "j \<le> length pre + WAL_HEADER_SIZE" for i j
    using that False by (auto simp: subslice_def take_drop min_def)
  have fields:
    "subslice (length pre) (length pre + 4) ?bs = WAL_MAGIC"
    "subslice (length pre + 4) (length pre + 8) ?bs = u32_to_le (word_of_nat (length r))"
    using same [of "length pre" "length pre + 4"] same [of "length pre + 4" "length pre + 8"]
      subslice_frame(1) [of pre l r "[]"] subslice_frame(2) [of pre l r "[]"]
    by (simp_all add: WAL_HEADER_SIZE_def)
  have len: "unat (word_of_nat (length r) :: u32) = length r"
    using max_record_u32 [OF assms(1)] by (rule unat_u32_of_nat)
  have "Option.bind (checked_add (length pre) WAL_HEADER_SIZE) (\<lambda>h. checked_add h (length r))
      = Some (length pre + WAL_HEADER_SIZE + length r)"
    using assms(3) by (simp add: checked_add_def WAL_HEADER_SIZE_def)
  with fields len assms(1,2) False show ?thesis
    by (subst parse_wal_from.simps) (auto simp: Let_def)
qed

lemma parse_prefix:
  assumes "wf_log n rs" and "length (pre @ log_bytes rs) < usize_limit"
  shows "parse_wal_from (pre @ take k (log_bytes rs)) (length pre) (word_of_nat n) acc =
    Inr \<lparr>pw_records = acc @ whole_records k rs,
         pw_valid_bytes = length pre + length (log_bytes (whole_records k rs))\<rparr>"
  using assms
proof (induction rs arbitrary: n k pre acc)
  case Nil
  show ?case by (subst parse_wal_from.simps) simp
next
  case (Cons x rs)
  obtain l r where x: "x = (l, r)" by (cases x)
  with Cons.prems(1) have l: "l = word_of_nat n" and r: "length r \<le> MAX_WAL_RECORD_SIZE"
    and n: "Suc n < 2 ^ 64" and wf: "wf_log (Suc n) rs" by auto
  let ?w = "WAL_HEADER_SIZE + length r"
  show ?case
  proof (cases "?w \<le> k")
    case True
    let ?pre = "pre @ wal_frame l r"
    have split: "pre @ take k (log_bytes (x # rs)) = ?pre @ take (k - ?w) (log_bytes rs)"
      using True x by simp
    have lim: "length (?pre @ log_bytes rs) < usize_limit" using Cons.prems(2) x by simp
    have "parse_wal_from (?pre @ take (k - ?w) (log_bytes rs)) (length pre) (word_of_nat n) acc =
      parse_wal_from (?pre @ take (k - ?w) (log_bytes rs)) (length ?pre) (word_of_nat (Suc n))
        (acc @ [(l, r)])"
      using parse_step [OF r n, of pre "take (k - ?w) (log_bytes rs)" acc] lim l
      by (simp add: add.assoc)
    also have "\<dots> = Inr \<lparr>pw_records = (acc @ [(l, r)]) @ whole_records (k - ?w) rs,
        pw_valid_bytes = length ?pre + length (log_bytes (whole_records (k - ?w) rs))\<rparr>"
      by (rule Cons.IH [OF wf lim])
    finally show ?thesis using True split x by simp
  next
    case False
    then have "take k (log_bytes (x # rs)) = take k (wal_frame l r)" using x by simp
    with False parse_torn [OF r, of k pre l acc] Cons.prems(2) x l show ?thesis by simp
  qed
qed

lemma whole_records_all: "length (log_bytes rs) \<le> k \<Longrightarrow> whole_records k rs = rs"
  by (induction k rs rule: whole_records.induct) auto

lemma whole_records_prefix: "\<exists>zs. rs = whole_records k rs @ zs"
  by (induction k rs rule: whole_records.induct) auto

lemma encode_records_from_ok:
  "encode_records_from n rs = Inr bs \<Longrightarrow>
     bs = log_bytes (zip (map word_of_nat [n..<n + length rs]) rs) \<and>
     list_all (\<lambda>r. length r \<le> MAX_WAL_RECORD_SIZE) rs"
proof (induction n rs arbitrary: bs rule: encode_records_from.induct)
  case (1 i)
  then show ?case by simp
next
  case (2 i r rs)
  from 2(2) obtain rest where rest: "encode_records_from (Suc i) rs = Inr rest"
    and bs: "bs = wal_frame (word_of_nat i) r @ rest"
    and r: "length r \<le> MAX_WAL_RECORD_SIZE"
    by (auto simp: result_simps validate_record_size_def wal_frame_def)
  have "[i..<i + length (r # rs)] = i # [Suc i..<Suc i + length rs]"
    by (simp add: upt_conv_Cons del: upt_Suc)
  moreover have "rest = log_bytes (zip (map word_of_nat [Suc i..<Suc i + length rs]) rs) \<and>
      list_all (\<lambda>r. length r \<le> MAX_WAL_RECORD_SIZE) rs"
    using 2 rest by (auto simp: result_simps validate_record_size_def)
  ultimately show ?case using bs r by (simp del: upt_Suc)
qed


lemma subslice_is_frame:
  assumes "off + WAL_HEADER_SIZE + len \<le> length bs"
    and "subslice off (off + 4) bs = WAL_MAGIC"
    and "unat (u32_from_le (subslice (off + 4) (off + 8) bs)) = len"
  shows "subslice off (off + WAL_HEADER_SIZE + len) bs =
    wal_frame (u64_from_le (subslice (off + 8) (off + 16) bs))
      (subslice (off + WAL_HEADER_SIZE) (off + WAL_HEADER_SIZE + len) bs)"
proof -
  let ?h = WAL_HEADER_SIZE
  let ?p = "subslice (off + ?h) (off + ?h + len) bs"
  have "length ?p = len" using assms(1) by simp
  then have w: "word_of_nat (length ?p) = u32_from_le (subslice (off + 4) (off + 8) bs)"
    by (simp flip: assms(3))
  have "length (subslice (off + 4) (off + 8) bs) = 4" "length (subslice (off + 8) (off + 16) bs) = 8"
    using assms(1) by (simp_all add: WAL_HEADER_SIZE_def)
  then have enc: "u32_to_le (word_of_nat (length ?p)) = subslice (off + 4) (off + 8) bs"
    "u64_to_le (u64_from_le (subslice (off + 8) (off + 16) bs)) = subslice (off + 8) (off + 16) bs"
    by (simp_all add: w endian_simps)
  have "subslice off (off + ?h + len) bs =
     subslice off (off + 4) bs @ subslice (off + 4) (off + 8) bs
       @ subslice (off + 8) (off + 16) bs @ ?p"
    using subslice_split [of off "off + 4" "off + ?h + len" bs]
      subslice_split [of "off + 4" "off + 8" "off + ?h + len" bs]
      subslice_split [of "off + 8" "off + 16" "off + ?h + len" bs]
    by (simp add: WAL_HEADER_SIZE_def)
  then show ?thesis using enc assms(2) by (simp add: wal_frame_def)
qed

lemma parse_sound:
  assumes "parse_wal_from bs off expected acc = Inr p" and "off \<le> length bs"
  shows "\<exists>rs. pw_records p = acc @ rs \<and> wf_log (unat expected) rs \<and>
    off \<le> pw_valid_bytes p \<and> pw_valid_bytes p \<le> length bs \<and>
    subslice off (pw_valid_bytes p) bs = log_bytes rs"
  using assms
proof (induction bs off expected acc rule: parse_wal_from.induct)
  case (1 bs off expected acc)
  let ?len = "unat (u32_from_le (subslice (off + 4) (off + 8) bs))"
  let ?stop = "off + WAL_HEADER_SIZE + ?len"
  let ?lsn = "u64_from_le (subslice (off + 8) (off + 16) bs)"
  let ?r = "subslice (off + WAL_HEADER_SIZE) ?stop bs"
  consider (stop) "pw_records p = acc" "pw_valid_bytes p = off"
    | (more) e where "\<not> length bs \<le> off" "\<not> length bs - off < WAL_HEADER_SIZE"
        "subslice off (off + 4) bs = WAL_MAGIC" "?len \<le> MAX_WAL_RECORD_SIZE"
        "Option.bind (checked_add off WAL_HEADER_SIZE) (\<lambda>h. checked_add h ?len) = Some ?stop"
        "?stop \<le> length bs" "?lsn = expected" "checked_add_u64 expected 1 = Some e"
        "parse_wal_from bs ?stop e (acc @ [(?lsn, ?r)]) = Inr p"
    using "1.prems" parse_wal_from.simps [of bs off expected acc]
    by (fastforce simp: Let_def Option.bind_eq_Some_conv result_simps
        split: if_splits option.splits)
  then show ?case
  proof cases
    case stop
    with "1.prems"(2) show ?thesis by (intro exI [of _ "[]"]) (simp add: subslice_def)
  next
    case more
    have "\<exists>rs. pw_records p = (acc @ [(?lsn, ?r)]) @ rs \<and> wf_log (unat e) rs \<and>
        ?stop \<le> pw_valid_bytes p \<and> pw_valid_bytes p \<le> length bs \<and>
        subslice ?stop (pw_valid_bytes p) bs = log_bytes rs"
      using more by (intro "1.IH" [of ?len ?stop ?lsn e]) auto
    then obtain rs where rs: "pw_records p = (acc @ [(?lsn, ?r)]) @ rs" "wf_log (unat e) rs"
      "?stop \<le> pw_valid_bytes p" "pw_valid_bytes p \<le> length bs"
      "subslice ?stop (pw_valid_bytes p) bs = log_bytes rs" by blast
    have e: "unat e = Suc (unat expected)"
      using checked_add_u64_Some [OF more(8)] by simp
    have "subslice off ?stop bs = wal_frame ?lsn ?r"
      using more by (intro subslice_is_frame) auto
    moreover have "subslice off (pw_valid_bytes p) bs
        = subslice off ?stop bs @ subslice ?stop (pw_valid_bytes p) bs"
      using rs(3) by (intro subslice_split) auto
    moreover have "Suc (unat expected) < 2 ^ 64" using e unat_lt [of e] by simp
    moreover have "length ?r \<le> MAX_WAL_RECORD_SIZE" using more(4,6) by simp
    ultimately show ?thesis using rs e more(7)
      by (intro exI [of _ "(?lsn, ?r) # rs"]) auto
  qed
qed


section \<open>Invariants of the two logs\<close>

definition lsn_seq :: "wal_record list \<Rightarrow> bool" where
  "lsn_seq rs \<longleftrightarrow> map fst rs = map word_of_nat [0..<length rs] \<and> length rs \<le> 2 ^ 64"

definition sizes_ok :: "wal_record list \<Rightarrow> bool" where
  "sizes_ok rs \<longleftrightarrow> (\<forall>(_, r) \<in> set rs. length r \<le> MAX_WAL_RECORD_SIZE)"

definition memory_inv :: "memory_wal \<Rightarrow> bool" where
  "memory_inv w \<longleftrightarrow> lsn_seq (mw_records w) \<and> sizes_ok (mw_records w) \<and>
     mw_last_lsn w = last_lsn_of (mw_records w)"

definition file_inv :: "file_wal \<Rightarrow> bool" where
  "file_inv w \<longleftrightarrow> lsn_seq (fw_records w) \<and> sizes_ok (fw_records w) \<and>
     fw_last_lsn w = last_lsn_of (fw_records w)"

definition durable :: "file_wal \<Rightarrow> bool" where
  "durable w \<longleftrightarrow> file_bytes (fw_file w) = log_bytes (fw_records w)"

lemma wf_log_iff:
  "wf_log n rs \<longleftrightarrow> map fst rs = map word_of_nat [n..<n + length rs] \<and> sizes_ok rs \<and>
     (rs \<noteq> [] \<longrightarrow> n + length rs < 2 ^ 64)"
proof (induction n rs rule: wf_log.induct)
  case (1 n)
  show ?case by (simp add: sizes_ok_def)
next
  case (2 n l r rs)
  have "[n..<n + length ((l, r) # rs)] = n # [Suc n..<Suc n + length rs]"
    by (simp add: upt_conv_Cons del: upt_Suc)
  with 2 show ?case by (cases rs) (auto simp: sizes_ok_def simp del: upt_Suc)
qed

lemma log_bytes_length: "16 * length rs \<le> length (log_bytes rs)"
  by (induction rs) (auto simp: WAL_HEADER_SIZE_def)

lemma wf_log_of_inv:
  assumes "lsn_seq rs" "sizes_ok rs" "length (log_bytes rs) < usize_limit"
  shows "wf_log 0 rs"
  using assms log_bytes_length [of rs] by (auto simp: wf_log_iff lsn_seq_def usize_limit_def)

lemma inv_of_wf_log: "wf_log 0 rs \<Longrightarrow> lsn_seq rs \<and> sizes_ok rs"
  by (cases rs) (auto simp: wf_log_iff lsn_seq_def)

lemma last_lsn_of_seq: "lsn_seq rs \<Longrightarrow> rs \<noteq> [] \<Longrightarrow> last_lsn_of rs = Some (word_of_nat (length rs - 1))"
proof -
  assume "lsn_seq rs" "rs \<noteq> []"
  then have "last (map fst rs) = last (map word_of_nat [0..<length rs])" by (simp add: lsn_seq_def)
  with \<open>rs \<noteq> []\<close> show ?thesis by (simp add: last_lsn_of_def last_map)
qed

lemma next_lsn_seq:
  assumes "lsn_seq rs"
  shows "next_lsn (last_lsn_of rs) =
    (if length rs < 2 ^ 64 then Inr (word_of_nat (length rs)) else Inl Lsn_overflows)"
proof (cases "rs = []")
  case True
  then show ?thesis by (simp add: next_lsn_def last_lsn_of_def)
next
  case False
  then obtain m where m: "length rs = Suc m" by (cases rs) auto
  with assms have le: "Suc m \<le> 2 ^ 64" by (simp add: lsn_seq_def)
  then have u: "unat (word_of_nat m :: u64) = m" by (simp add: unat_of_nat)
  have "last_lsn_of rs = Some (word_of_nat m)" using last_lsn_of_seq [OF assms False] m by simp
  moreover have "checked_add_u64 (word_of_nat m) 1 =
      (if Suc m < 2 ^ 64 then Some (word_of_nat (Suc m)) else None)"
    using le by (simp add: checked_add_u64_def u add.commute)
  ultimately show ?thesis using m le by (simp add: next_lsn_def)
qed

lemma lsn_seq_snoc:
  "lsn_seq rs \<Longrightarrow> length rs < 2 ^ 64 \<Longrightarrow> lsn_seq (rs @ [(word_of_nat (length rs), r)])"
  by (simp add: lsn_seq_def)

lemma sizes_ok_snoc [simp]:
  "sizes_ok (rs @ [(l, r)]) \<longleftrightarrow> sizes_ok rs \<and> length r \<le> MAX_WAL_RECORD_SIZE"
  by (auto simp: sizes_ok_def)

lemma last_lsn_of_snoc [simp]: "last_lsn_of (rs @ [(l, r)]) = Some l"
  by (simp add: last_lsn_of_def)

lemma memory_append_cases:
  assumes "memory_inv w" and "memory_append w r = (w', res)"
  shows "(\<exists>e. res = Inl e \<and> w' = w) \<or>
    (res = Inr (word_of_nat (length (mw_records w))) \<and> memory_inv w' \<and>
     mw_records w' = mw_records w @ [(word_of_nat (length (mw_records w)), r)])"
  using assms
  by (auto simp: memory_append_def memory_inv_def validate_record_size_def ensure_def
      next_lsn_seq lsn_seq_snoc split: if_splits)

lemma memory_append_ok:
  assumes "memory_inv w" "length r \<le> MAX_WAL_RECORD_SIZE" "length (mw_records w) < 2 ^ 64"
  shows "\<exists>w' l. memory_append w r = (w', Inr l)"
  using assms by (simp add: memory_append_def memory_inv_def validate_record_size_def next_lsn_seq)

lemma write_all_cases:
  assumes "write_all f d = (f', res)"
  shows "(res = Inr () \<and> file_bytes f' = file_bytes f @ d) \<or>
    (res = Inl Io \<and> (\<exists>k. file_bytes f' = file_bytes f @ take k d))"
  using assms by (auto simp: write_all_def pop_fault_def split: list.splits option.splits)

lemma write_all_no_faults:
  "file_faults f = [] \<Longrightarrow> write_all f d = (f\<lparr>file_bytes := file_bytes f @ d\<rparr>, Inr ())"
  by (simp add: write_all_def pop_fault_def)

lemma seek_no_faults: "file_faults f = [] \<Longrightarrow> seek f = (f, Inr ())"
  by (simp add: seek_def pop_fault_def)

lemma wal_frame_header:
  "WAL_MAGIC @ u32_to_le (word_of_nat (length r)) @ u64_to_le l = take WAL_HEADER_SIZE (wal_frame l r)"
  by (simp add: wal_frame_def WAL_HEADER_SIZE_def)

lemma wal_frame_split: "wal_frame l r = take WAL_HEADER_SIZE (wal_frame l r) @ r"
  by (simp add: wal_frame_def WAL_HEADER_SIZE_def)

text \<open>
  The outcomes of an append: a rejected record changes nothing, a failed write leaves
  the in-memory records alone and a part of the frame in the file, a success adds
  the record to both.
\<close>

lemma file_append_cases:
  assumes inv: "file_inv w" and app: "file_append w r = (w', res)"
  defines "l \<equiv> word_of_nat (length (fw_records w)) :: u64"
  shows "(\<exists>e. res = Inl e \<and> w' = w) \<or>
    (\<exists>k. res = Inl Io \<and> length r \<le> MAX_WAL_RECORD_SIZE \<and> length (fw_records w) < 2 ^ 64 \<and>
       fw_records w' = fw_records w \<and> fw_last_lsn w' = fw_last_lsn w \<and>
       file_bytes (fw_file w') = file_bytes (fw_file w) @ take k (wal_frame l r)) \<or>
    (res = Inr l \<and> file_inv w' \<and> fw_records w' = fw_records w @ [(l, r)] \<and>
       length r \<le> MAX_WAL_RECORD_SIZE \<and>
       file_bytes (fw_file w') = file_bytes (fw_file w) @ wal_frame l r)"
proof (cases "length r \<le> MAX_WAL_RECORD_SIZE \<and> length (fw_records w) < 2 ^ 64")
  case False
  then have "\<exists>e. file_append w r = (w, Inl e)"
    using inv by (auto simp: file_append_def file_inv_def validate_record_size_def
        ensure_def next_lsn_seq)
  with app show ?thesis by auto
next
  case True
  let ?h = "take WAL_HEADER_SIZE (wal_frame l r)"
  have "file_append w r =
     (case seek (fw_file w) of
        (f, Inl e) \<Rightarrow> (w\<lparr>fw_file := f\<rparr>, Inl e)
      | (f, Inr _) \<Rightarrow>
          (case write_all f ?h of
             (f, Inl e) \<Rightarrow> (w\<lparr>fw_file := f\<rparr>, Inl e)
           | (f, Inr _) \<Rightarrow>
               (case write_all f r of
                  (f', Inl e) \<Rightarrow> (w\<lparr>fw_file := f'\<rparr>, Inl e)
                | (f', Inr _) \<Rightarrow>
                    (w\<lparr>fw_file := f', fw_records := fw_records w @ [(l, r)],
                       fw_last_lsn := Some l\<rparr>, Inr l))))"
    unfolding l_def using True inv max_record_u32 [of r]
    by (simp add: file_append_def file_inv_def validate_record_size_def next_lsn_seq
        u32_try_from_def wal_frame_header)
  note app = app [unfolded this]
  obtain f0 s0 where w0: "seek (fw_file w) = (f0, s0)" by fastforce
  obtain f1 s1 where w1: "write_all f0 ?h = (f1, s1)" by fastforce
  obtain f2 s2 where w2: "write_all f1 r = (f2, s2)" by fastforce
  have f0: "file_bytes f0 = file_bytes (fw_file w)" "s0 = Inr () \<or> s0 = Inl Io"
    using w0 by (auto simp: seek_def pop_fault_def split: list.splits option.splits)
  have failed: ?thesis if "w' = w\<lparr>fw_file := f\<rparr>" "res = Inl Io"
    "file_bytes f = file_bytes (fw_file w) @ take k (wal_frame l r)" for f k
    using that True by auto
  show ?thesis
  proof (cases "s0 = Inr ()")
    case False
    then have "w' = w\<lparr>fw_file := f0\<rparr>" "res = Inl Io" using app w0 f0(2) by auto
    with failed [of f0 0] f0(1) show ?thesis by simp
  next
    case sought: True
    from write_all_cases [OF w1, unfolded f0(1)] show ?thesis
    proof
    assume a: "s1 = Inl Io \<and> (\<exists>k. file_bytes f1 = file_bytes (fw_file w) @ take k ?h)"
    then obtain k where "file_bytes f1 = file_bytes (fw_file w) @ take (min k WAL_HEADER_SIZE) (wal_frame l r)"
      by (auto simp: take_take)
    moreover have "w' = w\<lparr>fw_file := f1\<rparr>" "res = Inl Io" using a app sought w0 w1 by auto
    ultimately show ?thesis by (intro failed)
  next
    assume a: "s1 = Inr () \<and> file_bytes f1 = file_bytes (fw_file w) @ ?h"
    from write_all_cases [OF w2] show ?thesis
    proof
      assume b: "s2 = Inl Io \<and> (\<exists>k. file_bytes f2 = file_bytes f1 @ take k r)"
      then obtain k where "file_bytes f2 = file_bytes f1 @ take k r" by blast
      moreover have "take (WAL_HEADER_SIZE + k) (wal_frame l r) = ?h @ take k r"
        by (simp add: wal_frame_def WAL_HEADER_SIZE_def)
      ultimately have "file_bytes f2 = file_bytes (fw_file w) @ take (WAL_HEADER_SIZE + k) (wal_frame l r)"
        using a by simp
      moreover have "w' = w\<lparr>fw_file := f2\<rparr>" "res = Inl Io" using a b app sought w0 w1 w2 by auto
      ultimately show ?thesis by (intro failed)
    next
      assume b: "s2 = Inr () \<and> file_bytes f2 = file_bytes f1 @ r"
      have "file_bytes f2 = file_bytes (fw_file w) @ wal_frame l r"
        using a b by (subst wal_frame_split) simp
      with a b app sought w0 w1 w2 True inv show ?thesis
        by (auto simp: file_inv_def l_def lsn_seq_snoc)
    qed
    qed
  qed
qed

lemma parse_log_bytes:
  assumes "wf_log 0 rs" "length (log_bytes rs) < usize_limit"
  shows "parse_wal (take k (log_bytes rs)) =
    Inr \<lparr>pw_records = whole_records k rs, pw_valid_bytes = length (log_bytes (whole_records k rs))\<rparr>"
  using parse_prefix [of 0 rs "[]" k "[]"] assms by (simp add: parse_wal_def)

lemma wf_log_whole: "wf_log n rs \<Longrightarrow> wf_log n (whole_records k rs)"
  by (induction k rs arbitrary: n rule: whole_records.induct) auto

lemma take_log_whole:
  "length (log_bytes (whole_records k rs)) \<le> k \<and>
     take (length (log_bytes (whole_records k rs))) (log_bytes rs) = log_bytes (whole_records k rs)"
  by (induction k rs rule: whole_records.induct) auto

lemma file_open_no_faults:
  assumes "parse_wal (file_bytes f) = Inr p" "file_faults f = []"
    and "pw_valid_bytes p \<le> length (file_bytes f)"
  shows "file_open f = (let f' = f\<lparr>file_bytes := take (pw_valid_bytes p) (file_bytes f)\<rparr> in
    (f', Inr \<lparr>fw_file = f', fw_records = pw_records p, fw_last_lsn = last_lsn_of (pw_records p)\<rparr>))"
  using assms
  by (auto simp: file_open_def set_len_def sync_all_def seek_def pop_fault_def resize_def Let_def)

lemma file_open_crash:
  assumes "wf_log 0 rs" "length (log_bytes rs) < usize_limit" "k \<le> length (log_bytes rs)"
  shows "\<exists>f' w'. file_open \<lparr>file_bytes = take k (log_bytes rs), file_faults = []\<rparr> = (f', Inr w') \<and>
    fw_records w' = whole_records k rs \<and> file_inv w' \<and> durable w' \<and> fw_file w' = f'"
proof -
  let ?f = "\<lparr>file_bytes = take k (log_bytes rs), file_faults = []\<rparr>"
  let ?ws = "whole_records k rs"
  have p: "parse_wal (file_bytes ?f) = Inr \<lparr>pw_records = ?ws, pw_valid_bytes = length (log_bytes ?ws)\<rparr>"
    using parse_log_bytes [OF assms(1,2)] by simp
  have le: "length (log_bytes ?ws) \<le> k" and tk: "take (length (log_bytes ?ws)) (log_bytes rs) = log_bytes ?ws"
    using take_log_whole [of k rs] by auto
  have "lsn_seq ?ws \<and> sizes_ok ?ws" by (rule inv_of_wf_log [OF wf_log_whole [OF assms(1)]])
  with file_open_no_faults [OF p] le tk assms(3) show ?thesis
    by (auto simp: Let_def file_inv_def durable_def min_def)
qed


section \<open>Properties of the log\<close>

lemma take_whole_records:
  "\<exists>m \<le> length rs. whole_records k rs = take m rs \<and>
     (m < length rs \<longrightarrow> k < length (log_bytes (take m rs)) + WAL_HEADER_SIZE + length (snd (rs ! m)))"
proof (induction k rs rule: whole_records.induct)
  case (1 n)
  show ?case by simp
next
  case (2 n l r rs)
  show ?case
  proof (cases "WAL_HEADER_SIZE + length r \<le> n")
    case True
    with 2 obtain m where "m \<le> length rs"
      "whole_records (n - (WAL_HEADER_SIZE + length r)) rs = take m rs"
      "m < length rs \<longrightarrow> n - (WAL_HEADER_SIZE + length r) <
         length (log_bytes (take m rs)) + WAL_HEADER_SIZE + length (snd (rs ! m))" by blast
    with True show ?thesis by (intro exI [of _ "Suc m"]) auto
  next
    case False
    then show ?thesis by (intro exI [of _ 0]) auto
  qed
qed

definition lsn_records :: "bytes list \<Rightarrow> wal_record list" where
  "lsn_records rs = zip (map word_of_nat [0..<length rs]) rs"

lemma encode_records_log:
  assumes "encode_records rs = Inr bs" "length bs < usize_limit"
  shows "bs = log_bytes (lsn_records rs)" "wf_log 0 (lsn_records rs)"
proof -
  show bs: "bs = log_bytes (lsn_records rs)"
    using encode_records_from_ok [OF assms(1) [unfolded encode_records_def]]
    by (simp add: lsn_records_def)
  have "sizes_ok (lsn_records rs)"
    using encode_records_from_ok [OF assms(1) [unfolded encode_records_def]]
    by (auto simp: sizes_ok_def lsn_records_def list_all_iff dest!: set_zip_rightD)
  moreover have "16 * length rs < 2 ^ 64"
    using log_bytes_length [of "lsn_records rs"] bs assms(2)
    by (simp add: lsn_records_def usize_limit_def)
  then have "lsn_seq (lsn_records rs)" by (simp add: lsn_seq_def lsn_records_def)
  ultimately show "wf_log 0 (lsn_records rs)" using bs assms(2) by (intro wf_log_of_inv) auto
qed

lemma length_lsn_records [simp]: "length (lsn_records rs) = length rs"
  by (simp add: lsn_records_def)

lemma snd_lsn_records: "i < length rs \<Longrightarrow> snd (lsn_records rs ! i) = rs ! i"
  by (simp add: lsn_records_def)

lemma encode_records_from_take:
  "encode_records_from n rs = Inr bs \<Longrightarrow> \<exists>bs'. encode_records_from n (take m rs) = Inr bs'"
proof (induction n rs arbitrary: m bs rule: encode_records_from.induct)
  case (1 i)
  then show ?case by simp
next
  case (2 i r rs)
  then show ?case by (cases m) (fastforce simp: result_simps)+
qed

lemma lsn_records_take: "m \<le> length rs \<Longrightarrow> lsn_records (take m rs) = take m (lsn_records rs)"
  by (simp add: lsn_records_def take_zip take_map)

lemma encode_records_take:
  assumes "encode_records rs = Inr bs" "m \<le> length rs"
  shows "encode_records (take m rs) = Inr (log_bytes (take m (lsn_records rs)))"
proof -
  obtain bs' where bs': "encode_records_from 0 (take m rs) = Inr bs'"
    using encode_records_from_take [OF assms(1) [unfolded encode_records_def]] by blast
  with encode_records_from_ok [OF bs'] lsn_records_take [OF assms(2)] assms(2) show ?thesis
    by (simp add: encode_records_def lsn_records_def)
qed

text \<open>
  Encoding a list of records and parsing the bytes gives the records back, each with its
  LSN, and all the bytes are valid.
\<close>

lemma encode_parse_roundtrip:
  assumes "encode_records rs = Inr bs" "length bs < usize_limit"
  shows "parse_wal bs = Inr \<lparr>pw_records = zip (map word_of_nat [0..<length rs]) rs,
    pw_valid_bytes = length bs\<rparr>"
  using parse_log_bytes [OF encode_records_log(2) [OF assms], of "length bs"]
    encode_records_log(1) [OF assms] assms(2) whole_records_all [of "lsn_records rs" "length bs"]
  by (simp add: lsn_records_def)

text \<open>
  C7. A log that lost its tail at any byte \<open>k\<close> (a torn write, a crash) still parses:
  the parser returns the records whose frames are complete, says how many bytes they
  take, and drops no complete record.
\<close>

theorem parse_torn_tail:
  assumes "encode_records rs = Inr bs" "length bs < usize_limit" "k \<le> length bs"
  shows "\<exists>m p. parse_wal (take k bs) = Inr p \<and> m \<le> length rs \<and>
    pw_records p = take m (zip (map word_of_nat [0..<length rs]) rs) \<and>
    encode_records (take m rs) = Inr (take (pw_valid_bytes p) bs) \<and> pw_valid_bytes p \<le> k \<and>
    (m < length rs \<longrightarrow> k < pw_valid_bytes p + WAL_HEADER_SIZE + length (rs ! m))"
proof -
  obtain m where m: "m \<le> length rs" "whole_records k (lsn_records rs) = take m (lsn_records rs)"
    "m < length rs \<longrightarrow>
       k < length (log_bytes (take m (lsn_records rs))) + WAL_HEADER_SIZE + length (rs ! m)"
    using take_whole_records [of "lsn_records rs" k] by (auto simp: snd_lsn_records)
  let ?ws = "take m (lsn_records rs)"
  have p: "parse_wal (take k bs) = Inr \<lparr>pw_records = ?ws, pw_valid_bytes = length (log_bytes ?ws)\<rparr>"
    using parse_log_bytes [OF encode_records_log(2) [OF assms(1,2)], of k]
      encode_records_log(1) [OF assms(1,2)] assms(2) m(2) by simp
  have tk: "length (log_bytes ?ws) \<le> k" "take (length (log_bytes ?ws)) bs = log_bytes ?ws"
    using take_log_whole [of k "lsn_records rs"] m(2) encode_records_log(1) [OF assms(1,2)] by auto
  have "encode_records (take m rs) = Inr (log_bytes ?ws)"
    by (rule encode_records_take [OF assms(1) m(1)])
  with p tk m show ?thesis by (intro exI [of _ m]) (auto simp: lsn_records_def)
qed

theorem parse_torn_tail_witness:
  "encode_records [[7], [8, 9]] = Inr (wal_frame 0 [7] @ wal_frame 1 [8, 9]) \<and>
   (\<exists>m p. parse_wal (take 30 (wal_frame 0 [7] @ wal_frame 1 [8, 9])) = Inr p \<and> m \<le> Suc (Suc 0) \<and>
      pw_records p = take m [(0, [7]), (1, [8, 9])] \<and> pw_valid_bytes p \<le> 30)"
proof -
  have e: "encode_records [[7], [8, 9]] = Inr (wal_frame 0 [7] @ wal_frame 1 [8, 9])"
    by (simp add: encode_records_def validate_record_size_def u32_try_from_def wal_frame_def wal_consts)
  from parse_torn_tail [OF e, of 30] e show ?thesis
    by (simp add: wal_consts usize_limit_def) blast
qed

text \<open>
  C35. The parser accepts nothing but a log: whatever bytes it is given, the part it
  declares valid is the image of the records it returns, their LSNs count up from 0
  and no record exceeds the size limit.
\<close>

theorem parse_wal_sound:
  assumes "parse_wal bs = Inr p"
  shows "pw_valid_bytes p \<le> length bs \<and>
    take (pw_valid_bytes p) bs = concat (map (\<lambda>(l, r). wal_frame l r) (pw_records p)) \<and>
    map fst (pw_records p) = map word_of_nat [0..<length (pw_records p)] \<and>
    (\<forall>(l, r) \<in> set (pw_records p). length r \<le> MAX_WAL_RECORD_SIZE)"
  using parse_sound [OF assms [unfolded parse_wal_def]]
  by (auto simp: subslice_zero log_bytes_def wf_log_iff sizes_ok_def)

theorem parse_wal_sound_witness:
  "parse_wal (wal_frame 0 [7] @ [0x54]) = Inr \<lparr>pw_records = [(0, [7])], pw_valid_bytes = 17\<rparr> \<and>
   take 17 (wal_frame 0 [7] @ [0x54]) = wal_frame 0 [7]"
proof -
  have p: "parse_wal (wal_frame 0 [7] @ [0x54]) =
      Inr \<lparr>pw_records = [(0, [7])], pw_valid_bytes = 17\<rparr>"
    using parse_prefix [of 0 "[(0, [7]), (1, [])]" "[]" 18 "[]"]
    by (simp add: parse_wal_def wal_frame_def wal_consts usize_limit_def)
  from p parse_wal_sound [OF p] show ?thesis by simp
qed


lemma whole_records_append:
  "length (log_bytes xs) \<le> k \<Longrightarrow>
     whole_records k (xs @ ys) = xs @ whole_records (k - length (log_bytes xs)) ys"
  by (induction k xs rule: whole_records.induct) (auto simp: add.assoc)

lemma whole_records_snoc:
  assumes "length (log_bytes xs) \<le> k"
  shows "whole_records k (xs @ [x]) = xs \<or> whole_records k (xs @ [x]) = xs @ [x]"
  using whole_records_append [OF assms, of "[x]"] by (cases x) simp

text \<open>
  C6. Crash recovery.  Take a log whose file is in step with its records, cut the
  file at any byte and open it again: the records with complete frames are recovered,
  in order, and the opened log is again in step with its (truncated) file.
\<close>

theorem file_wal_crash_recovery:
  assumes "file_inv w" "durable w" "length (file_bytes (fw_file w)) < usize_limit"
    and "k \<le> length (file_bytes (fw_file w))"
  shows "\<exists>f' w' m. file_open \<lparr>file_bytes = take k (file_bytes (fw_file w)), file_faults = []\<rparr> = (f', Inr w') \<and>
    file_inv w' \<and> durable w' \<and> fw_file w' = f' \<and>
    m \<le> length (fw_records w) \<and> fw_records w' = take m (fw_records w) \<and>
    (m < length (fw_records w) \<longrightarrow>
       k < length (file_bytes f') + WAL_HEADER_SIZE + length (snd (fw_records w ! m)))"
proof -
  let ?rs = "fw_records w"
  have fb: "file_bytes (fw_file w) = log_bytes ?rs" using assms(2) by (simp add: durable_def)
  have wf: "wf_log 0 ?rs" using assms(1,3) fb by (intro wf_log_of_inv) (auto simp: file_inv_def)
  obtain f' w' where w': "file_open \<lparr>file_bytes = take k (log_bytes ?rs), file_faults = []\<rparr> = (f', Inr w')"
    "fw_records w' = whole_records k ?rs" "file_inv w'" "durable w'" "fw_file w' = f'"
    using file_open_crash [OF wf, of k] assms(3,4) unfolding fb by blast
  obtain m where "m \<le> length ?rs" "whole_records k ?rs = take m ?rs"
    "m < length ?rs \<longrightarrow> k < length (log_bytes (take m ?rs)) + WAL_HEADER_SIZE + length (snd (?rs ! m))"
    using take_whole_records [of ?rs k] by blast
  with w' fb show ?thesis
    by (intro exI [of _ f'] exI [of _ w'] exI [of _ m]) (auto simp: durable_def)
qed

theorem file_wal_crash_recovery_witness:
  "\<exists>f' w' m. file_open \<lparr>file_bytes = take 20 (wal_frame 0 [7] @ wal_frame 1 [8]), file_faults = []\<rparr> = (f', Inr w') \<and>
    file_inv w' \<and> durable w' \<and> m \<le> Suc (Suc 0) \<and> fw_records w' = take m [(0, [7]), (1, [8])]"
proof -
  let ?w = "\<lparr>fw_file = \<lparr>file_bytes = wal_frame 0 [7] @ wal_frame 1 [8], file_faults = []\<rparr>,
    fw_records = [(0, [7]), (1, [8])], fw_last_lsn = Some 1\<rparr>"
  have "file_inv ?w" "durable ?w"
    by (simp_all add: file_inv_def durable_def lsn_seq_def sizes_ok_def last_lsn_of_def wal_consts)
  from file_wal_crash_recovery [OF this, of 20] show ?thesis
    by (simp add: wal_consts usize_limit_def) blast
qed

text \<open>
  C11. An append that returns has added the record: it returns the next LSN, the records
  and the file are extended by the record at that LSN and stay in step.  An append that fails
  leaves the records alone, and opening the file afterwards gives back exactly the records
  that were there before, or those and the new one when the whole frame had reached the file.
\<close>

theorem file_append_then_reopen:
  assumes "file_inv w" "durable w" "file_append w r = (w', res)"
    and "length (file_bytes (fw_file w)) + WAL_HEADER_SIZE + length r < usize_limit"
  shows "(\<forall>lsn. res = Inr lsn \<longrightarrow>
       lsn = word_of_nat (length (fw_records w)) \<and> file_inv w' \<and> durable w' \<and>
       fw_records w' = fw_records w @ [(lsn, r)] \<and>
       file_bytes (fw_file w') = file_bytes (fw_file w) @ wal_frame lsn r) \<and>
    (\<forall>e. res = Inl e \<longrightarrow> fw_records w' = fw_records w \<and>
       (\<exists>f'' w''. file_open \<lparr>file_bytes = file_bytes (fw_file w'), file_faults = []\<rparr> = (f'', Inr w'') \<and>
          durable w'' \<and>
          (fw_records w'' = fw_records w \<or>
           fw_records w'' = fw_records w @ [(word_of_nat (length (fw_records w)), r)])))"
proof -
  let ?rs = "fw_records w" and ?l = "word_of_nat (length (fw_records w)) :: u64"
  let ?rs' = "?rs @ [(?l, r)]"
  have fb: "file_bytes (fw_file w) = log_bytes ?rs" using assms(2) by (simp add: durable_def)
  have reopen: "\<exists>f'' w''. file_open \<lparr>file_bytes = take k (log_bytes rs), file_faults = []\<rparr> = (f'', Inr w'') \<and>
      durable w'' \<and> fw_records w'' = whole_records k rs"
    if "lsn_seq rs" "sizes_ok rs" "length (log_bytes rs) < usize_limit" "k \<le> length (log_bytes rs)" for rs k
    using file_open_crash [OF wf_log_of_inv [OF that(1-3)] that(3,4)] by blast
  have seq: "lsn_seq ?rs" "sizes_ok ?rs" using assms(1) by (simp_all add: file_inv_def)
  have lim: "length (log_bytes ?rs) < usize_limit" "length (log_bytes ?rs') < usize_limit"
    using assms(4) fb by simp_all
  from file_append_cases [OF assms(1,3)] show ?thesis
  proof (elim disjE exE conjE)
    fix e assume "res = Inl e" "w' = w"
    with reopen [OF seq lim(1), of "length (log_bytes ?rs)"] fb show ?thesis
      by (auto simp: whole_records_all)
  next
    fix k assume k: "res = Inl Io" "length r \<le> MAX_WAL_RECORD_SIZE" "length ?rs < 2 ^ 64"
      "fw_records w' = ?rs"
      "file_bytes (fw_file w') = file_bytes (fw_file w) @ take k (wal_frame ?l r)"
    let ?k = "min (length (log_bytes ?rs) + k) (length (log_bytes ?rs'))"
    have "file_bytes (fw_file w') = take ?k (log_bytes ?rs')"
      using k(5) fb by (auto simp: min_def)
    moreover obtain f'' w'' where
      "file_open \<lparr>file_bytes = take ?k (log_bytes ?rs'), file_faults = []\<rparr> = (f'', Inr w'')"
      "durable w''" "fw_records w'' = whole_records ?k ?rs'"
      using reopen [of ?rs' ?k] k(2,3) lsn_seq_snoc [OF seq(1) k(3)] seq(2) lim(2) by auto
    moreover have "whole_records ?k ?rs' = ?rs \<or> whole_records ?k ?rs' = ?rs'"
      by (rule whole_records_snoc) simp
    ultimately show ?thesis using k(1,4) by auto
  next
    assume a: "res = Inr ?l" "file_inv w'" "fw_records w' = ?rs'"
      "file_bytes (fw_file w') = file_bytes (fw_file w) @ wal_frame ?l r"
    then have "durable w'" using fb by (simp add: durable_def)
    with a show ?thesis by simp
  qed
qed


theorem file_append_then_reopen_witness:
  "\<exists>w'. file_append \<lparr>fw_file = \<lparr>file_bytes = [], file_faults = [None, Some 3]\<rparr>, fw_records = [],
      fw_last_lsn = None\<rparr> [7] = (w', Inl Io) \<and> fw_records w' = [] \<and>
     (\<exists>f'' w''. file_open \<lparr>file_bytes = file_bytes (fw_file w'), file_faults = []\<rparr> = (f'', Inr w'') \<and>
        durable w'')"
proof -
  let ?w = "\<lparr>fw_file = \<lparr>file_bytes = [], file_faults = [None, Some 3]\<rparr>, fw_records = [],
    fw_last_lsn = None\<rparr>"
  obtain w' res where a: "file_append ?w [7] = (w', res)" by fastforce
  have res: "res = Inl Io" using a
    by (simp add: file_append_def validate_record_size_def next_lsn_def u32_try_from_def
        seek_def write_all_def pop_fault_def wal_consts)
  have "file_inv ?w" "durable ?w"
    by (simp_all add: file_inv_def durable_def lsn_seq_def sizes_ok_def last_lsn_of_def)
  from file_append_then_reopen [OF this a] a res show ?thesis
    by (auto simp: wal_consts usize_limit_def)
qed








section \<open>The \<open>Wal\<close> trait\<close>

text \<open>
  The trait of \<open>src/transaction/mod.rs\<close> is a record of its four operations; the two
  implementations are values of it.  What a client may rely on is the locale
  \<open>wal_contract\<close>: the operations act on a list of records, an append that succeeds
  adds one record at the next LSN, every other outcome leaves the list alone.
  \<open>reliable_wal\<close> adds that the log does not fail below the LSN limit.
\<close>

record 'w wal_impl =
  wal_append :: "'w \<Rightarrow> bytes \<Rightarrow> 'w \<times> (transaction_error, u64) result"
  wal_sync :: "'w \<Rightarrow> 'w \<times> (transaction_error, unit) result"
  wal_current_lsn :: "'w \<Rightarrow> u64"
  wal_next_transaction_id :: "'w \<Rightarrow> u64"

definition MemoryWal :: "memory_wal wal_impl" where
  "MemoryWal = \<lparr>wal_append = memory_append, wal_sync = memory_sync,
     wal_current_lsn = memory_current_lsn, wal_next_transaction_id = memory_next_transaction_id\<rparr>"

definition FileWal :: "file_wal wal_impl" where
  "FileWal = \<lparr>wal_append = file_append, wal_sync = file_sync,
     wal_current_lsn = file_current_lsn, wal_next_transaction_id = file_next_transaction_id\<rparr>"

locale wal_contract =
  fixes W :: "'w wal_impl" and recs :: "'w \<Rightarrow> wal_record list" and inv :: "'w \<Rightarrow> bool"
  assumes append_Inr: "inv w \<Longrightarrow> wal_append W w r = (w', Inr l) \<Longrightarrow>
      inv w' \<and> l = word_of_nat (length (recs w)) \<and> recs w' = recs w @ [(l, r)]"
    and append_Inl: "inv w \<Longrightarrow> wal_append W w r = (w', Inl e) \<Longrightarrow> inv w' \<and> recs w' = recs w"
    and sync_keeps: "inv w \<Longrightarrow> wal_sync W w = (w', s) \<Longrightarrow> inv w' \<and> recs w' = recs w"
    and next_id: "inv w \<Longrightarrow> wal_next_transaction_id W w = next_transaction_id_after_records (recs w)"
    and current: "inv w \<Longrightarrow>
      wal_current_lsn W w = (case last_lsn_of (recs w) of None \<Rightarrow> 0 | Some l \<Rightarrow> l)"

locale reliable_wal = wal_contract W recs inv
  for W :: "'w wal_impl" and recs :: "'w \<Rightarrow> wal_record list" and inv :: "'w \<Rightarrow> bool" +
  assumes append_succeeds: "inv w \<Longrightarrow> length r \<le> MAX_WAL_RECORD_SIZE \<Longrightarrow>
      length (recs w) < 2 ^ 64 \<Longrightarrow> \<exists>w' l. wal_append W w r = (w', Inr l)"
    and sync_succeeds: "inv w \<Longrightarrow> \<exists>w'. wal_sync W w = (w', Inr ())"

lemma file_sync_keeps:
  "file_sync w = (w', s) \<Longrightarrow> fw_records w' = fw_records w \<and> fw_last_lsn w' = fw_last_lsn w"
  by (auto simp: file_sync_def split: prod.splits)

interpretation memw: reliable_wal MemoryWal mw_records memory_inv
proof
  fix w r w' l assume "memory_inv w" "wal_append MemoryWal w r = (w', Inr l)"
  then show "memory_inv w' \<and> l = word_of_nat (length (mw_records w)) \<and>
      mw_records w' = mw_records w @ [(l, r)]"
    using memory_append_cases by (fastforce simp: MemoryWal_def)
next
  fix w r w' e assume "memory_inv w" "wal_append MemoryWal w r = (w', Inl e)"
  then show "memory_inv w' \<and> mw_records w' = mw_records w"
    using memory_append_cases by (fastforce simp: MemoryWal_def)
next
  fix w and r :: bytes assume "memory_inv w" "length r \<le> MAX_WAL_RECORD_SIZE" "length (mw_records w) < 2 ^ 64"
  then show "\<exists>w' l. wal_append MemoryWal w r = (w', Inr l)"
    using memory_append_ok by (simp add: MemoryWal_def)
qed (auto simp: MemoryWal_def memory_sync_def memory_inv_def memory_next_transaction_id_def
    memory_current_lsn_def)

interpretation filew: wal_contract FileWal fw_records file_inv
proof
  fix w r w' l assume "file_inv w" "wal_append FileWal w r = (w', Inr l)"
  then show "file_inv w' \<and> l = word_of_nat (length (fw_records w)) \<and>
      fw_records w' = fw_records w @ [(l, r)]"
    using file_append_cases [of w r w' "Inr l"] by (auto simp: FileWal_def)
next
  fix w r w' e assume "file_inv w" "wal_append FileWal w r = (w', Inl e)"
  then show "file_inv w' \<and> fw_records w' = fw_records w"
    using file_append_cases [of w r w' "Inl e"] by (auto simp: FileWal_def file_inv_def)
next
  fix w w' s assume "file_inv w" "wal_sync FileWal w = (w', s)"
  then show "file_inv w' \<and> fw_records w' = fw_records w"
    using file_sync_keeps [of w w' s] by (auto simp: FileWal_def file_inv_def)
qed (auto simp: FileWal_def file_inv_def file_next_transaction_id_def file_current_lsn_def)

definition file_reliable_inv :: "file_wal \<Rightarrow> bool" where
  "file_reliable_inv w \<longleftrightarrow> file_inv w \<and> file_faults (fw_file w) = []"

lemma file_append_no_faults:
  assumes "file_reliable_inv w" "length r \<le> MAX_WAL_RECORD_SIZE" "length (fw_records w) < 2 ^ 64"
  shows "\<exists>w' l. file_append w r = (w', Inr l)"
  using assms max_record_u32 [of r]
  by (simp add: file_reliable_inv_def file_inv_def file_append_def validate_record_size_def
      next_lsn_seq u32_try_from_def seek_no_faults write_all_no_faults)

lemma file_append_faults:
  "file_append w r = (w', res) \<Longrightarrow> file_faults (fw_file w) = [] \<Longrightarrow> file_faults (fw_file w') = []"
  by (auto simp: file_append_def seek_no_faults write_all_no_faults split: sum.splits prod.splits)

interpretation rfilew: reliable_wal FileWal fw_records file_reliable_inv
proof
  fix w r w' l assume "file_reliable_inv w" "wal_append FileWal w r = (w', Inr l)"
  then show "file_reliable_inv w' \<and> l = word_of_nat (length (fw_records w)) \<and>
      fw_records w' = fw_records w @ [(l, r)]"
    using filew.append_Inr [of w r w' l] file_append_faults [of w r w']
    by (auto simp: FileWal_def file_reliable_inv_def)
next
  fix w r w' e assume "file_reliable_inv w" "wal_append FileWal w r = (w', Inl e)"
  then show "file_reliable_inv w' \<and> fw_records w' = fw_records w"
    using filew.append_Inl [of w r w' e] file_append_faults [of w r w']
    by (auto simp: FileWal_def file_reliable_inv_def)
next
  fix w w' s assume "file_reliable_inv w" "wal_sync FileWal w = (w', s)"
  then show "file_reliable_inv w' \<and> fw_records w' = fw_records w"
    using filew.sync_keeps [of w w' s]
    by (auto simp: FileWal_def file_reliable_inv_def file_sync_def sync_all_def pop_fault_def)
next
  fix w and r :: bytes assume "file_reliable_inv w" "length r \<le> MAX_WAL_RECORD_SIZE" "length (fw_records w) < 2 ^ 64"
  then show "\<exists>w' l. wal_append FileWal w r = (w', Inr l)"
    using file_append_no_faults by (simp add: FileWal_def)
next
  fix w assume "file_reliable_inv w"
  then show "\<exists>w'. wal_sync FileWal w = (w', Inr ())"
    by (simp add: FileWal_def file_reliable_inv_def file_sync_def sync_all_def pop_fault_def)
qed (auto simp: file_reliable_inv_def filew.next_id filew.current)


end
