(* ===== verification/Transactions.thy ===== *)
theory Transactions
  imports Wal_Log
begin

text \<open>
  The transaction manager of \<^verbatim>\<open>src/src/transaction/mod.rs\<close>: it hands out transaction
  ids, keeps the table of open transactions and writes one commit or rollback record
  per finished transaction to a write-ahead log.  The Rust code is generic in the
  log (\<open>trait Wal\<close>); here the operations take the log's record of operations
  \<open>wal_impl\<close>, the lemmas are proved once for every log that satisfies
  \<open>wal_contract\<close> or \<open>reliable_wal\<close>, and the properties are read off for the file log
  and the memory log.
\<close>

section \<open>Transactions\<close>

record snapshot =
  snap_lsn :: u64

record transaction =
  tx_id :: u64
  tx_snapshot :: snapshot

record 'w transaction_manager =
  tm_wal :: 'w
  tm_current_lsn :: u64
  tm_next_transaction_id :: u64
  tm_active :: "u64 \<rightharpoonup> transaction"

definition transaction_record :: "u8 \<Rightarrow> transaction \<Rightarrow> bytes" where
  "transaction_record marker t =
     marker # u64_to_le (tx_id t) @ u64_to_le (snap_lsn (tx_snapshot t))"

definition tm_new :: "'w wal_impl \<Rightarrow> 'w \<Rightarrow> 'w transaction_manager" where
  "tm_new W w = \<lparr>tm_wal = w, tm_current_lsn = wal_current_lsn W w,
     tm_next_transaction_id = wal_next_transaction_id W w, tm_active = Map.empty\<rparr>"

definition tm_finish ::
  "'w wal_impl \<Rightarrow> 'w transaction_manager \<Rightarrow> transaction \<Rightarrow> u8 \<Rightarrow>
     'w transaction_manager \<times> (transaction_error, u64) result" where
  "tm_finish W m t marker =
     (if tm_active m (tx_id t) \<noteq> Some t then (m, Inl Transaction_not_active)
      else
        (case wal_append W (tm_wal m) (transaction_record marker t) of
           (w, Inl e) \<Rightarrow> (m\<lparr>tm_wal := w\<rparr>, Inl e)
         | (w, Inr lsn) \<Rightarrow>
             (case wal_sync W w of
                (w', Inl e) \<Rightarrow> (m\<lparr>tm_wal := w'\<rparr>, Inl e)
              | (w', Inr _) \<Rightarrow>
                  (m\<lparr>tm_wal := w', tm_active := (tm_active m)(tx_id t := None),
                     tm_current_lsn := lsn\<rparr>, Inr lsn))))"

definition tm_begin ::
  "'w transaction_manager \<Rightarrow> 'w transaction_manager \<times> (transaction_error, transaction) result" where
  "tm_begin m =
     (case checked_add_u64 (tm_next_transaction_id m) 1 of
        None \<Rightarrow> (m, Inl Transaction_id_overflows)
      | Some n \<Rightarrow>
          let i = tm_next_transaction_id m;
              t = \<lparr>tx_id = i, tx_snapshot = \<lparr>snap_lsn = tm_current_lsn m\<rparr>\<rparr>
          in (m\<lparr>tm_next_transaction_id := n, tm_active := (tm_active m)(i \<mapsto> t)\<rparr>, Inr t))"

definition tm_commit ::
  "'w wal_impl \<Rightarrow> 'w transaction_manager \<Rightarrow> transaction \<Rightarrow>
     'w transaction_manager \<times> (transaction_error, u64) result" where
  "tm_commit W m t = tm_finish W m t 0x43"

definition tm_rollback ::
  "'w wal_impl \<Rightarrow> 'w transaction_manager \<Rightarrow> transaction \<Rightarrow>
     'w transaction_manager \<times> (transaction_error, unit) result" where
  "tm_rollback W m t = (case tm_finish W m t 0x52 of (m', r) \<Rightarrow> (m', map_sum id (\<lambda>_. ()) r))"

definition tm_snapshot :: "'w transaction_manager \<Rightarrow> snapshot" where
  "tm_snapshot m = \<lparr>snap_lsn = tm_current_lsn m\<rparr>"

section \<open>Runs of a manager\<close>

inductive tm_step :: "'w wal_impl \<Rightarrow> 'w transaction_manager \<Rightarrow> 'w transaction_manager \<Rightarrow> bool"
  for W where
  step_begin: "tm_begin m = (m', r) \<Longrightarrow> tm_step W m m'"
| step_commit: "tm_commit W m t = (m', r) \<Longrightarrow> tm_step W m m'"
| step_rollback: "tm_rollback W m t = (m', r) \<Longrightarrow> tm_step W m m'"

inductive tm_reachable :: "'w wal_impl \<Rightarrow> 'w \<Rightarrow> 'w transaction_manager \<Rightarrow> bool"
  for W w where
  reach_new: "tm_reachable W w (tm_new W w)"
| reach_step: "tm_reachable W w m \<Longrightarrow> tm_step W m m' \<Longrightarrow> tm_reachable W w m'"

inductive_cases tm_stepE: "tm_step W m m'"

subsection \<open>What the invariants speak about\<close>

text \<open>
  The ids whose commit or rollback record is in the log; that a number is above all of
  them (or the counter is saturated, after which \<open>begin\<close> fails); and that the table of
  open transactions is keyed by id with every id below the counter.
\<close>

definition finished_ids :: "wal_record list \<Rightarrow> u64 list" where
  "finished_ids rs = List.map_filter (\<lambda>(_, r). transaction_id_from_record r) rs"

definition ids_below :: "u64 \<Rightarrow> u64 list \<Rightarrow> bool" where
  "ids_below n is \<longleftrightarrow> (\<forall>i \<in> set is. i < n) \<or> n = - 1"

definition active_ok :: "'w transaction_manager \<Rightarrow> bool" where
  "active_ok m \<longleftrightarrow> (\<forall>i t. tm_active m i = Some t \<longrightarrow> tx_id t = i \<and> i < tm_next_transaction_id m)"

section \<open>Lemmas on the operations\<close>

lemma finished_ids_simps [simp]:
  "finished_ids [] = []"
  "finished_ids (xs @ ys) = finished_ids xs @ finished_ids ys"
  by (simp_all add: finished_ids_def List.map_filter_def)

lemma transaction_id_from_record_finish [simp]:
  assumes "marker = 0x43 \<or> marker = 0x52"
  shows "transaction_id_from_record (transaction_record marker t) = Some (tx_id t)"
  using assms by (auto simp: transaction_id_from_record_def transaction_record_def subslice_def)

lemma finished_ids_record [simp]:
  assumes "marker = 0x43 \<or> marker = 0x52"
  shows "finished_ids [(l, transaction_record marker t)] = [tx_id t]"
  using assms by (auto simp: finished_ids_def List.map_filter_def)

lemma max_u64_Some: "xs \<noteq> [] \<Longrightarrow> max_u64 xs = Some (Max (set xs))"
proof (induction xs)
  case Nil
  then show ?case by simp
next
  case (Cons x xs)
  then show ?case by (cases xs) auto
qed

lemma next_id_after_records:
  assumes "i \<in> set (finished_ids rs)"
  shows "i < next_transaction_id_after_records rs \<or> next_transaction_id_after_records rs = - 1"
proof -
  let ?m = "Max (set (finished_ids rs))"
  have m: "max_u64 (finished_ids rs) = Some ?m" using assms by (intro max_u64_Some) auto
  then have n: "next_transaction_id_after_records rs = saturating_add_u64 ?m 1"
    by (simp add: next_transaction_id_after_records_def finished_ids_def)
  have "i \<le> ?m" using assms by simp
  moreover have "?m < ?m + 1" if "unat ?m + 1 < 2 ^ 64"
    using that by (simp add: word_less_nat_alt unat_word_ariths)
  ultimately show ?thesis by (auto simp: n saturating_add_u64_def)
qed

lemma checked_succ_less: "checked_add_u64 n 1 = Some n' \<Longrightarrow> n < n' \<and> n \<noteq> - 1"
proof -
  assume a: "checked_add_u64 n 1 = Some n'"
  have n': "unat n' = unat n + 1" using checked_add_u64_Some [OF a] by simp
  then have "n < n'" by (simp add: word_less_nat_alt)
  moreover have "n' \<le> - 1" by (rule word_n1_ge)
  ultimately show ?thesis by force
qed

lemma tm_begin_cases:
  assumes "tm_begin m = (m', r)"
  shows "(r = Inl Transaction_id_overflows \<and> m' = m) \<or>
    (\<exists>n t. checked_add_u64 (tm_next_transaction_id m) 1 = Some n \<and> r = Inr t \<and>
       tx_id t = tm_next_transaction_id m \<and> snap_lsn (tx_snapshot t) = tm_current_lsn m \<and>
       tm_wal m' = tm_wal m \<and> tm_current_lsn m' = tm_current_lsn m \<and>
       tm_next_transaction_id m' = n \<and>
       tm_active m' = (tm_active m)(tm_next_transaction_id m \<mapsto> t))"
  using assms by (auto simp: tm_begin_def Let_def split: option.splits)

lemma tm_begin_keeps_wal: "tm_begin m = (m', r) \<Longrightarrow> tm_wal m' = tm_wal m"
  using tm_begin_cases by blast

lemma tm_begin_next_mono:
  "tm_begin m = (m', r) \<Longrightarrow> tm_next_transaction_id m \<le> tm_next_transaction_id m'"
  using tm_begin_cases [of m m' r] checked_succ_less by (metis order.refl order.strict_implies_order)

lemma tm_begin_active_ok:
  assumes b: "tm_begin m = (m', r)" and ok: "active_ok m"
  shows "active_ok m'"
  unfolding active_ok_def
proof (intro allI impI)
  fix i t assume t: "tm_active m' i = Some t"
  show "tx_id t = i \<and> i < tm_next_transaction_id m'"
  proof (cases "tm_active m i = Some t")
    case True
    then have "tx_id t = i" "i < tm_next_transaction_id m" using ok by (auto simp: active_ok_def)
    with tm_begin_next_mono [OF b] show ?thesis by (metis order.strict_trans2)
  next
    case False
    with tm_begin_cases [OF b] t show ?thesis
      by (auto split: if_splits dest: checked_succ_less)
  qed
qed

lemma tm_begin_ids_below:
  assumes "tm_begin m = (m', r)" "ids_below (tm_next_transaction_id m) is"
  shows "ids_below (tm_next_transaction_id m') is"
proof (cases "tm_next_transaction_id m = - 1")
  case True
  then have "tm_next_transaction_id m' = - 1"
    using tm_begin_next_mono [OF assms(1)] word_n1_ge [of "tm_next_transaction_id m'"] by simp
  then show ?thesis by (simp add: ids_below_def)
next
  case False
  with assms(2) tm_begin_next_mono [OF assms(1)] show ?thesis
    unfolding ids_below_def by (blast intro: order.strict_trans2)
qed

section \<open>The manager over any log\<close>

context wal_contract
begin

definition finish_outcome :: "'w transaction_manager \<Rightarrow> transaction \<Rightarrow> u8 \<Rightarrow>
    'w transaction_manager \<Rightarrow> (transaction_error, u64) result \<Rightarrow> bool" where
  "finish_outcome m t marker m' r \<longleftrightarrow>
     tm_next_transaction_id m' = tm_next_transaction_id m \<and>
     (case r of
        Inl e \<Rightarrow> tm_active m' = tm_active m \<and> tm_current_lsn m' = tm_current_lsn m \<and>
          (recs (tm_wal m') = recs (tm_wal m) \<or>
           tm_active m (tx_id t) = Some t \<and>
           (\<exists>l. recs (tm_wal m') = recs (tm_wal m) @ [(l, transaction_record marker t)]))
      | Inr l \<Rightarrow> tm_active m (tx_id t) = Some t \<and>
          tm_active m' = (tm_active m)(tx_id t := None) \<and> tm_current_lsn m' = l \<and>
          l = word_of_nat (length (recs (tm_wal m))) \<and>
          recs (tm_wal m') = recs (tm_wal m) @ [(l, transaction_record marker t)])"

lemma tm_finish_outcome:
  assumes "inv (tm_wal m)" "tm_finish W m t marker = (m', r)"
  shows "inv (tm_wal m') \<and> finish_outcome m t marker m' r"
proof (cases "tm_active m (tx_id t) = Some t")
  case False
  with assms show ?thesis by (auto simp: tm_finish_def finish_outcome_def)
next
  case True
  obtain w1 r1 where a: "wal_append W (tm_wal m) (transaction_record marker t) = (w1, r1)" by fastforce
  show ?thesis
  proof (cases r1)
    case (Inl e)
    with append_Inl [OF assms(1)] a True assms show ?thesis
      by (auto simp: tm_finish_def finish_outcome_def)
  next
    case (Inr l)
    with append_Inr [OF assms(1)] a have w1: "inv w1" "l = word_of_nat (length (recs (tm_wal m)))"
      "recs w1 = recs (tm_wal m) @ [(l, transaction_record marker t)]" by auto
    obtain w2 s where b: "wal_sync W w1 = (w2, s)" by fastforce
    with sync_keeps [OF w1(1) b] w1 a Inr True assms show ?thesis
      by (cases s) (auto simp: tm_finish_def finish_outcome_def)
  qed
qed

definition tm_inv :: "'w transaction_manager \<Rightarrow> bool" where
  "tm_inv m \<longleftrightarrow> inv (tm_wal m) \<and> active_ok m \<and>
     ids_below (tm_next_transaction_id m) (finished_ids (recs (tm_wal m)))"

lemma tm_inv_new: "inv w \<Longrightarrow> tm_inv (tm_new W w)"
  using next_id_after_records
  by (fastforce simp: tm_inv_def tm_new_def active_ok_def ids_below_def next_id)

lemma tm_inv_begin: "tm_begin m = (m', r) \<Longrightarrow> tm_inv m \<Longrightarrow> tm_inv m'"
  using tm_begin_keeps_wal [of m m' r] tm_begin_active_ok [of m m' r] tm_begin_ids_below [of m m' r]
  by (simp add: tm_inv_def)

lemma finish_outcome_ids:
  assumes "finish_outcome m t marker m' r" "marker = 0x43 \<or> marker = 0x52"
  shows "set (finished_ids (recs (tm_wal m'))) \<subseteq> set (finished_ids (recs (tm_wal m))) \<union>
    {i. tm_active m i = Some t \<and> i = tx_id t}"
  using assms by (cases r) (auto simp: finish_outcome_def)

lemma finish_outcome_active:
  "finish_outcome m t marker m' r \<Longrightarrow> tm_active m' i = Some u \<Longrightarrow> tm_active m i = Some u"
  by (cases r) (auto simp: finish_outcome_def split: if_splits)

lemma tm_inv_finish:
  assumes "tm_finish W m t marker = (m', r)" "tm_inv m" "marker = 0x43 \<or> marker = 0x52"
  shows "tm_inv m'"
proof -
  have o: "inv (tm_wal m')" "finish_outcome m t marker m' r"
    using tm_finish_outcome [OF _ assms(1)] assms(2) by (auto simp: tm_inv_def)
  have n: "tm_next_transaction_id m' = tm_next_transaction_id m"
    using o(2) by (simp add: finish_outcome_def)
  have a: "active_ok m" "ids_below (tm_next_transaction_id m) (finished_ids (recs (tm_wal m)))"
    using assms(2) by (auto simp: tm_inv_def)
  have "active_ok m'"
    using a(1) finish_outcome_active [OF o(2)] unfolding active_ok_def n by blast
  moreover have "ids_below (tm_next_transaction_id m') (finished_ids (recs (tm_wal m')))"
    using a finish_outcome_ids [OF o(2) assms(3)] unfolding active_ok_def ids_below_def n by blast
  ultimately show ?thesis using o(1) by (simp add: tm_inv_def)
qed

lemma tm_inv_step: "tm_step W m m' \<Longrightarrow> tm_inv m \<Longrightarrow> tm_inv m'"
  by (erule tm_stepE)
    (auto simp: tm_commit_def tm_rollback_def intro: tm_inv_begin tm_inv_finish split: prod.splits)

lemma tm_inv_reachable: "tm_reachable W w m \<Longrightarrow> inv w \<Longrightarrow> tm_inv m"
  by (induction rule: tm_reachable.induct) (auto intro: tm_inv_new tm_inv_step)

lemma fresh_id:
  assumes "tm_inv m" "tm_begin m = (m', Inr t)"
  shows "tx_id t \<notin> set (finished_ids (recs (tm_wal m))) \<and> tm_active m (tx_id t) = None \<and>
    tm_active m' (tx_id t) = Some t \<and> snap_lsn (tx_snapshot t) = tm_current_lsn m"
proof -
  obtain n where n: "checked_add_u64 (tm_next_transaction_id m) 1 = Some n"
    "tx_id t = tm_next_transaction_id m" "snap_lsn (tx_snapshot t) = tm_current_lsn m"
    "tm_active m' = (tm_active m)(tm_next_transaction_id m \<mapsto> t)"
    using tm_begin_cases [OF assms(2)] by auto
  then have "tm_next_transaction_id m \<noteq> - 1" using checked_succ_less by blast
  with assms(1) n show ?thesis
    by (cases "tm_active m (tm_next_transaction_id m)")
      (auto simp: tm_inv_def ids_below_def active_ok_def)
qed

end

section \<open>The manager over a log that does not fail\<close>

context reliable_wal
begin

definition once_inv :: "'w transaction_manager \<Rightarrow> bool" where
  "once_inv m \<longleftrightarrow> tm_inv m \<and> distinct (finished_ids (recs (tm_wal m))) \<and>
     (\<forall>i \<in> set (finished_ids (recs (tm_wal m))). tm_active m i = None)"

lemma reliable_finish:
  assumes "inv (tm_wal m)" "tm_finish W m t marker = (m', Inl e)"
  shows "recs (tm_wal m') = recs (tm_wal m) \<and> tm_active m' = tm_active m"
proof (cases "tm_active m (tx_id t) = Some t")
  case False
  with assms(2) show ?thesis by (simp add: tm_finish_def)
next
  case True
  obtain w1 r1 where a: "wal_append W (tm_wal m) (transaction_record marker t) = (w1, r1)" by fastforce
  show ?thesis
  proof (cases r1)
    case (Inl e')
    with append_Inl [OF assms(1) a [unfolded Inl]] a True assms(2) show ?thesis
      by (auto simp: tm_finish_def)
  next
    case (Inr l)
    then have "inv w1" using append_Inr [OF assms(1) a [unfolded Inr]] by simp
    then obtain w2 where "wal_sync W w1 = (w2, Inr ())" using sync_succeeds by blast
    with a Inr True assms(2) show ?thesis by (simp add: tm_finish_def)
  qed
qed

lemma once_inv_begin:
  assumes "tm_begin m = (m', r)" "once_inv m"
  shows "once_inv m'"
proof (cases r)
  case (Inl e)
  with tm_begin_cases [OF assms(1)] assms(2) show ?thesis by auto
next
  case (Inr t)
  have "tx_id t \<notin> set (finished_ids (recs (tm_wal m)))"
    using fresh_id assms Inr by (auto simp: once_inv_def)
  moreover have "tm_active m' = (tm_active m)(tx_id t \<mapsto> t)"
    using tm_begin_cases [OF assms(1)] Inr by auto
  ultimately show ?thesis
    using assms tm_inv_begin [OF assms(1)] tm_begin_keeps_wal [OF assms(1)]
    by (auto simp: once_inv_def)
qed

lemma once_inv_finish:
  assumes "tm_finish W m t marker = (m', r)" "once_inv m" "marker = 0x43 \<or> marker = 0x52"
  shows "once_inv m'"
proof -
  have i: "inv (tm_wal m)" "tm_inv m'"
    using assms tm_inv_finish by (auto simp: once_inv_def tm_inv_def)
  show ?thesis
  proof (cases r)
    case (Inl e)
    with reliable_finish i assms show ?thesis by (auto simp: once_inv_def)
  next
    case (Inr l)
    with tm_finish_outcome [OF i(1) assms(1)] assms(2,3) i show ?thesis
      by (auto simp: once_inv_def finish_outcome_def)
  qed
qed

lemma once_inv_step: "tm_step W m m' \<Longrightarrow> once_inv m \<Longrightarrow> once_inv m'"
  by (erule tm_stepE)
    (auto simp: tm_commit_def tm_rollback_def intro: once_inv_begin once_inv_finish split: prod.splits)

lemma once_inv_reachable:
  assumes "tm_reachable W w m" "inv w" "distinct (finished_ids (recs w))"
  shows "once_inv m"
  using assms
proof (induction rule: tm_reachable.induct)
  case reach_new
  then show ?case using tm_inv_new by (simp add: once_inv_def) (simp add: tm_new_def)
next
  case (reach_step m m')
  then show ?case using once_inv_step by blast
qed

lemma commit_active:
  assumes "inv (tm_wal m)" "tm_active m (tx_id t) = Some t" "length (recs (tm_wal m)) < 2 ^ 64"
  shows "\<exists>m' l. tm_commit W m t = (m', Inr l) \<and> tm_snapshot m' = \<lparr>snap_lsn = l\<rparr> \<and>
    l = word_of_nat (length (recs (tm_wal m))) \<and>
    recs (tm_wal m') = recs (tm_wal m) @ [(l, transaction_record 0x43 t)] \<and>
    tm_active m' = (tm_active m)(tx_id t := None) \<and>
    tm_commit W m' t = (m', Inl Transaction_not_active) \<and>
    tm_rollback W m' t = (m', Inl Transaction_not_active)"
proof -
  have "length (transaction_record 0x43 t) \<le> MAX_WAL_RECORD_SIZE"
    by (simp add: transaction_record_def wal_consts)
  with append_succeeds assms(1,3) obtain w1 l where
    a: "wal_append W (tm_wal m) (transaction_record 0x43 t) = (w1, Inr l)" by blast
  with append_Inr assms(1) sync_succeeds obtain w2 where b: "wal_sync W w1 = (w2, Inr ())" by blast
  obtain m' r where f: "tm_finish W m t 0x43 = (m', r)" by fastforce
  have r: "r = Inr l" and act: "tm_active m' = (tm_active m)(tx_id t := None)"
    using a b f assms(2) by (auto simp: tm_finish_def)
  have "finish_outcome m t 0x43 m' r" using tm_finish_outcome [OF assms(1) f] by blast
  with f r act show ?thesis
    by (auto simp: tm_commit_def tm_rollback_def tm_finish_def tm_snapshot_def finish_outcome_def)
qed

end

section \<open>Properties of the manager over the two logs\<close>

text \<open>
  C12. A new transaction never takes an id that is in use.  Whatever begins, commits and rollbacks a
  manager over a \<open>FileWal\<close> has been through since it was created on a log, and
  whatever I/O faults the file had, the next \<open>begin\<close> that succeeds hands out an id that
  no record of the log has finished and no open transaction holds, with the current
  LSN as its snapshot.
\<close>

theorem begin_gives_fresh_id:
  assumes "file_inv w" "tm_reachable FileWal w m" "tm_begin m = (m', Inr t)"
  shows "tx_id t \<notin> set (finished_ids (fw_records (tm_wal m))) \<and> tm_active m (tx_id t) = None \<and>
    tm_active m' (tx_id t) = Some t \<and> snap_lsn (tx_snapshot t) = tm_current_lsn m"
  using filew.fresh_id [OF filew.tm_inv_reachable [OF assms(2,1)] assms(3)] .

theorem begin_gives_fresh_id_witness:
  "\<exists>w m m' t. tm_reachable FileWal w m \<and> tm_begin m = (m', Inr t) \<and>
     finished_ids (fw_records (tm_wal m)) = [4] \<and> tx_id t = 5 \<and>
     tx_id t \<notin> set (finished_ids (fw_records (tm_wal m)))"
proof -
  let ?r = "transaction_record 0x52 \<lparr>tx_id = 4, tx_snapshot = \<lparr>snap_lsn = 0\<rparr>\<rparr>"
  let ?w = "\<lparr>fw_file = \<lparr>file_bytes = wal_frame 0 ?r, file_faults = []\<rparr>,
    fw_records = [(0, ?r)], fw_last_lsn = Some 0\<rparr>"
  let ?m = "tm_new FileWal ?w"
  have inv: "file_inv ?w"
    by (simp add: file_inv_def lsn_seq_def sizes_ok_def last_lsn_of_def wal_consts
        transaction_record_def)
  have fin: "finished_ids (fw_records (tm_wal ?m)) = [4]" by (simp add: tm_new_def)
  have n: "tm_next_transaction_id ?m = 5"
    by (simp add: tm_new_def FileWal_def file_next_transaction_id_def
        next_transaction_id_after_records_def List.map_filter_def saturating_add_u64_def)
  obtain m' t where b: "tm_begin ?m = (m', Inr t)" and t: "tx_id t = 5"
    by (simp add: tm_begin_def n checked_add_u64_def Let_def)
  have reach: "tm_reachable FileWal ?w ?m" by (rule reach_new)
  note begin_gives_fresh_id [OF inv reach b]
  with b t fin reach show ?thesis by (intro exI [of _ ?w] exI [of _ ?m] exI conjI) auto
qed

text \<open>
  C13. A transaction is finished at most once.  In every state a manager over a
  \<open>MemoryWal\<close> reaches from an empty log, the ids of the commit and rollback records are
  pairwise distinct, no transaction that is still open has such a record, and each
  open transaction is stored under its own id.
\<close>

theorem finished_at_most_once:
  assumes "tm_reachable MemoryWal memory_wal_default m"
  shows "distinct (finished_ids (mw_records (tm_wal m))) \<and>
    (\<forall>i \<in> set (finished_ids (mw_records (tm_wal m))). tm_active m i = None) \<and>
    (\<forall>i t. tm_active m i = Some t \<longrightarrow> tx_id t = i)"
proof -
  have "memory_inv memory_wal_default"
    by (simp add: memory_inv_def memory_wal_default_def lsn_seq_def sizes_ok_def last_lsn_of_def)
  then have "memw.once_inv m"
    using memw.once_inv_reachable [OF assms] by (simp add: memory_wal_default_def)
  then show ?thesis by (auto simp: memw.once_inv_def memw.tm_inv_def active_ok_def)
qed

lemma tm_reachable_begin: "tm_reachable W w m \<Longrightarrow> tm_reachable W w (fst (tm_begin m))"
  by (meson prod.exhaust_sel reach_step step_begin)

lemma tm_reachable_commit: "tm_reachable W w m \<Longrightarrow> tm_reachable W w (fst (tm_commit W m t))"
  by (meson prod.exhaust_sel reach_step step_commit)

theorem finished_at_most_once_witness:
  "\<exists>m. tm_reachable MemoryWal memory_wal_default m \<and> finished_ids (mw_records (tm_wal m)) = [1] \<and>
     tm_active m 1 = None \<and> tm_active m 2 \<noteq> None"
proof -
  let ?t = "\<lambda>i. \<lparr>tx_id = i, tx_snapshot = \<lparr>snap_lsn = 0\<rparr>\<rparr>"
  let ?start = "tm_new MemoryWal memory_wal_default"
  let ?m = "fst (tm_commit MemoryWal (fst (tm_begin (fst (tm_begin ?start)))) (?t 1))"
  have r: "tm_reachable MemoryWal memory_wal_default ?m"
    by (intro tm_reachable_begin tm_reachable_commit reach_new)
  have m0: "?start = \<lparr>tm_wal = memory_wal_default, tm_current_lsn = 0, tm_next_transaction_id = 1,
    tm_active = Map.empty\<rparr>"
    by (simp add: tm_new_def MemoryWal_def memory_wal_default_def memory_current_lsn_def
        memory_next_transaction_id_def next_transaction_id_after_records_def List.map_filter_def)
  have m1: "fst (tm_begin (fst (tm_begin ?start))) = \<lparr>tm_wal = memory_wal_default, tm_current_lsn = 0,
    tm_next_transaction_id = 3, tm_active = [1 \<mapsto> ?t 1, 2 \<mapsto> ?t 2]\<rparr>"
    by (simp add: m0 tm_begin_def checked_add_u64_def Let_def)
  have "mw_records (tm_wal ?m) = [(0, transaction_record 0x43 (?t 1))] \<and> tm_active ?m 2 \<noteq> None"
    unfolding m1
    by (simp add: tm_commit_def tm_finish_def MemoryWal_def memory_append_def memory_sync_def
        validate_record_size_def wal_consts next_lsn_def memory_wal_default_def
        transaction_record_def)
  then have "finished_ids (mw_records (tm_wal ?m)) = [1]" "tm_active ?m 2 \<noteq> None" by simp_all
  with finished_at_most_once [OF r] r show ?thesis by auto
qed

text \<open>
  C14. Committing an open transaction on a file without I/O faults succeeds: it appends
  one commit record carrying the transaction's id and snapshot under the next LSN,
  closes the transaction, moves the manager's snapshot to that LSN, and any later
  commit or rollback of the same transaction is refused and changes nothing.
\<close>

theorem commit_closes_transaction:
  assumes "file_inv (tm_wal m)" "file_faults (fw_file (tm_wal m)) = []"
    and "tm_active m (tx_id t) = Some t" "length (fw_records (tm_wal m)) < 2 ^ 64"
  shows "\<exists>m' l. tm_commit FileWal m t = (m', Inr l) \<and> tm_snapshot m' = \<lparr>snap_lsn = l\<rparr> \<and>
    l = word_of_nat (length (fw_records (tm_wal m))) \<and>
    fw_records (tm_wal m') = fw_records (tm_wal m) @ [(l, transaction_record 0x43 t)] \<and>
    tm_active m' = (tm_active m)(tx_id t := None) \<and>
    tm_commit FileWal m' t = (m', Inl Transaction_not_active) \<and>
    tm_rollback FileWal m' t = (m', Inl Transaction_not_active)"
  using rfilew.commit_active [of m t] assms by (simp add: file_reliable_inv_def)

theorem commit_closes_transaction_witness:
  "\<exists>m m' t. tm_active m 1 = Some t \<and> tm_commit FileWal m t = (m', Inr 0) \<and>
     fw_records (tm_wal m') = [(0, transaction_record 0x43 t)] \<and>
     tm_rollback FileWal m' t = (m', Inl Transaction_not_active)"
proof -
  let ?t = "\<lparr>tx_id = 1, tx_snapshot = \<lparr>snap_lsn = 0\<rparr>\<rparr>"
  let ?m = "\<lparr>tm_wal = \<lparr>fw_file = \<lparr>file_bytes = [], file_faults = []\<rparr>, fw_records = [],
      fw_last_lsn = None\<rparr>, tm_current_lsn = 0, tm_next_transaction_id = 2, tm_active = [1 \<mapsto> ?t]\<rparr>"
  have "file_inv (tm_wal ?m)"
    by (simp add: file_inv_def lsn_seq_def sizes_ok_def last_lsn_of_def)
  from commit_closes_transaction [OF this, of ?t] obtain m' where
    "tm_commit FileWal ?m ?t = (m', Inr 0)"
    "fw_records (tm_wal m') = [(0, transaction_record 0x43 ?t)]"
    "tm_rollback FileWal m' ?t = (m', Inl Transaction_not_active)" by auto
  moreover have "tm_active ?m 1 = Some ?t" by simp
  ultimately show ?thesis by blast
qed

end
