(* ===== verification/Dbf_Types.thy ===== *)
theory Dbf_Types
  imports Base
begin

text \<open>
  Types the DBF components share: the error type, the sidecar formats and the field
  descriptor of \<^verbatim>\<open>src/src/dbf/types.rs\<close>, the constants of \<^verbatim>\<open>src/src/dbf/mod.rs\<close>, and the
  part of the file system that loading and recovery read.  A path is a directory, a
  file stem and an extension; a file system is a list of directory entries in the
  order \<open>read_dir\<close> lists them (\<open>None\<close> in place of the bytes for a sub-directory),
  and the list of directories that can be read.
\<close>

datatype dbf_error = Dbf_io | Dbf_invalid string

section \<open>Constants\<close>

definition EOF_MARKER :: u8 where "EOF_MARKER = 0x1A"
definition FIELD_TERMINATOR :: u8 where "FIELD_TERMINATOR = 0x0D"
definition ACTIVE_RECORD :: u8 where "ACTIVE_RECORD = 0x20"
definition DELETED_RECORD :: u8 where "DELETED_RECORD = 0x2A"
definition DBT_BLOCK_SIZE :: nat where "DBT_BLOCK_SIZE = 512"

lemmas dbf_consts = EOF_MARKER_def FIELD_TERMINATOR_def ACTIVE_RECORD_def DELETED_RECORD_def
  DBT_BLOCK_SIZE_def

section \<open>Sidecar formats\<close>

datatype memo_format = Dbase3 | Dbase4 | FoxPro

fun memo_format_tag :: "memo_format \<Rightarrow> u8" where
  "memo_format_tag Dbase3 = 0"
| "memo_format_tag Dbase4 = 1"
| "memo_format_tag FoxPro = 2"

definition memo_format_from_tag :: "u8 \<Rightarrow> (dbf_error, memo_format) result" where
  "memo_format_from_tag tag =
     (if tag = 0 then Inr Dbase3
      else if tag = 1 then Inr Dbase4
      else if tag = 2 then Inr FoxPro
      else Inl (Dbf_invalid (''unknown memo sidecar format tag '' @ show_nat (unat tag))))"

fun memo_format_extension :: "memo_format \<Rightarrow> string" where
  "memo_format_extension Dbase3 = ''dbt''"
| "memo_format_extension Dbase4 = ''dbt''"
| "memo_format_extension FoxPro = ''fpt''"

definition memo_format_for_version :: "u8 \<Rightarrow> memo_format option" where
  "memo_format_for_version version =
     (if version = 0x83 then Some Dbase3
      else if version = 0x8B then Some Dbase4
      else if version \<in> {0x30, 0x31, 0x32, 0xF5} then Some FoxPro
      else None)"

record memo_snapshot =
  ms_format :: memo_format
  ms_bytes :: bytes

datatype memo_update = Memo_text string | Memo_binary bytes

section \<open>Field descriptors\<close>

record field_descriptor =
  fd_name :: string
  fd_type :: u8
  fd_length :: u8
  fd_decimal_count :: u8
  fd_flags :: u8
  fd_offset :: nat

definition is_system :: "field_descriptor \<Rightarrow> bool" where
  "is_system f \<longleftrightarrow> and (fd_flags f) 0x01 \<noteq> 0 \<or> eq_ignore_ascii_case (fd_name f) ''_NULLFLAGS''"

definition is_variable :: "field_descriptor \<Rightarrow> bool" where
  "is_variable f \<longleftrightarrow> ascii_upper (fd_type f) \<in> {0x51, 0x56}"

definition is_nullable :: "field_descriptor \<Rightarrow> bool" where
  "is_nullable f \<longleftrightarrow> and (fd_flags f) 0x02 \<noteq> 0"

definition is_binary :: "field_descriptor \<Rightarrow> bool" where
  "is_binary f \<longleftrightarrow>
     ascii_upper (fd_type f) \<in> {0x51, 0x47, 0x50, 0x57} \<or>
     (ascii_upper (fd_type f) = 0x42 \<and> fd_length f \<noteq> 8) \<or>
     and (fd_flags f) 0x04 \<noteq> 0"

definition is_auto_increment :: "field_descriptor \<Rightarrow> u8 \<Rightarrow> bool" where
  "is_auto_increment f version \<longleftrightarrow>
     fd_type f = 0x2B \<or>
     (version = 0x31 \<and> ascii_upper (fd_type f) = 0x49 \<and> and (fd_flags f) 0x0C = 0x0C)"

definition is_memo_field :: "u8 \<Rightarrow> bool" where
  "is_memo_field t \<longleftrightarrow> ascii_upper t = 0x4D"

definition is_sidecar_field :: "field_descriptor \<Rightarrow> bool" where
  "is_sidecar_field f \<longleftrightarrow>
     is_memo_field (fd_type f) \<or>
     ascii_upper (fd_type f) \<in> {0x47, 0x50, 0x57} \<or>
     (ascii_upper (fd_type f) = 0x42 \<and> fd_length f \<noteq> 8)"

section \<open>Files\<close>

record file_path =
  fp_dir :: string
  fp_stem :: string
  fp_ext :: "string option"

record file_system =
  fs_entries :: "(file_path \<times> bytes option) list"
  fs_dirs :: "string list"

definition with_extension :: "file_path \<Rightarrow> string \<Rightarrow> file_path" where
  "with_extension p e = p\<lparr>fp_ext := Some e\<rparr>"

definition fs_read :: "file_system \<Rightarrow> file_path \<Rightarrow> (dbf_error, bytes) result" where
  "fs_read fs p =
     (case map_of (fs_entries fs) p of Some (Some bs) \<Rightarrow> Inr bs | _ \<Rightarrow> Inl Dbf_io)"

definition is_file :: "file_system \<Rightarrow> file_path \<Rightarrow> bool" where
  "is_file fs p \<longleftrightarrow> (case map_of (fs_entries fs) p of Some (Some bs) \<Rightarrow> True | _ \<Rightarrow> False)"

definition read_dir :: "file_system \<Rightarrow> string \<Rightarrow> file_path list option" where
  "read_dir fs d =
     (if d \<in> set (fs_dirs fs) then Some (filter (\<lambda>p. fp_dir p = d) (map fst (fs_entries fs)))
      else None)"

fun find_memo_extension :: "file_system \<Rightarrow> file_path \<Rightarrow> string list \<Rightarrow> file_path option" where
  "find_memo_extension fs p [] = None"
| "find_memo_extension fs p (e # es) =
     (if is_file fs (with_extension p e) then Some (with_extension p e)
      else if is_file fs (with_extension p (to_ascii_uppercase e))
        then Some (with_extension p (to_ascii_uppercase e))
      else
        (case read_dir fs (fp_dir p) of
           None \<Rightarrow> None
         | Some entries \<Rightarrow>
             (case find (\<lambda>c. fp_stem c = fp_stem p \<and>
                  (case fp_ext c of None \<Rightarrow> False | Some x \<Rightarrow> eq_ignore_ascii_case x e)) entries of
                Some c \<Rightarrow> Some c
              | None \<Rightarrow> find_memo_extension fs p es)))"

definition find_memo_path :: "file_system \<Rightarrow> file_path \<Rightarrow> file_path option" where
  "find_memo_path fs p = find_memo_extension fs p [''fpt'', ''dbt'']"

section \<open>Lemmas\<close>

lemma memo_format_from_tag [simp]: "memo_format_from_tag (memo_format_tag f) = Inr f"
  by (cases f) (simp_all add: memo_format_from_tag_def)

lemma find_memo_extension_stem:
  "find_memo_extension fs p es = Some c \<Longrightarrow>
     fp_stem c = fp_stem p \<and> (\<exists>e \<in> set es. \<exists>x. fp_ext c = Some x \<and> eq_ignore_ascii_case x e)"
proof (induction es)
  case Nil
  then show ?case by simp
next
  case (Cons e es)
  then show ?case
    by (auto simp: with_extension_def eq_ignore_ascii_case_def find_Some_iff
        split: if_splits option.splits dest!: nth_mem)
qed

end
