(* ===== verification/Dbf_Wal.thy ===== *)
theory Dbf_Wal
  imports Dbf_Types
begin

text \<open>
  The payloads of the DBF write-ahead log: \<^verbatim>\<open>src/src/dbf/wal.rs\<close> (snapshots, operation,
  transaction-id and layout-change records) and \<^verbatim>\<open>src/src/dbf/wal_delta.rs\<close> (byte deltas).
  A buffer that is extended in place is returned extended, a cursor that is advanced in
  place is returned advanced.  \<open>usize::try_from\<close> of a \<open>u32\<close> or \<open>u64\<close> cannot fail on the
  64-bit target and is \<open>unat\<close>.  The delta decoder is an instance of the cursor contract
  of \<open>Base\<close>.
\<close>

section \<open>Payload markers\<close>

definition SNAPSHOT_MAGIC :: bytes where "SNAPSHOT_MAGIC = [0x54, 0x58, 0x44, 0x42]"
definition MEMO_SNAPSHOT_MAGIC :: bytes where "MEMO_SNAPSHOT_MAGIC = [0x54, 0x58, 0x44, 0x4D]"
definition DELTA_MAGIC :: bytes where "DELTA_MAGIC = [0x54, 0x58, 0x44, 0x50]"
definition OPERATION_MAGIC :: bytes where "OPERATION_MAGIC = [0x54, 0x58, 0x4F, 0x50]"
definition TRANSACTION_ID_MAGIC :: bytes where "TRANSACTION_ID_MAGIC = [0x54, 0x58, 0x54, 0x49]"
definition LAYOUT_CHANGE_MAGIC :: bytes where "LAYOUT_CHANGE_MAGIC = [0x54, 0x58, 0x50, 0x4B]"
definition OPERATION_VERSION :: u8 where "OPERATION_VERSION = 1"
definition TRANSACTION_ID_VERSION :: u8 where "TRANSACTION_ID_VERSION = 1"
definition LAYOUT_CHANGE_VERSION :: u8 where "LAYOUT_CHANGE_VERSION = 1"
definition DELTA_VERSION :: u8 where "DELTA_VERSION = 1"

lemmas magic_defs = SNAPSHOT_MAGIC_def MEMO_SNAPSHOT_MAGIC_def DELTA_MAGIC_def OPERATION_MAGIC_def
  TRANSACTION_ID_MAGIC_def LAYOUT_CHANGE_MAGIC_def

section \<open>Byte deltas\<close>

record byte_patch =
  bp_offset :: nat
  bp_bytes :: bytes

record byte_delta =
  bd_base_length :: u64
  bd_target_length :: u64
  bd_base_hash :: u64
  bd_target_hash :: u64
  bd_patches :: "byte_patch list"

definition delta_hash :: "bytes \<Rightarrow> u64" where
  "delta_hash bs = foldl (\<lambda>hash b. (xor hash (ucast b)) * 0x100000001b3) 0xcbf29ce484222325 bs"

function differ_end :: "bytes \<Rightarrow> bytes \<Rightarrow> nat \<Rightarrow> nat \<Rightarrow> nat" where
  "differ_end base target common offset =
     (if offset < common \<and> base ! offset \<noteq> target ! offset
      then differ_end base target common (offset + 1) else offset)"
  by pat_completeness auto
termination by (relation "measure (\<lambda>(_, _, common, offset). common - offset)") auto

declare differ_end.simps [simp del]

lemma differ_end_ge: "offset \<le> differ_end base target common offset"
  by (induction base target common offset rule: differ_end.induct)
    (subst differ_end.simps, auto)

function diff_patches :: "bytes \<Rightarrow> bytes \<Rightarrow> nat \<Rightarrow> nat \<Rightarrow> byte_patch list" where
  "diff_patches base target common offset =
     (if offset < common then
        if base ! offset = target ! offset then diff_patches base target common (offset + 1)
        else
          \<lparr>bp_offset = offset,
           bp_bytes = subslice offset (differ_end base target common (offset + 1)) target\<rparr>
          # diff_patches base target common (differ_end base target common (offset + 1))
      else [])"
  by pat_completeness auto
termination
proof (relation "measure (\<lambda>(_, _, common, offset). common - offset)", goal_cases)
  case (3 base target common offset)
  then show ?case using differ_end_ge [of "offset + 1" base target common] by simp
qed auto

declare diff_patches.simps [simp del]

definition byte_delta_new :: "bytes \<Rightarrow> bytes \<Rightarrow> (dbf_error, byte_delta) result" where
  "byte_delta_new base target =
     (let common = min (length base) (length target);
          patches = diff_patches base target common 0 @
            (if common < length target
             then [\<lparr>bp_offset = common, bp_bytes = drop common target\<rparr>] else [])
      in bindr (ok_or (Dbf_invalid ''WAL base length overflows u64'') (u64_try_from (length base))) (\<lambda>bl.
         bindr (ok_or (Dbf_invalid ''WAL target length overflows u64'') (u64_try_from (length target))) (\<lambda>tl.
         Inr \<lparr>bd_base_length = bl, bd_target_length = tl, bd_base_hash = delta_hash base,
              bd_target_hash = delta_hash target, bd_patches = patches\<rparr>)))"

fun encode_patches :: "bytes \<Rightarrow> byte_patch list \<Rightarrow> (dbf_error, bytes) result" where
  "encode_patches payload [] = Inr payload"
| "encode_patches payload (p # ps) =
     bindr (ok_or (Dbf_invalid ''WAL patch offset overflows u64'') (u64_try_from (bp_offset p))) (\<lambda>off.
     bindr (ok_or (Dbf_invalid ''WAL patch length overflows u32'') (u32_try_from (length (bp_bytes p)))) (\<lambda>len.
     encode_patches (payload @ u64_to_le off @ u32_to_le len @ bp_bytes p) ps))"

definition encode_byte_delta :: "bytes \<Rightarrow> byte_delta \<Rightarrow> (dbf_error, bytes) result" where
  "encode_byte_delta payload d =
     bindr (ok_or (Dbf_invalid ''WAL patch count overflows u32'') (u32_try_from (length (bd_patches d)))) (\<lambda>n.
     encode_patches
       (payload @ u64_to_le (bd_base_length d) @ u64_to_le (bd_target_length d) @
        u64_to_le (bd_base_hash d) @ u64_to_le (bd_target_hash d) @ u32_to_le n)
       (bd_patches d))"

definition take_delta_bytes :: "bytes \<Rightarrow> nat \<Rightarrow> nat \<Rightarrow> (dbf_error, bytes \<times> nat) result" where
  "take_delta_bytes payload cursor len =
     bindr (ok_or (Dbf_invalid ''WAL delta length overflows'') (checked_add cursor len)) (\<lambda>stop.
     bindr (ok_or (Dbf_invalid ''WAL delta is truncated'') (get_range payload cursor stop)) (\<lambda>bs.
     Inr (bs, stop)))"

definition take_delta_u8 :: "bytes \<Rightarrow> nat \<Rightarrow> (dbf_error, u8 \<times> nat) result" where
  "take_delta_u8 payload cursor =
     bindr (take_delta_bytes payload cursor 1) (\<lambda>(bs, c). Inr (hd bs, c))"

definition take_delta_u32 :: "bytes \<Rightarrow> nat \<Rightarrow> (dbf_error, u32 \<times> nat) result" where
  "take_delta_u32 payload cursor =
     bindr (take_delta_bytes payload cursor 4) (\<lambda>(bs, c). Inr (u32_from_le bs, c))"

definition take_delta_u64 :: "bytes \<Rightarrow> nat \<Rightarrow> (dbf_error, u64 \<times> nat) result" where
  "take_delta_u64 payload cursor =
     bindr (take_delta_bytes payload cursor 8) (\<lambda>(bs, c). Inr (u64_from_le bs, c))"

fun decode_patches :: "nat \<Rightarrow> bytes \<Rightarrow> nat \<Rightarrow> (dbf_error, byte_patch list \<times> nat) result" where
  "decode_patches 0 payload cursor = Inr ([], cursor)"
| "decode_patches (Suc n) payload cursor =
     bindr (take_delta_u64 payload cursor) (\<lambda>(off, c1).
     bindr (take_delta_u32 payload c1) (\<lambda>(len, c2).
     bindr (take_delta_bytes payload c2 (unat len)) (\<lambda>(bs, c3).
     bindr (decode_patches n payload c3) (\<lambda>(ps, c4).
     Inr (\<lparr>bp_offset = unat off, bp_bytes = bs\<rparr> # ps, c4)))))"

definition decode_byte_delta :: "bytes \<Rightarrow> nat \<Rightarrow> (dbf_error, byte_delta \<times> nat) result" where
  "decode_byte_delta payload cursor =
     bindr (take_delta_u64 payload cursor) (\<lambda>(base_length, c1).
     bindr (take_delta_u64 payload c1) (\<lambda>(target_length, c2).
     bindr (take_delta_u64 payload c2) (\<lambda>(base_hash, c3).
     bindr (take_delta_u64 payload c3) (\<lambda>(target_hash, c4).
     bindr (take_delta_u32 payload c4) (\<lambda>(patch_count, c5).
     bindr (ensure (unat patch_count \<le> (length payload - c5) div 12)
       (Dbf_invalid ''WAL patch count is unreasonable'')) (\<lambda>_.
     bindr (decode_patches (unat patch_count) payload c5) (\<lambda>(ps, c6).
     Inr (\<lparr>bd_base_length = base_length, bd_target_length = target_length,
           bd_base_hash = base_hash, bd_target_hash = target_hash, bd_patches = ps\<rparr>, c6))))))))"

fun apply_patches :: "string \<Rightarrow> bytes \<Rightarrow> nat \<Rightarrow> byte_patch list \<Rightarrow> (dbf_error, bytes) result" where
  "apply_patches label out previous_end [] = Inr out"
| "apply_patches label out previous_end (p # ps) =
     bindr (ok_or (Dbf_invalid (label @ '' patch range overflows''))
       (checked_add (bp_offset p) (length (bp_bytes p)))) (\<lambda>stop.
     if bp_bytes p = [] \<or> bp_offset p < previous_end \<or> length out < stop
     then Inl (Dbf_invalid (label @ '' contains an invalid patch range''))
     else apply_patches label (copy_slice out (bp_offset p) (bp_bytes p)) stop ps)"

definition apply_byte_delta :: "bytes \<Rightarrow> byte_delta \<Rightarrow> string \<Rightarrow> (dbf_error, bytes) result" where
  "apply_byte_delta current d label =
     bindr (ok_or (Dbf_invalid (label @ '' length overflows u64'')) (u64_try_from (length current))) (\<lambda>len.
     if len = bd_target_length d \<and> delta_hash current = bd_target_hash d then Inr current
     else if len \<noteq> bd_base_length d \<or> delta_hash current \<noteq> bd_base_hash d
       then Inl (Dbf_invalid (label @ '' does not match the DBF delta base''))
     else
       bindr (apply_patches label (resize (unat (bd_target_length d)) 0 current) 0 (bd_patches d)) (\<lambda>out.
       if delta_hash out \<noteq> bd_target_hash d
       then Inl (Dbf_invalid (label @ '' delta checksum does not match''))
       else Inr out))"

section \<open>Recovery payloads\<close>

record recovery_snapshot =
  rs_dbf :: bytes
  rs_memo :: "memo_snapshot option"

record persisted_state =
  ps_path :: file_path
  ps_dbf :: bytes
  ps_memo :: "bytes option"
  ps_schema :: "bytes option"
  ps_transaction_id :: "u64 option"

text \<open>
  \<open>delta_payload\<close> reads of the table only its \<open>source\<close> (the state it was loaded from) and
  its current bytes, which are the first two arguments.
\<close>

definition delta_payload ::
  "persisted_state option \<Rightarrow> bytes \<Rightarrow> file_path \<Rightarrow> memo_snapshot option \<Rightarrow> nat \<Rightarrow>
     (dbf_error, bytes option) result" where
  "delta_payload table_source table_bytes path memo full_payload_length =
     (case table_source of
        None \<Rightarrow> Inr None
      | Some src \<Rightarrow>
          if ps_path src \<noteq> path \<or> (memo \<noteq> None \<and> ps_memo src = None) then Inr None
          else
            bindr (byte_delta_new (ps_dbf src) table_bytes) (\<lambda>dbf_delta.
            bindr (encode_byte_delta (DELTA_MAGIC @ [DELTA_VERSION]) dbf_delta) (\<lambda>payload.
            bindr
              (case memo of
                 Some m \<Rightarrow>
                   bindr (byte_delta_new (the (ps_memo src)) (ms_bytes m)) (\<lambda>memo_delta.
                   encode_byte_delta (payload @ [1, memo_format_tag (ms_format m)]) memo_delta)
               | None \<Rightarrow> Inr (payload @ [0])) (\<lambda>payload.
            Inr (if length payload < full_payload_length then Some payload else None)))))"

definition decode_delta_payload ::
  "file_system \<Rightarrow> file_path \<Rightarrow> bytes \<Rightarrow> (dbf_error, recovery_snapshot option) result" where
  "decode_delta_payload fs path payload =
     bindr (take_delta_u8 payload (length DELTA_MAGIC)) (\<lambda>(version, c1).
     bindr (ensure (version = DELTA_VERSION)
       (Dbf_invalid (''unknown DBF delta version '' @ show_nat (unat version)))) (\<lambda>_.
     bindr (decode_byte_delta payload c1) (\<lambda>(dbf_delta, c2).
     bindr (take_delta_u8 payload c2) (\<lambda>(memo_present, c3).
     bindr
       (if memo_present = 0 then Inr (None, c3)
        else if memo_present = 1 then
          bindr (take_delta_u8 payload c3) (\<lambda>(tag, c4).
          bindr (memo_format_from_tag tag) (\<lambda>format.
          bindr (decode_byte_delta payload c4) (\<lambda>(d, c5). Inr (Some (format, d), c5))))
        else Inl (Dbf_invalid (''invalid DBF delta memo flag '' @ show_nat (unat memo_present))))
       (\<lambda>(memo_delta, c6).
     bindr (ensure (c6 = length payload) (Dbf_invalid ''DBF delta has trailing bytes'')) (\<lambda>_.
     bindr (fs_read fs path) (\<lambda>current_dbf.
     bindr (apply_byte_delta current_dbf dbf_delta ''DBF'') (\<lambda>dbf.
     bindr
       (case memo_delta of
          None \<Rightarrow> Inr None
        | Some (format, d) \<Rightarrow>
            bindr (fs_read fs
              (case find_memo_path fs path of
                 Some p \<Rightarrow> p
               | None \<Rightarrow> with_extension path (memo_format_extension format))) (\<lambda>current_memo.
            bindr (apply_byte_delta current_memo d ''memo sidecar'') (\<lambda>bs.
            Inr (Some \<lparr>ms_format = format, ms_bytes = bs\<rparr>)))) (\<lambda>memo.
     Inr (Some \<lparr>rs_dbf = dbf, rs_memo = memo\<rparr>))))))))))"

definition snapshot_payload :: "bytes \<Rightarrow> bytes" where
  "snapshot_payload dbf = SNAPSHOT_MAGIC @ dbf"

definition transaction_id_payload :: "u64 \<Rightarrow> bytes" where
  "transaction_id_payload i = TRANSACTION_ID_MAGIC @ [TRANSACTION_ID_VERSION] @ u64_to_le i"

definition layout_change_payload :: bytes where
  "layout_change_payload = LAYOUT_CHANGE_MAGIC @ [LAYOUT_CHANGE_VERSION]"

definition decode_layout_change_payload :: "bytes \<Rightarrow> (dbf_error, bool option) result" where
  "decode_layout_change_payload payload =
     (case strip_prefix LAYOUT_CHANGE_MAGIC payload of
        None \<Rightarrow> Inr None
      | Some body \<Rightarrow>
          if length body \<noteq> 1 then Inl (Dbf_invalid ''layout-change WAL payload is truncated'')
          else if body ! 0 \<noteq> LAYOUT_CHANGE_VERSION
            then Inl (Dbf_invalid (''unknown layout-change WAL version '' @ show_nat (unat (body ! 0))))
          else Inr (Some True))"

definition decode_transaction_id_payload :: "bytes \<Rightarrow> (dbf_error, u64 option) result" where
  "decode_transaction_id_payload payload =
     (case strip_prefix TRANSACTION_ID_MAGIC payload of
        None \<Rightarrow> Inr None
      | Some body \<Rightarrow>
          if length body \<noteq> 9 then Inl (Dbf_invalid ''transaction ID WAL payload is truncated'')
          else if body ! 0 \<noteq> TRANSACTION_ID_VERSION
            then Inl (Dbf_invalid (''unknown transaction ID WAL version '' @ show_nat (unat (body ! 0))))
          else
            let i = u64_from_le (subslice 1 9 body)
            in if i = 0 then Inl (Dbf_invalid ''transaction ID WAL payload must be positive'')
               else Inr (Some i))"

text \<open>
  The operation payload carries the JSON text of an operation.  \<open>to_vec\<close> and \<open>from_slice\<close>
  stand for \<open>serde_json::to_vec\<close> and \<open>serde_json::from_slice\<close> at the operation's type.
\<close>

definition operation_payload ::
  "('op \<Rightarrow> (string, bytes) result) \<Rightarrow> 'op \<Rightarrow> (dbf_error, bytes) result" where
  "operation_payload to_vec operation =
     (case to_vec operation of
        Inl e \<Rightarrow> Inl (Dbf_invalid (''operation WAL encoding failed: '' @ e))
      | Inr body \<Rightarrow>
          bindr (ok_or (Dbf_invalid ''operation WAL payload is too large'')
            (u32_try_from (length body))) (\<lambda>len.
          Inr (OPERATION_MAGIC @ [OPERATION_VERSION] @ u32_to_le len @ body)))"

definition decode_operation_payload ::
  "(bytes \<Rightarrow> (string, 'op) result) \<Rightarrow> bytes \<Rightarrow> (dbf_error, 'op option) result" where
  "decode_operation_payload from_slice payload =
     (case strip_prefix OPERATION_MAGIC payload of
        None \<Rightarrow> Inr None
      | Some body \<Rightarrow>
          bindr (case body of [] \<Rightarrow> Inl (Dbf_invalid ''operation WAL header is truncated'')
                 | v # _ \<Rightarrow> Inr v) (\<lambda>version.
          bindr (ensure (version = OPERATION_VERSION)
            (Dbf_invalid (''unknown operation WAL version '' @ show_nat (unat version)))) (\<lambda>_.
          bindr (ok_or (Dbf_invalid ''operation WAL length is truncated'') (get_range body 1 5)) (\<lambda>lb.
          if length (drop 5 body) \<noteq> unat (u32_from_le lb)
          then Inl (Dbf_invalid ''operation WAL length does not match payload'')
          else
            (case from_slice (drop 5 body) of
               Inl e \<Rightarrow> Inl (Dbf_invalid (''operation WAL decoding failed: '' @ e))
             | Inr operation \<Rightarrow> Inr (Some operation))))))"

definition memo_snapshot_payload :: "bytes \<Rightarrow> memo_snapshot \<Rightarrow> (dbf_error, bytes) result" where
  "memo_snapshot_payload dbf memo =
     bindr (ok_or (Dbf_invalid ''DBF snapshot length overflows u64'') (u64_try_from (length dbf))) (\<lambda>dl.
     bindr (ok_or (Dbf_invalid ''memo snapshot length overflows u64'') (u64_try_from (length (ms_bytes memo)))) (\<lambda>ml.
     Inr (MEMO_SNAPSHOT_MAGIC @ [memo_format_tag (ms_format memo)] @ u64_to_le dl @ u64_to_le ml @
          dbf @ ms_bytes memo)))"

definition decode_snapshot :: "bytes \<Rightarrow> (dbf_error, recovery_snapshot option) result" where
  "decode_snapshot payload =
     (case strip_prefix SNAPSHOT_MAGIC payload of
        Some dbf \<Rightarrow> Inr (Some \<lparr>rs_dbf = dbf, rs_memo = None\<rparr>)
      | None \<Rightarrow>
          (case strip_prefix MEMO_SNAPSHOT_MAGIC payload of
             None \<Rightarrow> Inr None
           | Some body \<Rightarrow>
               bindr (ok_or (Dbf_invalid ''memo snapshot header is truncated'') (get_range body 0 17)) (\<lambda>header.
               bindr (memo_format_from_tag (header ! 0)) (\<lambda>format.
               let dbf_length = unat (u64_from_le (subslice 1 9 header));
                   memo_length = unat (u64_from_le (subslice 9 17 header));
                   overflow = Dbf_invalid ''memo snapshot length overflows usize''
               in bindr (ok_or overflow (checked_add 17 dbf_length)) (\<lambda>memo_start.
                  bindr (ok_or overflow (checked_add memo_start memo_length)) (\<lambda>stop.
                  if stop \<noteq> length body
                  then Inl (Dbf_invalid ''memo snapshot length does not match payload'')
                  else Inr (Some \<lparr>rs_dbf = subslice 17 memo_start body,
                    rs_memo = Some \<lparr>ms_format = format, ms_bytes = subslice memo_start stop body\<rparr>\<rparr>)))))))"

definition starts_with :: "bytes \<Rightarrow> bytes \<Rightarrow> bool" where
  "starts_with p bs \<longleftrightarrow> take (length p) bs = p"

definition decode_wal_payload ::
  "(bytes \<Rightarrow> (string, 'op) result) \<Rightarrow> file_system \<Rightarrow> file_path \<Rightarrow> bytes \<Rightarrow>
     (dbf_error, recovery_snapshot option) result" where
  "decode_wal_payload from_slice fs path payload =
     (if starts_with DELTA_MAGIC payload then decode_delta_payload fs path payload
      else if starts_with OPERATION_MAGIC payload
        then bindr (decode_operation_payload from_slice payload) (\<lambda>_. Inr None)
      else if starts_with TRANSACTION_ID_MAGIC payload
        then bindr (decode_transaction_id_payload payload) (\<lambda>_. Inr None)
      else if starts_with LAYOUT_CHANGE_MAGIC payload
        then bindr (decode_layout_change_payload payload) (\<lambda>_. Inr None)
      else decode_snapshot payload)"

section \<open>The diff is undone by the patches\<close>

lemma differ_end_le: "offset \<le> common \<Longrightarrow> differ_end base target common offset \<le> common"
  by (induction base target common offset rule: differ_end.induct)
    (subst differ_end.simps, auto)

definition patched_upto :: "bytes \<Rightarrow> bytes \<Rightarrow> nat \<Rightarrow> nat \<Rightarrow> bytes \<Rightarrow> bool" where
  "patched_upto base target common offset out \<longleftrightarrow>
     (\<forall>k < common. out ! k = (if k < offset then target ! k else base ! k))"

lemma patched_upto_equal:
  assumes "patched_upto base target common offset out" "base ! offset = target ! offset"
  shows "patched_upto base target common (offset + 1) out"
  using assms unfolding patched_upto_def by (metis Suc_eq_plus1 less_antisym less_SucI)

lemma patched_upto_copy:
  assumes p: "patched_upto base target common offset out"
    and le: "offset \<le> e" "e \<le> common" "common \<le> length out" "common \<le> length target"
  shows "patched_upto base target common e (copy_slice out offset (subslice offset e target))"
  using assms
  by (auto simp: patched_upto_def nth_copy_slice) (auto simp: subslice_def)

lemma apply_diff_patches:
  assumes "patched_upto base target common offset out" "common \<le> length target"
    and "length out = length target" "length target < usize_limit" "previous \<le> offset" "offset \<le> common"
  shows "\<exists>out' previous'. apply_patches label out previous (diff_patches base target common offset @ rest) =
      apply_patches label out' previous' rest \<and> length out' = length target \<and> previous' \<le> common \<and>
      patched_upto base target common common out'"
  using assms
proof (induction base target common offset arbitrary: out previous rule: diff_patches.induct)
  case (1 base target common offset)
  show ?case
  proof (cases "offset < common")
    case False
    with "1.prems" have "offset = common" by simp
    with "1.prems" show ?thesis by (subst diff_patches.simps) auto
  next
    case lt: True
    show ?thesis
    proof (cases "base ! offset = target ! offset")
      case True
      with lt "1.prems" show ?thesis
        using "1.IH"(1) [OF lt True, of out previous] patched_upto_equal
        by (subst diff_patches.simps) simp
    next
      case False
      let ?e = "differ_end base target common (offset + 1)"
      let ?bs = "subslice offset ?e target"
      have e: "offset < ?e" "?e \<le> common"
        using differ_end_ge [of "offset + 1"] differ_end_le [of "offset + 1"] lt
        by (auto simp: Suc_le_eq)
      with "1.prems" have len: "length ?bs = ?e - offset" "offset + length ?bs = ?e" by auto
      then have ne: "?bs \<noteq> []" using e by auto
      have copy: "length (copy_slice out offset ?bs) = length target"
        using e len "1.prems" by simp
      have "patched_upto base target common ?e (copy_slice out offset ?bs)"
        using "1.prems" e by (intro patched_upto_copy) auto
      from "1.IH"(2) [OF lt False this _ copy _ order_refl] e "1.prems"
      obtain out' previous' where
        "apply_patches label (copy_slice out offset ?bs) ?e (diff_patches base target common ?e @ rest) =
          apply_patches label out' previous' rest \<and> length out' = length target \<and> previous' \<le> common \<and>
          patched_upto base target common common out'" by auto
      moreover have "apply_patches label out previous (diff_patches base target common offset @ rest) =
        apply_patches label (copy_slice out offset ?bs) ?e (diff_patches base target common ?e @ rest)"
        using lt False ne len e "1.prems"
        by (subst diff_patches.simps) (simp add: checked_add_def)
      ultimately show ?thesis by auto
    qed
  qed
qed

lemma byte_delta_new_ok:
  assumes "length base < usize_limit" "length target < usize_limit"
  obtains ps where "byte_delta_new base target =
      Inr \<lparr>bd_base_length = word_of_nat (length base), bd_target_length = word_of_nat (length target),
           bd_base_hash = delta_hash base, bd_target_hash = delta_hash target, bd_patches = ps\<rparr>"
    and "\<And>label. apply_patches label (resize (length target) 0 base) 0 ps = Inr target"
proof -
  let ?n = "min (length base) (length target)"
  let ?tail = "if ?n < length target then [\<lparr>bp_offset = ?n, bp_bytes = drop ?n target\<rparr>] else []"
  let ?ps = "diff_patches base target ?n 0 @ ?tail"
  have new: "byte_delta_new base target =
      Inr \<lparr>bd_base_length = word_of_nat (length base), bd_target_length = word_of_nat (length target),
           bd_base_hash = delta_hash base, bd_target_hash = delta_hash target, bd_patches = ?ps\<rparr>"
    using assms by (simp add: byte_delta_new_def u64_try_from_def usize_limit_def Let_def)
  have p: "patched_upto base target ?n 0 (resize (length target) 0 base)"
    by (simp add: patched_upto_def nth_resize)
  have "apply_patches label (resize (length target) 0 base) 0 ?ps = Inr target" for label
  proof -
    obtain out prev where o: "apply_patches label (resize (length target) 0 base) 0 ?ps =
        apply_patches label out prev ?tail" "length out = length target" "prev \<le> ?n"
        "patched_upto base target ?n ?n out"
      using apply_diff_patches [OF p, of 0 label ?tail] assms by auto
    then have take: "take ?n out = take ?n target"
      by (intro nth_equalityI) (auto simp: patched_upto_def)
    show ?thesis
    proof (cases "?n < length target")
      case True
      have "copy_slice out ?n (drop ?n target) = target"
        using o(2) take append_take_drop_id [of ?n target] by (simp add: copy_slice_def)
      moreover have "apply_patches label out prev
          [\<lparr>bp_offset = ?n, bp_bytes = drop ?n target\<rparr>] = Inr (copy_slice out ?n (drop ?n target))"
        using True o(2,3) assms(2) by (auto simp: checked_add_def min_def)
      ultimately show ?thesis using True o(1) by (simp only: if_True)
    next
      case False
      then have "out = target" using o(2) take by simp
      with False o(1) show ?thesis by simp
    qed
  qed
  with new that show ?thesis by blast
qed

lemma apply_byte_delta_target:
  assumes "length target < usize_limit"
    and "bd_target_length d = word_of_nat (length target)" "bd_target_hash d = delta_hash target"
  shows "apply_byte_delta target d label = Inr target"
  using assms by (simp add: apply_byte_delta_def u64_try_from_def usize_limit_def)

lemma word_of_length_eq_iff:
  assumes "length xs < usize_limit" "length ys < usize_limit"
  shows "(word_of_nat (length xs) :: u64) = word_of_nat (length ys) \<longleftrightarrow> length xs = length ys"
  using assms unat_u64_of_nat by metis

lemma apply_new_delta:
  assumes len: "length base < usize_limit" "length target < usize_limit"
    and new: "byte_delta_new base target = Inr d"
  shows "apply_byte_delta base d label =
    Inr (if length base = length target \<and> delta_hash base = delta_hash target then base else target)"
proof -
  obtain ps where d: "d = \<lparr>bd_base_length = word_of_nat (length base),
      bd_target_length = word_of_nat (length target), bd_base_hash = delta_hash base,
      bd_target_hash = delta_hash target, bd_patches = ps\<rparr>"
    and ps: "apply_patches label (resize (length target) 0 base) 0 ps = Inr target"
    using byte_delta_new_ok [OF len] new by (metis Inr_inject)
  show ?thesis
    using len ps word_of_length_eq_iff [OF len]
    by (simp add: apply_byte_delta_def d u64_try_from_Some_iff ok_or_def u64_try_from_def
        usize_limit_def unat_u64_of_nat)
qed

section \<open>The delta codec\<close>

interpretation deltac: cursor_reader take_delta_bytes
  by unfold_locales
    (auto simp: take_delta_bytes_def result_simps)

lemma take_delta_u8_at:
  "cursor_at bs c (b # rest) \<Longrightarrow> length bs < usize_limit \<Longrightarrow> take_delta_u8 bs c = Inr (b, c + 1)"
  using deltac.take_at [of bs c "[b]" rest 1] by (simp add: take_delta_u8_def)

lemma take_delta_u32_at:
  "cursor_at bs c (u32_to_le w @ rest) \<Longrightarrow> length bs < usize_limit \<Longrightarrow>
     take_delta_u32 bs c = Inr (w, c + 4)"
  using deltac.take_at [of bs c "u32_to_le w" rest 4] by (simp add: take_delta_u32_def)

lemma take_delta_u64_at:
  "cursor_at bs c (u64_to_le w @ rest) \<Longrightarrow> length bs < usize_limit \<Longrightarrow>
     take_delta_u64 bs c = Inr (w, c + 8)"
  using deltac.take_at [of bs c "u64_to_le w" rest 8] by (simp add: take_delta_u64_def)

lemma cursor_at_skips:
  "cursor_at bs c (b # rest) \<Longrightarrow> cursor_at bs (c + 1) rest"
  "cursor_at bs c (u32_to_le w @ rest) \<Longrightarrow> cursor_at bs (c + 4) rest"
  "cursor_at bs c (u64_to_le v @ rest) \<Longrightarrow> cursor_at bs (c + 8) rest"
  using cursor_at_skip [of bs c "[b]" rest] cursor_at_skip [of bs c "u32_to_le w" rest]
    cursor_at_skip [of bs c "u64_to_le v" rest] by simp_all

definition patch_bytes :: "byte_patch \<Rightarrow> bytes" where
  "patch_bytes p = u64_to_le (word_of_nat (bp_offset p)) @
     u32_to_le (word_of_nat (length (bp_bytes p))) @ bp_bytes p"

definition delta_bytes :: "byte_delta \<Rightarrow> bytes" where
  "delta_bytes d = u64_to_le (bd_base_length d) @ u64_to_le (bd_target_length d) @
     u64_to_le (bd_base_hash d) @ u64_to_le (bd_target_hash d) @
     u32_to_le (word_of_nat (length (bd_patches d))) @ concat (map patch_bytes (bd_patches d))"

definition patch_ok :: "byte_patch \<Rightarrow> bool" where
  "patch_ok p \<longleftrightarrow> bp_offset p < usize_limit \<and> length (bp_bytes p) < 2 ^ 32"

definition delta_ok :: "byte_delta \<Rightarrow> bool" where
  "delta_ok d \<longleftrightarrow> length (bd_patches d) < 2 ^ 32 \<and> list_all patch_ok (bd_patches d)"

lemma encode_patches_iff:
  "encode_patches payload ps = Inr out \<longleftrightarrow>
     list_all patch_ok ps \<and> out = payload @ concat (map patch_bytes ps)"
  by (induction ps arbitrary: payload)
    (auto simp: result_simps patch_ok_def patch_bytes_def)

lemma encode_byte_delta_iff:
  "encode_byte_delta payload d = Inr out \<longleftrightarrow> delta_ok d \<and> out = payload @ delta_bytes d"
  by (auto simp: encode_byte_delta_def result_simps encode_patches_iff delta_ok_def delta_bytes_def)

lemma decode_patches_at:
  assumes "cursor_at bs c (concat (map patch_bytes ps) @ rest)" "length bs < usize_limit"
    and "list_all patch_ok ps"
  shows "decode_patches (length ps) bs c = Inr (ps, c + length (concat (map patch_bytes ps)))"
  using assms
proof (induction ps arbitrary: c)
  case Nil
  show ?case by simp
next
  case (Cons p ps)
  let ?o = "word_of_nat (bp_offset p) :: u64" and ?l = "word_of_nat (length (bp_bytes p)) :: u32"
  let ?tl = "concat (map patch_bytes ps) @ rest"
  have at: "cursor_at bs c (u64_to_le ?o @ u32_to_le ?l @ bp_bytes p @ ?tl)"
    using Cons.prems(1) by (simp add: patch_bytes_def [of p])
  note at1 = cursor_at_skips(3) [OF at, simplified]
  note at2 = cursor_at_skips(2) [OF at1, simplified]
  have ok: "unat ?o = bp_offset p" "unat ?l = length (bp_bytes p)"
    using Cons.prems(3) by (auto simp: patch_ok_def unat_u64_of_nat unat_u32_of_nat)
  have "decode_patches (length ps) bs (12 + c + length (bp_bytes p)) =
      Inr (ps, 12 + c + length (bp_bytes p) + length (concat (map patch_bytes ps)))"
    using Cons.IH [OF cursor_at_skip [OF at2]] Cons.prems by simp
  with Cons.prems(2) show ?case
    by (simp add: take_delta_u64_at [OF at] take_delta_u32_at [OF at1]
        deltac.take_at [OF at2] ok patch_bytes_def [of p])
qed

lemma concat_patch_bytes_length: "12 * length ps \<le> length (concat (map patch_bytes ps))"
  by (induction ps) (auto simp: patch_bytes_def)

lemma decode_byte_delta_at:
  assumes at: "cursor_at bs c (delta_bytes d @ rest)" and len: "length bs < usize_limit"
    and ok: "delta_ok d"
  shows "decode_byte_delta bs c = Inr (d, c + length (delta_bytes d))"
proof -
  let ?ps = "concat (map patch_bytes (bd_patches d))"
  let ?n = "word_of_nat (length (bd_patches d)) :: u32"
  have at0: "cursor_at bs c (u64_to_le (bd_base_length d) @ u64_to_le (bd_target_length d) @
     u64_to_le (bd_base_hash d) @ u64_to_le (bd_target_hash d) @ u32_to_le ?n @ ?ps @ rest)"
    using at by (simp add: delta_bytes_def)
  note at1 = cursor_at_skips(3) [OF at0, simplified]
  note at2 = cursor_at_skips(3) [OF at1, simplified]
  note at3 = cursor_at_skips(3) [OF at2, simplified]
  note at4 = cursor_at_skips(3) [OF at3, simplified]
  note at5 = cursor_at_skips(2) [OF at4, simplified]
  have n: "unat ?n = length (bd_patches d)" using ok by (simp add: delta_ok_def unat_u32_of_nat)
  have "length (bd_patches d) \<le> (length bs - (36 + c)) div 12"
    using cursor_at_length [OF at5] concat_patch_bytes_length [of "bd_patches d"] by simp
  moreover have "decode_patches (length (bd_patches d)) bs (36 + c) =
      Inr (bd_patches d, 36 + c + length ?ps)"
    using decode_patches_at [OF at5 len] ok by (simp add: delta_ok_def)
  ultimately show ?thesis
    using len n unfolding decode_byte_delta_def
    by (simp add: take_delta_u64_at [OF at0] take_delta_u64_at [OF at1] take_delta_u64_at [OF at2]
        take_delta_u64_at [OF at3] take_delta_u32_at [OF at4] delta_bytes_def)
qed

section \<open>Recovery replays a delta\<close>

text \<open>The hash tells the content before a commit from the content after it.\<close>

definition no_collision :: "bytes \<Rightarrow> bytes \<Rightarrow> bool" where
  "no_collision base target \<longleftrightarrow>
     (length base = length target \<and> delta_hash base = delta_hash target \<longrightarrow> base = target)"

definition holds_either :: "file_system \<Rightarrow> file_path \<Rightarrow> bytes \<Rightarrow> bytes \<Rightarrow> bool" where
  "holds_either fs p base target \<longleftrightarrow> fs_read fs p = Inr base \<or> fs_read fs p = Inr target"

definition memo_file_path :: "file_system \<Rightarrow> file_path \<Rightarrow> memo_format \<Rightarrow> file_path" where
  "memo_file_path fs path format =
     (case find_memo_path fs path of Some p \<Rightarrow> p
      | None \<Rightarrow> with_extension path (memo_format_extension format))"

lemma byte_delta_new_fields:
  assumes "byte_delta_new base target = Inr d"
  shows "length base < usize_limit \<and> length target < usize_limit \<and>
    bd_target_length d = word_of_nat (length target) \<and> bd_target_hash d = delta_hash target"
  using assms by (auto simp: byte_delta_new_def Let_def result_simps)

lemma apply_new_either:
  assumes "byte_delta_new base target = Inr d" "no_collision base target"
    and "holds_either fs p base target"
  shows "bindr (fs_read fs p) (\<lambda>bs. bindr (apply_byte_delta bs d label) f) = f target"
proof -
  note d = byte_delta_new_fields [OF assms(1)]
  have "apply_byte_delta base d label = Inr target"
    using apply_new_delta [of base target d label] assms d by (auto simp: no_collision_def)
  moreover have "apply_byte_delta target d label = Inr target"
    using apply_byte_delta_target d by simp
  ultimately show ?thesis using assms(3) by (auto simp: holds_either_def)
qed

definition memo_bytes_of :: "(memo_format \<times> byte_delta) option \<Rightarrow> bytes" where
  "memo_bytes_of m = (case m of None \<Rightarrow> [0] | Some (f, d) \<Rightarrow> [1, memo_format_tag f] @ delta_bytes d)"

lemma decode_delta_payload_at:
  assumes payload: "payload = DELTA_MAGIC @ [DELTA_VERSION] @ delta_bytes d @ memo_bytes_of m"
    and len: "length payload < usize_limit"
    and ok: "delta_ok d" "\<And>f md. m = Some (f, md) \<Longrightarrow> delta_ok md"
  shows "decode_delta_payload fs path payload =
    bindr (fs_read fs path) (\<lambda>current_dbf.
    bindr (apply_byte_delta current_dbf d ''DBF'') (\<lambda>dbf.
    bindr (case m of None \<Rightarrow> Inr None
      | Some (format, md) \<Rightarrow>
          bindr (fs_read fs (memo_file_path fs path format)) (\<lambda>current_memo.
          bindr (apply_byte_delta current_memo md ''memo sidecar'') (\<lambda>bs.
          Inr (Some \<lparr>ms_format = format, ms_bytes = bs\<rparr>)))) (\<lambda>memo.
    Inr (Some \<lparr>rs_dbf = dbf, rs_memo = memo\<rparr>))))"
proof -
  have at0: "cursor_at payload (length DELTA_MAGIC) (DELTA_VERSION # delta_bytes d @ memo_bytes_of m)"
    using cursor_at_append [of DELTA_MAGIC] by (simp add: payload)
  obtain c1 where c1: "take_delta_u8 payload (length DELTA_MAGIC) = Inr (DELTA_VERSION, c1)"
    "cursor_at payload c1 (delta_bytes d @ memo_bytes_of m)"
    using take_delta_u8_at [OF at0 len] cursor_at_skips(1) [OF at0] by blast
  obtain c2 where c2: "decode_byte_delta payload c1 = Inr (d, c2)"
    "cursor_at payload c2 (memo_bytes_of m)"
    using decode_byte_delta_at [OF c1(2) len ok(1)] cursor_at_skip [OF c1(2)] by blast
  show ?thesis
  proof (cases m)
    case None
    then have "cursor_at payload c2 (0 # [])" using c2 by (simp add: memo_bytes_of_def)
    then have "take_delta_u8 payload c2 = Inr (0, length payload)"
      using take_delta_u8_at [OF _ len] cursor_at_skips(1) cursor_at_end by fastforce
    then show ?thesis by (simp add: decode_delta_payload_def c1 c2 None)
  next
    case (Some fm)
    then obtain f md where m: "m = Some (f, md)" by (cases fm) auto
    then have at2: "cursor_at payload c2 (1 # memo_format_tag f # delta_bytes md @ [])"
      using c2 by (simp add: memo_bytes_of_def)
    obtain c3 where c3: "take_delta_u8 payload c2 = Inr (1, c3)"
      "cursor_at payload c3 (memo_format_tag f # delta_bytes md @ [])"
      using take_delta_u8_at [OF at2 len] cursor_at_skips(1) [OF at2] by blast
    obtain c4 where c4: "take_delta_u8 payload c3 = Inr (memo_format_tag f, c4)"
      "cursor_at payload c4 (delta_bytes md @ [])"
      using take_delta_u8_at [OF c3(2) len] cursor_at_skips(1) [OF c3(2)] by blast
    have "decode_byte_delta payload c4 = Inr (md, length payload)"
      using decode_byte_delta_at [OF c4(2) len ok(2) [OF m]] cursor_at_skip [OF c4(2)]
      by (simp add: cursor_at_end)
    then show ?thesis
      by (simp add: decode_delta_payload_def c1 c2 c3 c4 m memo_file_path_def)
  qed
qed

lemma delta_payload_Some:
  assumes "delta_payload (Some src) table path memo full = Inr (Some payload)"
  obtains d m where "byte_delta_new (ps_dbf src) table = Inr d" "delta_ok d"
    and "payload = DELTA_MAGIC @ [DELTA_VERSION] @ delta_bytes d @ memo_bytes_of m"
    and "length payload < full" "ps_path src = path"
    and "case m of None \<Rightarrow> memo = None
      | Some (f, md) \<Rightarrow> delta_ok md \<and> (\<exists>s. memo = Some s \<and> f = ms_format s \<and>
          ps_memo src \<noteq> None \<and> byte_delta_new (the (ps_memo src)) (ms_bytes s) = Inr md)"
proof (cases memo)
  case None
  with assms that [of _ None] show ?thesis
    by (auto simp: delta_payload_def result_simps encode_byte_delta_iff memo_bytes_of_def split: if_splits)
next
  case (Some s)
  with assms obtain d md where "byte_delta_new (ps_dbf src) table = Inr d" "delta_ok d"
    "ps_memo src \<noteq> None" "byte_delta_new (the (ps_memo src)) (ms_bytes s) = Inr md" "delta_ok md"
    "payload = DELTA_MAGIC @ [DELTA_VERSION] @ delta_bytes d @ memo_bytes_of (Some (ms_format s, md))"
    "length payload < full" "ps_path src = path"
    by (auto simp: delta_payload_def result_simps encode_byte_delta_iff memo_bytes_of_def split: if_splits)
  with that [of d "Some (ms_format s, md)"] Some show ?thesis by auto
qed

lemma starts_with_magic [simp]: "starts_with p (p @ bs)"
  by (simp add: starts_with_def)

text \<open>
  C16. A delta and its base rebuild the target.  For every base and target that fit in
  memory a delta exists; applied to the base it gives the target, applied to the
  target it changes nothing.  The one exception is written out: when base and target
  have the same length and the same FNV hash, the base is taken for the target.
\<close>

theorem delta_rebuilds_target:
  assumes "length base < usize_limit" "length target < usize_limit"
  shows "\<exists>d. byte_delta_new base target = Inr d \<and>
    apply_byte_delta base d label =
      Inr (if length base = length target \<and> delta_hash base = delta_hash target then base else target) \<and>
    apply_byte_delta target d label = Inr target"
  using byte_delta_new_ok [OF assms] apply_new_delta [OF assms] apply_byte_delta_target [OF assms(2)]
    byte_delta_new_fields [of base target] by metis

theorem delta_rebuilds_target_witness:
  "\<exists>d. byte_delta_new [1, 2, 3, 4] [1, 9, 3] = Inr d \<and>
     apply_byte_delta [1, 2, 3, 4] d ''DBF'' = Inr [1, 9, 3] \<and>
     apply_byte_delta [1, 9, 3] d ''DBF'' = Inr [1, 9, 3]"
  using delta_rebuilds_target [of "[1, 2, 3, 4]" "[1, 9, 3]" "''DBF''"]
  by (simp add: usize_limit_def)

text \<open>
  C15. Replaying a delta record recovers the committed state whether or not the crash hit
  before the files were rewritten.  When the log holds the payload that \<open>delta_payload\<close>
  made for a table, and each of the two files on disk holds either the bytes it had
  when the table was loaded or the bytes being committed, decoding the record gives
  exactly the committed table bytes and the committed sidecar.  The code recognises the
  content of a file by its length and its 64-bit hash, so this excludes two different
  contents, before and after, of equal length and equal hash.
\<close>

theorem delta_record_recovers:
  assumes "delta_payload (Some src) table path memo full = Inr (Some payload)"
    and "length payload < usize_limit"
    and "holds_either fs path (ps_dbf src) table" "no_collision (ps_dbf src) table"
    and "\<And>m base. memo = Some m \<Longrightarrow> ps_memo src = Some base \<Longrightarrow>
      holds_either fs (memo_file_path fs path (ms_format m)) base (ms_bytes m) \<and>
      no_collision base (ms_bytes m)"
  shows "decode_wal_payload from_slice fs path payload =
    Inr (Some \<lparr>rs_dbf = table, rs_memo = memo\<rparr>)"
proof -
  obtain d m where d: "byte_delta_new (ps_dbf src) table = Inr d" "delta_ok d"
    and p: "payload = DELTA_MAGIC @ [DELTA_VERSION] @ delta_bytes d @ memo_bytes_of m"
    and m: "case m of None \<Rightarrow> memo = None
      | Some (f, md) \<Rightarrow> delta_ok md \<and> (\<exists>s. memo = Some s \<and> f = ms_format s \<and>
          ps_memo src \<noteq> None \<and> byte_delta_new (the (ps_memo src)) (ms_bytes s) = Inr md)"
    by (rule delta_payload_Some [OF assms(1)]) blast
  have mok: "\<And>f md. m = Some (f, md) \<Longrightarrow> delta_ok md" using m by simp
  have "decode_wal_payload from_slice fs path payload = decode_delta_payload fs path payload"
    by (simp add: decode_wal_payload_def p)
  also have "\<dots> = bindr (case m of None \<Rightarrow> Inr None
      | Some (format, md) \<Rightarrow>
          bindr (fs_read fs (memo_file_path fs path format)) (\<lambda>current_memo.
          bindr (apply_byte_delta current_memo md ''memo sidecar'') (\<lambda>bs.
          Inr (Some \<lparr>ms_format = format, ms_bytes = bs\<rparr>)))) (\<lambda>memo.
    Inr (Some \<lparr>rs_dbf = table, rs_memo = memo\<rparr>))"
    by (rule trans [OF decode_delta_payload_at [OF p assms(2) d(2)]
          apply_new_either [OF d(1) assms(4,3)]]) (rule mok)
  also have "\<dots> = Inr (Some \<lparr>rs_dbf = table, rs_memo = memo\<rparr>)"
  proof (cases m)
    case None
    with m show ?thesis by simp
  next
    case (Some fm)
    then obtain f md s base where m': "m = Some (f, md)" "memo = Some s" "f = ms_format s"
      "ps_memo src = Some base" "byte_delta_new base (ms_bytes s) = Inr md"
      using m by (cases fm) auto
    with assms(5) show ?thesis by (simp add: apply_new_either)
  qed
  finally show ?thesis .
qed

theorem delta_record_recovers_witness:
  "\<exists>payload.
     let path = \<lparr>fp_dir = ''d'', fp_stem = ''t'', fp_ext = Some ''dbf''\<rparr>;
         fs = \<lparr>fs_entries = [(path, Some [1, 2, 3])], fs_dirs = []\<rparr>;
         src = \<lparr>ps_path = path, ps_dbf = [1, 2, 3], ps_memo = None, ps_schema = None,
                ps_transaction_id = None\<rparr>
     in delta_payload (Some src) [1, 9, 3, 4] path None 100 = Inr (Some payload) \<and>
        decode_wal_payload (\<lambda>bs. Inr bs) fs path payload =
          Inr (Some \<lparr>rs_dbf = [1, 9, 3, 4], rs_memo = None\<rparr>)"
proof -
  let ?path = "\<lparr>fp_dir = ''d'', fp_stem = ''t'', fp_ext = Some ''dbf''\<rparr>"
  let ?fs = "\<lparr>fs_entries = [(?path, Some [1, 2, 3])], fs_dirs = []\<rparr>"
  let ?src = "\<lparr>ps_path = ?path, ps_dbf = [1, 2, 3], ps_memo = None, ps_schema = None,
                ps_transaction_id = None\<rparr>"
  let ?d = "\<lparr>bd_base_length = 3, bd_target_length = 4,
    bd_base_hash = delta_hash [1, 2, 3], bd_target_hash = delta_hash [1, 9, 3, 4],
    bd_patches = [\<lparr>bp_offset = 1, bp_bytes = [9]\<rparr>, \<lparr>bp_offset = 3, bp_bytes = [4]\<rparr>]\<rparr>"
  let ?payload = "DELTA_MAGIC @ [DELTA_VERSION] @ delta_bytes ?d @ [0]"
  have "diff_patches [1, 2, 3] [1, 9, 3, 4] 3 0 = [\<lparr>bp_offset = 1, bp_bytes = [9]\<rparr>]" by code_simp
  then have new: "byte_delta_new [1, 2, 3] [1, 9, 3, 4] = Inr ?d"
    by (simp add: byte_delta_new_def u64_try_from_def Let_def numeral_3_eq_3)
  have p: "delta_payload (Some ?src) [1, 9, 3, 4] ?path None 100 = Inr (Some ?payload)"
    by (simp add: delta_payload_def new encode_byte_delta_def u64_try_from_def u32_try_from_def
        delta_bytes_def patch_bytes_def magic_defs)
  have len: "length ?payload < usize_limit"
    by (simp add: delta_bytes_def patch_bytes_def magic_defs usize_limit_def)
  have "holds_either ?fs ?path (ps_dbf ?src) [1, 9, 3, 4]"
    by (simp add: holds_either_def fs_read_def)
  moreover have "no_collision (ps_dbf ?src) [1, 9, 3, 4]" by (simp add: no_collision_def)
  ultimately have "decode_wal_payload (\<lambda>bs. Inr bs) ?fs ?path ?payload =
      Inr (Some \<lparr>rs_dbf = [1, 9, 3, 4], rs_memo = None\<rparr>)"
    by (rule delta_record_recovers [OF p len]) simp
  with p show ?thesis unfolding Let_def by blast
qed

lemma memo_header_range:
  "get_range ((t # u64_to_le a @ u64_to_le b) @ rest) 0 17 = Some (t # u64_to_le a @ u64_to_le b)"
  by (simp add: get_range_def subslice_def)

lemma memo_header_fields:
  "(t # u64_to_le a @ u64_to_le b) ! 0 = t"
  "subslice 1 9 (t # u64_to_le a @ u64_to_le b) = u64_to_le a"
  "subslice 9 17 (t # u64_to_le a @ u64_to_le b) = u64_to_le b"
  by (simp_all add: subslice_def)

lemma length_magic [simp]:
  "length SNAPSHOT_MAGIC = 4" "length MEMO_SNAPSHOT_MAGIC = 4" "length DELTA_MAGIC = 4"
  "length OPERATION_MAGIC = 4" "length TRANSACTION_ID_MAGIC = 4" "length LAYOUT_CHANGE_MAGIC = 4"
  by (simp_all add: magic_defs)

text \<open>
  C20. Full snapshots survive the log: decoding the record of a table snapshot, or of a
  table with its sidecar, gives back exactly the bytes that were stored, independently
  of what the files on disk hold.
\<close>

theorem snapshot_records_recover:
  assumes "length dbf < usize_limit"
    and "memo_snapshot_payload dbf memo = Inr payload" "length payload < usize_limit"
  shows "decode_wal_payload from_slice fs path (snapshot_payload dbf) =
      Inr (Some \<lparr>rs_dbf = dbf, rs_memo = None\<rparr>) \<and>
    decode_wal_payload from_slice fs path payload =
      Inr (Some \<lparr>rs_dbf = dbf, rs_memo = Some memo\<rparr>)"
proof -
  let ?dl = "word_of_nat (length dbf) :: u64" and ?ml = "word_of_nat (length (ms_bytes memo)) :: u64"
  let ?h = "memo_format_tag (ms_format memo) # u64_to_le ?dl @ u64_to_le ?ml"
  let ?body = "?h @ dbf @ ms_bytes memo"
  have p: "payload = MEMO_SNAPSHOT_MAGIC @ ?body"
    using assms(2) by (auto simp: memo_snapshot_payload_def result_simps)
  then have len: "17 + length dbf + length (ms_bytes memo) < usize_limit" using assms(3) by simp
  then have lens: "unat ?dl = length dbf" "unat ?ml = length (ms_bytes memo)"
    by (auto intro!: unat_u64_of_nat)
  have a: "checked_add 17 (length dbf) = Some (17 + length dbf)"
    "checked_add (17 + length dbf) (length (ms_bytes memo)) = Some (17 + length dbf + length (ms_bytes memo))"
    using len by (simp_all add: checked_add_def)
  have s: "subslice 17 (17 + length dbf) ?body = dbf"
    "subslice (17 + length dbf) (17 + length dbf + length (ms_bytes memo)) ?body = ms_bytes memo"
    using subslice_append_mid' [of ?h 17 _ dbf "ms_bytes memo"]
      subslice_append_mid' [of "?h @ dbf" "17 + length dbf" _ "ms_bytes memo" "[]"] by simp_all
  have "strip_prefix SNAPSHOT_MAGIC payload = None"
    by (simp add: p strip_prefix_def magic_defs)
  then have "decode_snapshot payload = Inr (Some \<lparr>rs_dbf = dbf, rs_memo = Some memo\<rparr>)"
    unfolding decode_snapshot_def p strip_prefix_append
    by (simp only: option.case memo_header_range memo_header_fields ok_or_simps bindr_simps Let_def
        memo_format_from_tag u64_from_to_le lens a s) simp
  moreover have "decode_wal_payload from_slice fs path payload = decode_snapshot payload"
    by (simp add: decode_wal_payload_def starts_with_def p magic_defs)
  moreover have "decode_wal_payload from_slice fs path (snapshot_payload dbf) =
      Inr (Some \<lparr>rs_dbf = dbf, rs_memo = None\<rparr>)"
    by (simp add: decode_wal_payload_def snapshot_payload_def starts_with_def magic_defs
        decode_snapshot_def strip_prefix_def)
  ultimately show ?thesis by simp
qed

theorem snapshot_records_recover_witness:
  "\<exists>payload fs path. memo_snapshot_payload [1, 2] \<lparr>ms_format = FoxPro, ms_bytes = [3]\<rparr> = Inr payload \<and>
     decode_wal_payload (\<lambda>bs. Inr bs) fs path payload =
       Inr (Some \<lparr>rs_dbf = [1, 2], rs_memo = Some \<lparr>ms_format = FoxPro, ms_bytes = [3]\<rparr>\<rparr>)"
proof -
  have "\<exists>payload. memo_snapshot_payload [1, 2] \<lparr>ms_format = FoxPro, ms_bytes = [3]\<rparr> = Inr payload \<and>
      length payload < usize_limit"
    by (simp add: memo_snapshot_payload_def u64_try_from_def magic_defs usize_limit_def)
  then obtain payload where
    p: "memo_snapshot_payload [1, 2] \<lparr>ms_format = FoxPro, ms_bytes = [3]\<rparr> = Inr payload"
      "length payload < usize_limit" by blast
  have "length ([1, 2] :: bytes) < usize_limit" by (simp add: usize_limit_def)
  from snapshot_records_recover [OF this p] p show ?thesis by blast
qed

text \<open>
  C21. The marker records of a commit are read back as written and never taken for one
  another: an operation record gives back the operation (when \<open>from_slice\<close> reads back what
  \<open>to_vec\<close> wrote for it), a transaction-id record its id, with 0 refused, a layout-change record
  its flag; recovery skips all three, and each of the three decoders passes over the records of
  the other two.
\<close>

theorem marker_records_roundtrip:
  assumes serde: "\<And>body. to_vec operation = Inr body \<Longrightarrow> from_slice body = Inr operation"
    and op: "operation_payload to_vec operation = Inr payload"
  shows "decode_operation_payload from_slice payload = Inr (Some operation) \<and>
    decode_wal_payload from_slice fs path payload = Inr None \<and>
    decode_transaction_id_payload payload = Inr None \<and>
    decode_layout_change_payload payload = Inr None \<and>
    decode_transaction_id_payload (transaction_id_payload i) =
      (if i = 0 then Inl (Dbf_invalid ''transaction ID WAL payload must be positive'') else Inr (Some i)) \<and>
    decode_operation_payload from_slice (transaction_id_payload i) = Inr None \<and>
    decode_layout_change_payload (transaction_id_payload i) = Inr None \<and>
    (i \<noteq> 0 \<longrightarrow> decode_wal_payload from_slice fs path (transaction_id_payload i) = Inr None) \<and>
    decode_layout_change_payload layout_change_payload = Inr (Some True) \<and>
    decode_operation_payload from_slice layout_change_payload = Inr None \<and>
    decode_transaction_id_payload layout_change_payload = Inr None \<and>
    decode_wal_payload from_slice fs path layout_change_payload = Inr None"
proof -
  obtain body where b: "to_vec operation = Inr body" "length body < 2 ^ 32"
    and p: "payload = OPERATION_MAGIC @ [OPERATION_VERSION] @ u32_to_le (word_of_nat (length body)) @ body"
    using op by (auto simp: operation_payload_def result_simps split: sum.splits)
  have "get_range (OPERATION_VERSION # u32_to_le (word_of_nat (length body)) @ body) 1 5 =
      Some (u32_to_le (word_of_nat (length body)))"
    by (simp add: get_range_def subslice_def)
  then have o: "decode_operation_payload from_slice payload = Inr (Some operation)"
    using b serde by (simp add: decode_operation_payload_def p unat_u32_of_nat)
  have t: "decode_transaction_id_payload (transaction_id_payload i) =
      (if i = 0 then Inl (Dbf_invalid ''transaction ID WAL payload must be positive'') else Inr (Some i))"
    by (simp add: decode_transaction_id_payload_def transaction_id_payload_def subslice_def Let_def)
  have l: "decode_layout_change_payload layout_change_payload = Inr (Some True)"
    by (simp add: decode_layout_change_payload_def layout_change_payload_def)
  have w: "decode_wal_payload from_slice fs path payload = Inr None"
    using o by (simp add: decode_wal_payload_def starts_with_def p magic_defs)
  have wt: "decode_wal_payload from_slice fs path (transaction_id_payload i) = Inr None" if "i \<noteq> 0"
    using t that
    by (simp add: decode_wal_payload_def starts_with_def transaction_id_payload_def magic_defs)
  have wl: "decode_wal_payload from_slice fs path layout_change_payload = Inr None"
    using l by (simp add: decode_wal_payload_def starts_with_def layout_change_payload_def magic_defs)
  have "decode_transaction_id_payload payload = Inr None" "decode_layout_change_payload payload = Inr None"
    "decode_operation_payload from_slice (transaction_id_payload i) = Inr None"
    "decode_layout_change_payload (transaction_id_payload i) = Inr None"
    "decode_operation_payload from_slice layout_change_payload = Inr None"
    "decode_transaction_id_payload layout_change_payload = Inr None"
    by (simp_all add: p decode_transaction_id_payload_def decode_layout_change_payload_def
        decode_operation_payload_def transaction_id_payload_def layout_change_payload_def strip_prefix_def magic_defs)
  with o t l w wt wl show ?thesis by simp
qed

theorem marker_records_roundtrip_witness:
  "\<exists>payload. operation_payload (\<lambda>op. Inr [op]) 7 = Inr payload \<and>
     decode_operation_payload (\<lambda>bs. if bs = [] then Inl ''empty'' else Inr (hd bs)) payload = Inr (Some 7)"
proof -
  let ?payload = "OPERATION_MAGIC @ [OPERATION_VERSION] @ u32_to_le 1 @ [7]"
  let ?from = "\<lambda>bs. if bs = [] then Inl ''empty'' else (Inr (hd bs) :: (string, u8) result)"
  have p: "operation_payload (\<lambda>op. Inr [op]) 7 = Inr ?payload"
    by (simp add: operation_payload_def u32_try_from_def)
  have "?from body = Inr 7" if "Inr [7] = (Inr body :: (string, bytes) result)" for body
    using that by auto
  from conjunct1 [OF marker_records_roundtrip [of "\<lambda>op. Inr [op]" 7 ?from, OF this p]] p
  show ?thesis by (intro exI [of _ ?payload] conjI)
qed

end
