(* ===== verification/Rust_Text.thy ===== *)
theory Rust_Text
  imports Base
begin

text \<open>
  The parts of Rust's text library the program relies on, on byte sequences: UTF-8
  validity (\<open>str::from_utf8\<close>), trimming, the parsing and printing of decimal numbers,
  and hexadecimal text.
\<close>

definition utf8_cont :: "u8 \<Rightarrow> bool" where
  "utf8_cont b \<longleftrightarrow> 0x80 \<le> b \<and> b \<le> 0xBF"

definition utf8_second :: "u8 \<Rightarrow> u8 \<Rightarrow> bool" where
  "utf8_second a b \<longleftrightarrow>
     (if a = 0xE0 then 0xA0 \<le> b \<and> b \<le> 0xBF
      else if a = 0xED then 0x80 \<le> b \<and> b \<le> 0x9F
      else if a = 0xF0 then 0x90 \<le> b \<and> b \<le> 0xBF
      else if a = 0xF4 then 0x80 \<le> b \<and> b \<le> 0x8F
      else utf8_cont b)"

definition utf8_width :: "u8 \<Rightarrow> nat" where
  "utf8_width a =
     (if a < 0x80 then 1
      else if 0xC2 \<le> a \<and> a \<le> 0xDF then 2
      else if 0xE0 \<le> a \<and> a \<le> 0xEF then 3
      else if 0xF0 \<le> a \<and> a \<le> 0xF4 then 4
      else 0)"

fun valid_utf8 :: "bytes \<Rightarrow> bool" where
  "valid_utf8 [] = True"
| "valid_utf8 (a # bs) =
     (if utf8_width a = 1 then valid_utf8 bs
      else if utf8_width a = 2 then
        (case bs of b # r \<Rightarrow> utf8_cont b \<and> valid_utf8 r | _ \<Rightarrow> False)
      else if utf8_width a = 3 then
        (case bs of b # c # r \<Rightarrow> utf8_second a b \<and> utf8_cont c \<and> valid_utf8 r | _ \<Rightarrow> False)
      else if utf8_width a = 4 then
        (case bs of b # c # d # r \<Rightarrow>
           utf8_second a b \<and> utf8_cont c \<and> utf8_cont d \<and> valid_utf8 r | _ \<Rightarrow> False)
      else False)"

definition from_utf8 :: "bytes \<Rightarrow> string option" where
  "from_utf8 bs = (if valid_utf8 bs then Some (bytes_string bs) else None)"

definition trim_matches :: "('a \<Rightarrow> bool) \<Rightarrow> 'a list \<Rightarrow> 'a list" where
  "trim_matches P xs = rev (dropWhile P (rev (dropWhile P xs)))"

definition is_ascii_digit :: "u8 \<Rightarrow> bool" where
  "is_ascii_digit b \<longleftrightarrow> 0x30 \<le> b \<and> b \<le> 0x39"

definition decimal_bytes :: "nat \<Rightarrow> bytes" where
  "decimal_bytes n = map (\<lambda>d. 0x30 + word_of_nat d) (decimal n)"

definition parse_nat_bytes :: "bytes \<Rightarrow> nat option" where
  "parse_nat_bytes bs =
     (let ds = (case bs of b # r \<Rightarrow> if b = 0x2B \<and> r \<noteq> [] then r else bs | [] \<Rightarrow> [])
      in if ds = [] \<or> \<not> list_all is_ascii_digit ds then None
         else Some (undecimal (map (\<lambda>b. unat b - 48) ds)))"

definition parse_u32 :: "bytes \<Rightarrow> u32 option" where
  "parse_u32 bs = Option.bind (parse_nat_bytes bs) u32_try_from"

definition hex_digit :: "u8 \<Rightarrow> u8 option" where
  "hex_digit b =
     (if 0x30 \<le> b \<and> b \<le> 0x39 then Some (b - 0x30)
      else if 0x61 \<le> b \<and> b \<le> 0x66 then Some (b - 0x61 + 10)
      else if 0x41 \<le> b \<and> b \<le> 0x46 then Some (b - 0x41 + 10)
      else None)"

definition hex_char :: "nat \<Rightarrow> u8" where
  "hex_char n = (if n < 10 then 0x30 + word_of_nat n else 0x61 + word_of_nat (n - 10))"

definition hex_bytes :: "bytes \<Rightarrow> bytes" where
  "hex_bytes bs = concat (map (\<lambda>b. [hex_char (unat b div 16), hex_char (unat b mod 16)]) bs)"

section \<open>Lemmas\<close>

lemma valid_utf8_ascii: "list_all (\<lambda>b. b < 0x80) bs \<Longrightarrow> valid_utf8 bs"
  by (induction bs) (auto simp: utf8_width_def)

lemma digit_byte:
  assumes "d < 10"
  shows "is_ascii_digit (0x30 + word_of_nat d)" "unat (0x30 + word_of_nat d :: u8) = 48 + d"
proof -
  have "unat (word_of_nat d :: u8) = d" using assms by (simp add: unat_of_nat)
  then have "unat (0x30 + word_of_nat d :: u8) = 48 + d"
    using assms by (simp add: unat_word_ariths)
  then show "unat (0x30 + word_of_nat d :: u8) = 48 + d" .
  with assms show "is_ascii_digit (0x30 + word_of_nat d)"
    by (simp add: is_ascii_digit_def word_le_nat_alt)
qed

lemma decimal_bytes_digits: "list_all is_ascii_digit (decimal_bytes n)"
  using decimal_digits [of _ n] by (auto simp: decimal_bytes_def list_all_iff digit_byte)

lemma decimal_bytes_not_Nil [simp]: "decimal_bytes n \<noteq> []"
  by (simp add: decimal_bytes_def)

lemma decimal_bytes_values: "map (\<lambda>b. unat b - 48) (decimal_bytes n) = decimal n"
  using decimal_digits [of _ n] by (auto simp: decimal_bytes_def digit_byte comp_def intro!: map_idI)

lemma parse_decimal_bytes [simp]: "parse_nat_bytes (decimal_bytes n) = Some n"
proof (cases "decimal_bytes n")
  case Nil
  then show ?thesis by simp
next
  case (Cons b r)
  then have "is_ascii_digit b" using decimal_bytes_digits [of n] by simp
  then have "b \<noteq> 0x2B" by (auto simp: is_ascii_digit_def)
  then show ?thesis
    using Cons decimal_bytes_digits [of n] decimal_bytes_values [of n]
    by (simp add: parse_nat_bytes_def)
qed

lemma parse_u32_decimal: "n < 2 ^ 32 \<Longrightarrow> parse_u32 (decimal_bytes n) = Some (word_of_nat n)"
  by (simp add: parse_u32_def u32_try_from_def)

lemma hex_digit_char:
  assumes "n < 16"
  shows "hex_digit (hex_char n) = Some (word_of_nat n)"
proof -
  have "n \<in> set [0..<16]" using assms by simp
  moreover have "\<forall>n \<in> set [0..<16]. hex_digit (hex_char n) = Some (word_of_nat n)"
    by (simp add: upt_conv_Cons hex_digit_def hex_char_def del: upt_Suc)
  ultimately show ?thesis by blast
qed

section \<open>Whitespace\<close>

text \<open>
  \<open>str::trim\<close> removes the characters with the Unicode property \<open>White_Space\<close> from both
  ends; these are their UTF-8 encodings.
\<close>

definition whitespace_encodings :: "bytes list" where
  "whitespace_encodings =
     [[0x09], [0x0A], [0x0B], [0x0C], [0x0D], [0x20], [0xC2, 0x85], [0xC2, 0xA0], [0xE1, 0x9A, 0x80],
      [0xE2, 0x80, 0x80], [0xE2, 0x80, 0x81], [0xE2, 0x80, 0x82], [0xE2, 0x80, 0x83], [0xE2, 0x80, 0x84],
      [0xE2, 0x80, 0x85], [0xE2, 0x80, 0x86], [0xE2, 0x80, 0x87], [0xE2, 0x80, 0x88], [0xE2, 0x80, 0x89],
      [0xE2, 0x80, 0x8A], [0xE2, 0x80, 0xA8], [0xE2, 0x80, 0xA9], [0xE2, 0x80, 0xAF], [0xE2, 0x81, 0x9F],
      [0xE3, 0x80, 0x80]]"

fun strip_first :: "bytes list \<Rightarrow> bytes \<Rightarrow> bytes option" where
  "strip_first [] bs = None"
| "strip_first (w # ws) bs = (case strip_prefix w bs of Some r \<Rightarrow> Some r | None \<Rightarrow> strip_first ws bs)"

lemma strip_first_shorter:
  "strip_first ws bs = Some r \<Longrightarrow> [] \<notin> set ws \<Longrightarrow> length r < length bs"
  by (induction ws bs rule: strip_first.induct) (auto simp: strip_prefix_Some_iff split: option.splits)

function strip_all :: "bytes list \<Rightarrow> bytes \<Rightarrow> bytes" where
  "strip_all ws bs =
     (if [] \<in> set ws then bs else case strip_first ws bs of None \<Rightarrow> bs | Some r \<Rightarrow> strip_all ws r)"
  by pat_completeness auto
termination
  by (relation "measure (\<lambda>(ws, bs). length bs)") (auto dest: strip_first_shorter)

declare strip_all.simps [simp del]

definition trim_bytes :: "bytes \<Rightarrow> bytes" where
  "trim_bytes bs =
     rev (strip_all (map rev whitespace_encodings) (rev (strip_all whitespace_encodings bs)))"

definition trim :: "string \<Rightarrow> string" where
  "trim s = bytes_string (trim_bytes (string_bytes s))"

definition is_ascii_graphic :: "u8 \<Rightarrow> bool" where
  "is_ascii_graphic b \<longleftrightarrow> 0x20 < b \<and> b < 0x80"

lemma strip_first_None:
  "(\<And>w. w \<in> set ws \<Longrightarrow> w \<noteq> [] \<and> hd w \<noteq> b) \<Longrightarrow> strip_first ws (b # bs) = None"
proof (induction ws)
  case (Cons w ws)
  obtain c cs where "w = c # cs" "c \<noteq> b" using Cons.prems [of w] by (cases w) auto
  moreover have "strip_first ws (b # bs) = None" using Cons.prems by (intro Cons.IH) auto
  ultimately show ?case by (simp add: strip_prefix_def)
qed simp

lemma strip_all_graphic:
  assumes "is_ascii_graphic b"
  shows "strip_all whitespace_encodings (b # bs) = b # bs"
    "strip_all (map rev whitespace_encodings) (b # bs) = b # bs"
proof -
  have "w \<noteq> [] \<and> hd w \<noteq> b" if "w \<in> set whitespace_encodings \<union> set (map rev whitespace_encodings)" for w
    using assms that by (auto simp: whitespace_encodings_def is_ascii_graphic_def)
  then have "strip_first whitespace_encodings (b # bs) = None"
    "strip_first (map rev whitespace_encodings) (b # bs) = None"
    by (intro strip_first_None; blast)+
  then show "strip_all whitespace_encodings (b # bs) = b # bs"
    "strip_all (map rev whitespace_encodings) (b # bs) = b # bs"
    by (simp_all add: strip_all.simps)
qed

lemma strip_all_Nil: "strip_all ws [] = []"
proof (cases "[] \<in> set ws")
  case False
  then have "strip_first ws [] = None"
    by (induction ws) (auto simp: strip_prefix_def split: option.splits)
  then show ?thesis by (simp add: strip_all.simps)
qed (simp add: strip_all.simps)

lemma trim_bytes_graphic:
  assumes "list_all is_ascii_graphic bs"
  shows "trim_bytes bs = bs"
proof (cases bs rule: rev_cases)
  case Nil
  then show ?thesis by (simp add: trim_bytes_def strip_all_Nil)
next
  case (snoc cs b)
  have "strip_all whitespace_encodings bs = bs" using assms strip_all_graphic(1) by (cases bs) (auto simp: strip_all_Nil)
  then show ?thesis using snoc assms by (simp add: trim_bytes_def strip_all_graphic(2))
qed

lemma digit_graphic: "is_ascii_digit b \<Longrightarrow> is_ascii_graphic b"
  by (auto simp: is_ascii_digit_def is_ascii_graphic_def word_le_nat_alt word_less_nat_alt)

section \<open>Decimal text of fixed width\<close>

definition digits_value :: "bytes \<Rightarrow> nat" where
  "digits_value bs = undecimal (map (\<lambda>b. unat b - 48) bs)"

definition parse_digits :: "bytes \<Rightarrow> nat option" where
  "parse_digits bs = (if bs \<noteq> [] \<and> list_all is_ascii_digit bs then Some (digits_value bs) else None)"

definition show_padded :: "nat \<Rightarrow> nat \<Rightarrow> string" where
  "show_padded w n = bytes_string (replicate (w - length (decimal n)) 0x30 @ decimal_bytes n)"

lemma length_decimal_le: "0 < k \<Longrightarrow> length (decimal n) \<le> k \<longleftrightarrow> n < 10 ^ k"
proof (induction n arbitrary: k rule: decimal.induct)
  case (1 n)
  show ?case
  proof (cases "n < 10")
    case True
    have "10 ^ 1 \<le> (10 ^ k :: nat)" using \<open>0 < k\<close> by (intro power_increasing) simp_all
    with True have "n < 10 ^ k" by simp
    with True \<open>0 < k\<close> show ?thesis by (subst decimal.simps) simp
  next
    case False
    show ?thesis
    proof (cases "k = 1")
      case True
      with False show ?thesis by (subst decimal.simps) simp
    next
      case k: False
      then obtain j where j: "k = Suc j" "0 < j" using \<open>0 < k\<close> by (cases k) auto
      have "length (decimal n) = Suc (length (decimal (n div 10)))" using False by (subst decimal.simps) simp
      moreover have "n div 10 < 10 ^ j \<longleftrightarrow> n < 10 ^ k" by (simp add: j(1) div_less_iff_less_mult mult.commute)
      ultimately show ?thesis using 1(1) [OF False j(2)] j(1) by simp
    qed
  qed
qed

lemma undecimal_zeros [simp]: "undecimal (replicate k 0 @ ds) = undecimal ds"
  by (induction k) (simp_all add: undecimal_def)

lemma digits_value_padded [simp]: "digits_value (replicate k 0x30 @ decimal_bytes n) = n"
  by (simp add: digits_value_def decimal_bytes_values)

lemma show_padded_digits: "list_all is_ascii_digit (string_bytes (show_padded w n))"
  using decimal_bytes_digits [of n] by (auto simp: show_padded_def list_all_iff is_ascii_digit_def)

lemma length_show_padded: "0 < w \<Longrightarrow> n < 10 ^ w \<Longrightarrow> length (show_padded w n) = w"
  using length_decimal_le [of w n] by (simp add: show_padded_def bytes_string_def decimal_bytes_def)

lemma parse_show_padded [simp]: "parse_digits (string_bytes (show_padded w n)) = Some n"
  using show_padded_digits [of w n] by (simp add: parse_digits_def) (simp add: show_padded_def)

lemma undecimal_less: "list_all (\<lambda>d. d < 10) ds \<Longrightarrow> undecimal ds < 10 ^ length ds"
  by (induction ds rule: rev_induct) (auto simp: undecimal_def)

lemma digit_value_less: "is_ascii_digit b \<Longrightarrow> unat b - 48 < 10"
  by (auto simp: is_ascii_digit_def word_le_nat_alt)

lemma digits_value_less: "list_all is_ascii_digit bs \<Longrightarrow> digits_value bs < 10 ^ length bs"
  using undecimal_less [of "map (\<lambda>b. unat b - 48) bs"] digit_value_less
  by (auto simp: digits_value_def list_all_iff)

section \<open>Splitting\<close>

text \<open>\<open>str::split\<close> on one character; \<open>first_char\<close> is the text of the first character.\<close>

fun split_on :: "'a \<Rightarrow> 'a list \<Rightarrow> 'a list list" where
  "split_on c [] = [[]]"
| "split_on c (b # bs) =
     (if b = c then [] # split_on c bs
      else case split_on c bs of p # ps \<Rightarrow> (b # p) # ps | [] \<Rightarrow> [[b]])"

definition first_char :: "string \<Rightarrow> string" where
  "first_char s = (case s of [] \<Rightarrow> [] | c # _ \<Rightarrow> take (max 1 (utf8_width (word_of_nat (of_char c)))) s)"

lemma split_on_one:
  assumes "c \<notin> set a" "c \<notin> set b"
  shows "split_on c (a @ c # b) = [a, b]"
proof -
  have "split_on c b = [b]" using assms(2) by (induction b) auto
  then show ?thesis using assms(1) by (induction a) auto
qed

end
