(* ===== verification/Code_Pages.thy ===== *)
theory Code_Pages
  imports Rust_Text "HOL-Library.Char_ord"
begin

text \<open>
  Character sets: Unicode scalar values and UTF-8 (\<open>str::chars\<close>, \<open>String::from_utf8_lossy\<close>), the
  single-byte code pages of \<^verbatim>\<open>src/src/dbf/codepages.rs\<close> and the names of encodings of
  \<^verbatim>\<open>src/src/dbf/codec.rs\<close>.  Characters are their scalar values.
\<close>

section \<open>Characters of a text\<close>

definition byte :: "nat \<Rightarrow> u8" where
  "byte n = word_of_nat n"

definition utf8_char :: "nat \<Rightarrow> bytes" where
  "utf8_char c =
     (if c < 0x80 then [byte c]
      else if c < 0x800 then [byte (0xC0 + c div 64), byte (0x80 + c mod 64)]
      else if c < 0x10000 then
        [byte (0xE0 + c div 4096), byte (0x80 + c div 64 mod 64), byte (0x80 + c mod 64)]
      else
        [byte (0xF0 + c div 262144), byte (0x80 + c div 4096 mod 64), byte (0x80 + c div 64 mod 64),
         byte (0x80 + c mod 64)])"

definition utf8_text :: "nat list \<Rightarrow> bytes" where
  "utf8_text cs = concat (map utf8_char cs)"

definition scalar_value :: "nat \<Rightarrow> bool" where
  "scalar_value c \<longleftrightarrow> c < 0xD800 \<or> 0xE000 \<le> c \<and> c < 0x110000"

fun utf8_chars :: "bytes \<Rightarrow> nat list" where
  "utf8_chars [] = []"
| "utf8_chars (a # bs) =
     (if utf8_width a \<le> 1 then unat a # utf8_chars bs
      else if utf8_width a = 2 then
        (case bs of b # r \<Rightarrow> ((unat a - 0xC0) * 64 + (unat b - 0x80)) # utf8_chars r | _ \<Rightarrow> [])
      else if utf8_width a = 3 then
        (case bs of
           b # c # r \<Rightarrow> ((unat a - 0xE0) * 4096 + (unat b - 0x80) * 64 + (unat c - 0x80)) # utf8_chars r
         | _ \<Rightarrow> [])
      else
        (case bs of
           b # c # d # r \<Rightarrow>
             ((unat a - 0xF0) * 262144 + (unat b - 0x80) * 4096 + (unat c - 0x80) * 64 + (unat d - 0x80)) # utf8_chars r
         | _ \<Rightarrow> []))"

definition text_chars :: "string \<Rightarrow> nat list" where
  "text_chars s = utf8_chars (string_bytes s)"

definition chars_text :: "nat list \<Rightarrow> string" where
  "chars_text cs = bytes_string (utf8_text cs)"

text \<open>
  \<open>String::from_utf8_lossy\<close>: every longest prefix of a character that is cut short by another
  byte, and every byte that starts none, becomes one replacement character.
\<close>

definition REPLACEMENT :: nat where "REPLACEMENT = 0xFFFD"

definition utf8_run :: "u8 \<Rightarrow> bytes \<Rightarrow> nat" where
  "utf8_run a r =
     (if utf8_width a \<le> 1 \<or> r = [] \<or> \<not> utf8_second a (hd r) then 0
      else length (takeWhile utf8_cont (take (utf8_width a - 1) r)))"

function (sequential) utf8_lossy :: "bytes \<Rightarrow> bytes" where
  "utf8_lossy [] = []"
| "utf8_lossy (a # r) =
     (if utf8_width a = Suc (utf8_run a r) then a # take (utf8_run a r) r else utf8_char REPLACEMENT) @
     utf8_lossy (drop (utf8_run a r) r)"
  by pat_completeness auto
termination
  by (relation "measure length") simp_all

section \<open>Code pages\<close>

definition CP437_UPPER :: "nat list" where
  "CP437_UPPER =
    [0xC7, 0xFC, 0xE9, 0xE2, 0xE4, 0xE0, 0xE5, 0xE7, 0xEA, 0xEB, 0xE8, 0xEF, 0xEE, 0xEC, 0xC4, 0xC5, 0xC9, 0xE6,
     0xC6, 0xF4, 0xF6, 0xF2, 0xFB, 0xF9, 0xFF, 0xD6, 0xDC, 0xA2, 0xA3, 0xA5, 0x20A7, 0x192, 0xE1, 0xED, 0xF3, 0xFA,
     0xF1, 0xD1, 0xAA, 0xBA, 0xBF, 0x2310, 0xAC, 0xBD, 0xBC, 0xA1, 0xAB, 0xBB, 0x2591, 0x2592, 0x2593, 0x2502,
     0x2524, 0x2561, 0x2562, 0x2556, 0x2555, 0x2563, 0x2551, 0x2557, 0x255D, 0x255C, 0x255B, 0x2510, 0x2514, 0x2534,
     0x252C, 0x251C, 0x2500, 0x253C, 0x255E, 0x255F, 0x255A, 0x2554, 0x2569, 0x2566, 0x2560, 0x2550, 0x256C, 0x2567,
     0x2568, 0x2564, 0x2565, 0x2559, 0x2558, 0x2552, 0x2553, 0x256B, 0x256A, 0x2518, 0x250C, 0x2588, 0x2584, 0x258C,
     0x2590, 0x2580, 0x3B1, 0xDF, 0x393, 0x3C0, 0x3A3, 0x3C3, 0xB5, 0x3C4, 0x3A6, 0x398, 0x3A9, 0x3B4, 0x221E, 0x3C6,
     0x3B5, 0x2229, 0x2261, 0xB1, 0x2265, 0x2264, 0x2320, 0x2321, 0xF7, 0x2248, 0xB0, 0x2219, 0xB7, 0x221A, 0x207F,
     0xB2, 0x25A0, 0xA0]"

definition CP850_UPPER :: "nat list" where
  "CP850_UPPER =
    [0xC7, 0xFC, 0xE9, 0xE2, 0xE4, 0xE0, 0xE5, 0xE7, 0xEA, 0xEB, 0xE8, 0xEF, 0xEE, 0xEC, 0xC4, 0xC5, 0xC9, 0xE6,
     0xC6, 0xF4, 0xF6, 0xF2, 0xFB, 0xF9, 0xFF, 0xD6, 0xDC, 0xF8, 0xA3, 0xD8, 0xD7, 0x192, 0xE1, 0xED, 0xF3, 0xFA,
     0xF1, 0xD1, 0xAA, 0xBA, 0xBF, 0xAE, 0xAC, 0xBD, 0xBC, 0xA1, 0xAB, 0xBB, 0x2591, 0x2592, 0x2593, 0x2502, 0x2524,
     0xC1, 0xC2, 0xC0, 0xA9, 0x2563, 0x2551, 0x2557, 0x255D, 0xA2, 0xA5, 0x2510, 0x2514, 0x2534, 0x252C, 0x251C,
     0x2500, 0x253C, 0xE3, 0xC3, 0x255A, 0x2554, 0x2569, 0x2566, 0x2560, 0x2550, 0x256C, 0xA4, 0xF0, 0xD0, 0xCA,
     0xCB, 0xC8, 0x131, 0xCD, 0xCE, 0xCF, 0x2518, 0x250C, 0x2588, 0x2584, 0xA6, 0xCC, 0x2580, 0xD3, 0xDF, 0xD4, 0xD2,
     0xF5, 0xD5, 0xB5, 0xFE, 0xDE, 0xDA, 0xDB, 0xD9, 0xFD, 0xDD, 0xAF, 0xB4, 0xAD, 0xB1, 0x2017, 0xBE, 0xB6, 0xA7,
     0xF7, 0xB8, 0xB0, 0xA8, 0xB7, 0xB9, 0xB3, 0xB2, 0x25A0, 0xA0]"

definition CP852_UPPER :: "nat list" where
  "CP852_UPPER =
    [0xC7, 0xFC, 0xE9, 0xE2, 0xE4, 0x16F, 0x107, 0xE7, 0x142, 0xEB, 0x150, 0x151, 0xEE, 0x179, 0xC4, 0x106, 0xC9,
     0x139, 0x13A, 0xF4, 0xF6, 0x13D, 0x13E, 0x15A, 0x15B, 0xD6, 0xDC, 0x164, 0x165, 0x141, 0xD7, 0x10D, 0xE1, 0xED,
     0xF3, 0xFA, 0x104, 0x105, 0x17D, 0x17E, 0x118, 0x119, 0xAC, 0x17A, 0x10C, 0x15F, 0xAB, 0xBB, 0x2591, 0x2592,
     0x2593, 0x2502, 0x2524, 0xC1, 0xC2, 0x11A, 0x15E, 0x2563, 0x2551, 0x2557, 0x255D, 0x17B, 0x17C, 0x2510, 0x2514,
     0x2534, 0x252C, 0x251C, 0x2500, 0x253C, 0x102, 0x103, 0x255A, 0x2554, 0x2569, 0x2566, 0x2560, 0x2550, 0x256C,
     0xA4, 0x111, 0x110, 0x10E, 0xCB, 0x10F, 0x147, 0xCD, 0xCE, 0x11B, 0x2518, 0x250C, 0x2588, 0x2584, 0x162, 0x16E,
     0x2580, 0xD3, 0xDF, 0xD4, 0x143, 0x144, 0x148, 0x160, 0x161, 0x154, 0xDA, 0x155, 0x170, 0xFD, 0xDD, 0x163, 0xB4,
     0xAD, 0x2DD, 0x2DB, 0x2C7, 0x2D8, 0xA7, 0xF7, 0xB8, 0xB0, 0xA8, 0x2D9, 0x171, 0x158, 0x159, 0x25A0, 0xA0]"

definition CP866_UPPER :: "nat list" where
  "CP866_UPPER =
    [0x410, 0x411, 0x412, 0x413, 0x414, 0x415, 0x416, 0x417, 0x418, 0x419, 0x41A, 0x41B, 0x41C, 0x41D, 0x41E, 0x41F,
     0x420, 0x421, 0x422, 0x423, 0x424, 0x425, 0x426, 0x427, 0x428, 0x429, 0x42A, 0x42B, 0x42C, 0x42D, 0x42E, 0x42F,
     0x430, 0x431, 0x432, 0x433, 0x434, 0x435, 0x436, 0x437, 0x438, 0x439, 0x43A, 0x43B, 0x43C, 0x43D, 0x43E, 0x43F,
     0x2591, 0x2592, 0x2593, 0x2502, 0x2524, 0x2561, 0x2562, 0x2556, 0x2555, 0x2563, 0x2551, 0x2557, 0x255D, 0x255C,
     0x255B, 0x2510, 0x2514, 0x2534, 0x252C, 0x251C, 0x2500, 0x253C, 0x255E, 0x255F, 0x255A, 0x2554, 0x2569, 0x2566,
     0x2560, 0x2550, 0x256C, 0x2567, 0x2568, 0x2564, 0x2565, 0x2559, 0x2558, 0x2552, 0x2553, 0x256B, 0x256A, 0x2518,
     0x250C, 0x2588, 0x2584, 0x258C, 0x2590, 0x2580, 0x440, 0x441, 0x442, 0x443, 0x444, 0x445, 0x446, 0x447, 0x448,
     0x449, 0x44A, 0x44B, 0x44C, 0x44D, 0x44E, 0x44F, 0x401, 0x451, 0x404, 0x454, 0x407, 0x457, 0x40E, 0x45E, 0xB0,
     0x2219, 0xB7, 0x221A, 0x2116, 0xA4, 0x25A0, 0xA0]"

definition CP1250_UPPER :: "nat list" where
  "CP1250_UPPER =
    [0x20AC, 0xFFFD, 0x201A, 0xFFFD, 0x201E, 0x2026, 0x2020, 0x2021, 0xFFFD, 0x2030, 0x160, 0x2039, 0x15A, 0x164,
     0x17D, 0x179, 0xFFFD, 0x2018, 0x2019, 0x201C, 0x201D, 0x2022, 0x2013, 0x2014, 0xFFFD, 0x2122, 0x161, 0x203A,
     0x15B, 0x165, 0x17E, 0x17A, 0xA0, 0x2C7, 0x2D8, 0x141, 0xA4, 0x104, 0xA6, 0xA7, 0xA8, 0xA9, 0x15E, 0xAB, 0xAC,
     0xAD, 0xAE, 0x17B, 0xB0, 0xB1, 0x2DB, 0x142, 0xB4, 0xB5, 0xB6, 0xB7, 0xB8, 0x105, 0x15F, 0xBB, 0x13D, 0x2DD,
     0x13E, 0x17C, 0x154, 0xC1, 0xC2, 0x102, 0xC4, 0x139, 0x106, 0xC7, 0x10C, 0xC9, 0x118, 0xCB, 0x11A, 0xCD, 0xCE,
     0x10E, 0x110, 0x143, 0x147, 0xD3, 0xD4, 0x150, 0xD6, 0xD7, 0x158, 0x16E, 0xDA, 0x170, 0xDC, 0xDD, 0x162, 0xDF,
     0x155, 0xE1, 0xE2, 0x103, 0xE4, 0x13A, 0x107, 0xE7, 0x10D, 0xE9, 0x119, 0xEB, 0x11B, 0xED, 0xEE, 0x10F, 0x111,
     0x144, 0x148, 0xF3, 0xF4, 0x151, 0xF6, 0xF7, 0x159, 0x16F, 0xFA, 0x171, 0xFC, 0xFD, 0x163, 0x2D9]"

definition CP1251_UPPER :: "nat list" where
  "CP1251_UPPER =
    [0x402, 0x403, 0x201A, 0x453, 0x201E, 0x2026, 0x2020, 0x2021, 0x20AC, 0x2030, 0x409, 0x2039, 0x40A, 0x40C, 0x40B,
     0x40F, 0x452, 0x2018, 0x2019, 0x201C, 0x201D, 0x2022, 0x2013, 0x2014, 0xFFFD, 0x2122, 0x459, 0x203A, 0x45A,
     0x45C, 0x45B, 0x45F, 0xA0, 0x40E, 0x45E, 0x408, 0xA4, 0x490, 0xA6, 0xA7, 0x401, 0xA9, 0x404, 0xAB, 0xAC, 0xAD,
     0xAE, 0x407, 0xB0, 0xB1, 0x406, 0x456, 0x491, 0xB5, 0xB6, 0xB7, 0x451, 0x2116, 0x454, 0xBB, 0x458, 0x405, 0x455,
     0x457, 0x410, 0x411, 0x412, 0x413, 0x414, 0x415, 0x416, 0x417, 0x418, 0x419, 0x41A, 0x41B, 0x41C, 0x41D, 0x41E,
     0x41F, 0x420, 0x421, 0x422, 0x423, 0x424, 0x425, 0x426, 0x427, 0x428, 0x429, 0x42A, 0x42B, 0x42C, 0x42D, 0x42E,
     0x42F, 0x430, 0x431, 0x432, 0x433, 0x434, 0x435, 0x436, 0x437, 0x438, 0x439, 0x43A, 0x43B, 0x43C, 0x43D, 0x43E,
     0x43F, 0x440, 0x441, 0x442, 0x443, 0x444, 0x445, 0x446, 0x447, 0x448, 0x449, 0x44A, 0x44B, 0x44C, 0x44D, 0x44E,
     0x44F]"

definition CP1253_UPPER :: "nat list" where
  "CP1253_UPPER =
    [0x20AC, 0xFFFD, 0x201A, 0x192, 0x201E, 0x2026, 0x2020, 0x2021, 0xFFFD, 0x2030, 0xFFFD, 0x2039, 0xFFFD, 0xFFFD,
     0xFFFD, 0xFFFD, 0xFFFD, 0x2018, 0x2019, 0x201C, 0x201D, 0x2022, 0x2013, 0x2014, 0xFFFD, 0x2122, 0xFFFD, 0x203A,
     0xFFFD, 0xFFFD, 0xFFFD, 0xFFFD, 0xA0, 0x385, 0x386, 0xA3, 0xA4, 0xA5, 0xA6, 0xA7, 0xA8, 0xA9, 0xFFFD, 0xAB,
     0xAC, 0xAD, 0xAE, 0x2015, 0xB0, 0xB1, 0xB2, 0xB3, 0x384, 0xB5, 0xB6, 0xB7, 0x388, 0x389, 0x38A, 0xBB, 0x38C,
     0xBD, 0x38E, 0x38F, 0x390, 0x391, 0x392, 0x393, 0x394, 0x395, 0x396, 0x397, 0x398, 0x399, 0x39A, 0x39B, 0x39C,
     0x39D, 0x39E, 0x39F, 0x3A0, 0x3A1, 0xFFFD, 0x3A3, 0x3A4, 0x3A5, 0x3A6, 0x3A7, 0x3A8, 0x3A9, 0x3AA, 0x3AB, 0x3AC,
     0x3AD, 0x3AE, 0x3AF, 0x3B0, 0x3B1, 0x3B2, 0x3B3, 0x3B4, 0x3B5, 0x3B6, 0x3B7, 0x3B8, 0x3B9, 0x3BA, 0x3BB, 0x3BC,
     0x3BD, 0x3BE, 0x3BF, 0x3C0, 0x3C1, 0x3C2, 0x3C3, 0x3C4, 0x3C5, 0x3C6, 0x3C7, 0x3C8, 0x3C9, 0x3CA, 0x3CB, 0x3CC,
     0x3CD, 0x3CE, 0xFFFD]"

definition CP1254_UPPER :: "nat list" where
  "CP1254_UPPER =
    [0x20AC, 0xFFFD, 0x201A, 0x192, 0x201E, 0x2026, 0x2020, 0x2021, 0x2C6, 0x2030, 0x160, 0x2039, 0x152, 0xFFFD,
     0xFFFD, 0xFFFD, 0xFFFD, 0x2018, 0x2019, 0x201C, 0x201D, 0x2022, 0x2013, 0x2014, 0xFFFD, 0x2122, 0x161, 0x203A,
     0x153, 0xFFFD, 0xFFFD, 0x178, 0xA0, 0xA1, 0xA2, 0xA3, 0xA4, 0xA5, 0xA6, 0xA7, 0xA8, 0xA9, 0xAA, 0xAB, 0xAC,
     0xAD, 0xAE, 0xAF, 0xB0, 0xB1, 0xB2, 0xB3, 0xB4, 0xB5, 0xB6, 0xB7, 0xB8, 0xB9, 0xBA, 0xBB, 0xBC, 0xBD, 0xBE,
     0xBF, 0xC0, 0xC1, 0xC2, 0xC3, 0xC4, 0xC5, 0xC6, 0xC7, 0xC8, 0xC9, 0xCA, 0xCB, 0xCC, 0xCD, 0xCE, 0xCF, 0x11E,
     0xD1, 0xD2, 0xD3, 0xD4, 0xD5, 0xD6, 0xD7, 0xD8, 0xD9, 0xDA, 0xDB, 0xDC, 0x130, 0x15E, 0xDF, 0xE0, 0xE1, 0xE2,
     0xE3, 0xE4, 0xE5, 0xE6, 0xE7, 0xE8, 0xE9, 0xEA, 0xEB, 0xEC, 0xED, 0xEE, 0xEF, 0x11F, 0xF1, 0xF2, 0xF3, 0xF4,
     0xF5, 0xF6, 0xF7, 0xF8, 0xF9, 0xFA, 0xFB, 0xFC, 0x131, 0x15F, 0xFF]"

definition CP1255_UPPER :: "nat list" where
  "CP1255_UPPER =
    [0x20AC, 0xFFFD, 0x201A, 0x192, 0x201E, 0x2026, 0x2020, 0x2021, 0x2C6, 0x2030, 0xFFFD, 0x2039, 0xFFFD, 0xFFFD,
     0xFFFD, 0xFFFD, 0xFFFD, 0x2018, 0x2019, 0x201C, 0x201D, 0x2022, 0x2013, 0x2014, 0x2DC, 0x2122, 0xFFFD, 0x203A,
     0xFFFD, 0xFFFD, 0xFFFD, 0xFFFD, 0xA0, 0xA1, 0xA2, 0xA3, 0x20AA, 0xA5, 0xA6, 0xA7, 0xA8, 0xA9, 0xD7, 0xAB, 0xAC,
     0xAD, 0xAE, 0xAF, 0xB0, 0xB1, 0xB2, 0xB3, 0xB4, 0xB5, 0xB6, 0xB7, 0xB8, 0xB9, 0xF7, 0xBB, 0xBC, 0xBD, 0xBE,
     0xBF, 0x5B0, 0x5B1, 0x5B2, 0x5B3, 0x5B4, 0x5B5, 0x5B6, 0x5B7, 0x5B8, 0x5B9, 0xFFFD, 0x5BB, 0x5BC, 0x5BD, 0x5BE,
     0x5BF, 0x5C0, 0x5C1, 0x5C2, 0x5C3, 0x5F0, 0x5F1, 0x5F2, 0x5F3, 0x5F4, 0xFFFD, 0xFFFD, 0xFFFD, 0xFFFD, 0xFFFD,
     0xFFFD, 0xFFFD, 0x5D0, 0x5D1, 0x5D2, 0x5D3, 0x5D4, 0x5D5, 0x5D6, 0x5D7, 0x5D8, 0x5D9, 0x5DA, 0x5DB, 0x5DC,
     0x5DD, 0x5DE, 0x5DF, 0x5E0, 0x5E1, 0x5E2, 0x5E3, 0x5E4, 0x5E5, 0x5E6, 0x5E7, 0x5E8, 0x5E9, 0x5EA, 0xFFFD,
     0xFFFD, 0x200E, 0x200F, 0xFFFD]"

definition CP1256_UPPER :: "nat list" where
  "CP1256_UPPER =
    [0x20AC, 0x67E, 0x201A, 0x192, 0x201E, 0x2026, 0x2020, 0x2021, 0x2C6, 0x2030, 0x679, 0x2039, 0x152, 0x686, 0x698,
     0x688, 0x6AF, 0x2018, 0x2019, 0x201C, 0x201D, 0x2022, 0x2013, 0x2014, 0x6A9, 0x2122, 0x691, 0x203A, 0x153,
     0x200C, 0x200D, 0x6BA, 0xA0, 0x60C, 0xA2, 0xA3, 0xA4, 0xA5, 0xA6, 0xA7, 0xA8, 0xA9, 0x6BE, 0xAB, 0xAC, 0xAD,
     0xAE, 0xAF, 0xB0, 0xB1, 0xB2, 0xB3, 0xB4, 0xB5, 0xB6, 0xB7, 0xB8, 0xB9, 0x61B, 0xBB, 0xBC, 0xBD, 0xBE, 0x61F,
     0x6C1, 0x621, 0x622, 0x623, 0x624, 0x625, 0x626, 0x627, 0x628, 0x629, 0x62A, 0x62B, 0x62C, 0x62D, 0x62E, 0x62F,
     0x630, 0x631, 0x632, 0x633, 0x634, 0x635, 0x636, 0xD7, 0x637, 0x638, 0x639, 0x63A, 0x640, 0x641, 0x642, 0x643,
     0xE0, 0x644, 0xE2, 0x645, 0x646, 0x647, 0x648, 0xE7, 0xE8, 0xE9, 0xEA, 0xEB, 0x649, 0x64A, 0xEE, 0xEF, 0x64B,
     0x64C, 0x64D, 0x64E, 0xF4, 0x64F, 0x650, 0xF7, 0x651, 0xF9, 0x652, 0xFB, 0xFC, 0x200E, 0x200F, 0x6D2]"

definition EXTENDED :: "nat list" where
  "EXTENDED =
    [0x20AC, 0xFFFD, 0x201A, 0x192, 0x201E, 0x2026, 0x2020, 0x2021, 0x2C6, 0x2030, 0x160, 0x2039, 0x152, 0xFFFD,
     0x17D, 0xFFFD, 0xFFFD, 0x2018, 0x2019, 0x201C, 0x201D, 0x2022, 0x2013, 0x2014, 0x2DC, 0x2122, 0x161, 0x203A,
     0x153, 0xFFFD, 0x17E, 0x178]"

definition decode_codepage :: "bytes \<Rightarrow> nat list \<Rightarrow> string" where
  "decode_codepage bs upper =
     chars_text (map (\<lambda>b. if b < 0x80 then unat b
        else if unat b - 0x80 < length upper then upper ! (unat b - 0x80) else REPLACEMENT) bs)"

fun position :: "'a \<Rightarrow> 'a list \<Rightarrow> nat option" where
  "position x [] = None"
| "position x (y # ys) = (if x = y then Some 0 else map_option Suc (position x ys))"

definition encode_codepage :: "string \<Rightarrow> nat list \<Rightarrow> bytes option" where
  "encode_codepage t upper =
     those (map (\<lambda>c. if c \<le> 0x7F then Some (byte c)
        else Option.bind (position c upper) (\<lambda>i. if i + 0x80 < 256 then Some (byte (i + 0x80)) else None)) (text_chars t))"

definition decode_windows_1252 :: "bytes \<Rightarrow> string" where
  "decode_windows_1252 bs =
     chars_text (map (\<lambda>b. if b \<le> 0x7F then unat b
        else if b \<le> 0x9F then EXTENDED ! (unat b - 0x80) else unat b) bs)"

definition windows_1252_specials :: "(nat \<times> u8) list" where
  "windows_1252_specials =
     [(0x20AC, 0x80), (0x201A, 0x82), (0x192, 0x83), (0x201E, 0x84), (0x2026, 0x85), (0x2020, 0x86), (0x2021, 0x87),
      (0x2C6, 0x88), (0x2030, 0x89), (0x160, 0x8A), (0x2039, 0x8B), (0x152, 0x8C), (0x17D, 0x8E), (0x2018, 0x91),
      (0x2019, 0x92), (0x201C, 0x93), (0x201D, 0x94), (0x2022, 0x95), (0x2013, 0x96), (0x2014, 0x97), (0x2DC, 0x98),
      (0x2122, 0x99), (0x161, 0x9A), (0x203A, 0x9B), (0x153, 0x9C), (0x17E, 0x9E), (0x178, 0x9F)]"

definition encode_windows_1252 :: "string \<Rightarrow> bytes option" where
  "encode_windows_1252 t =
     those (map (\<lambda>c. if c \<le> 0x7F \<or> 0xA0 \<le> c \<and> c \<le> 0xFF then Some (byte c)
        else map_of windows_1252_specials c) (text_chars t))"

section \<open>Names of encodings\<close>

definition encoding_name :: "u8 \<Rightarrow> string option" where
  "encoding_name d =
     (if d = 0x01 then Some ''CP437''
      else if d = 0x02 then Some ''CP850''
      else if d \<in> {0x1F, 0x22, 0x23, 0x40, 0x64, 0x87} then Some ''CP852''
      else if d \<in> {0x26, 0x65} then Some ''CP866''
      else if d \<in> {0x03, 0x57} then Some ''Windows-1252''
      else if d = 0xC8 then Some ''Windows-1250''
      else if d = 0xC9 then Some ''Windows-1251''
      else if d = 0xCA then Some ''Windows-1254''
      else if d = 0xCB then Some ''Windows-1253''
      else if d = 0x7D then Some ''Windows-1255''
      else if d = 0x7E then Some ''Windows-1256''
      else if d \<in> {0x4F, 0x78} then Some ''Big5/CP950''
      else if d \<in> {0x4E, 0x79} then Some ''EUC-KR/CP949''
      else if d \<in> {0x4D, 0x7A} then Some ''GBK/CP936''
      else if d \<in> {0x13, 0x7B} then Some ''Windows-31J/CP932''
      else None)"

text \<open>The single-byte table of a language driver.\<close>

definition codepage :: "u8 \<Rightarrow> nat list option" where
  "codepage d =
     (if d = 0x01 then Some CP437_UPPER
      else if d = 0x02 then Some CP850_UPPER
      else if d \<in> {0x1F, 0x22, 0x23, 0x40, 0x64, 0x87} then Some CP852_UPPER
      else if d \<in> {0x26, 0x65} then Some CP866_UPPER
      else if d = 0xC8 then Some CP1250_UPPER
      else if d = 0xC9 then Some CP1251_UPPER
      else if d = 0xCA then Some CP1254_UPPER
      else if d = 0xCB then Some CP1253_UPPER
      else if d = 0x7D then Some CP1255_UPPER
      else if d = 0x7E then Some CP1256_UPPER
      else None)"

section \<open>UTF-8 is a bijection\<close>

lemma unat_byte [simp]: "n < 256 \<Longrightarrow> unat (byte n) = n"
  by (simp add: byte_def unat_of_nat)

lemma byte_unat [simp]: "byte (unat b) = b"
  by (simp add: byte_def)

lemma digits64: "y < 64 \<Longrightarrow> (x * 64 + y) div 64 = x" "y < 64 \<Longrightarrow> (x * 64 + y) mod 64 = (y :: nat)"
  by simp_all

lemma div64: "(c :: nat) div 4096 = c div 64 div 64" "c div 262144 = c div 64 div 64 div 64"
  by (simp_all add: div_mult2_eq [symmetric])

lemma undigits64:
  "c div 4096 * 4096 + c div 64 mod 64 * 64 + c mod 64 = (c :: nat)"
  "c div 262144 * 262144 + c div 4096 mod 64 * 4096 + c div 64 mod 64 * 64 + c mod 64 = c"
proof -
  have a: "c = c div 64 * 64 + c mod 64" "c div 64 = c div 64 div 64 * 64 + c div 64 mod 64"
    "c div 64 div 64 = c div 64 div 64 div 64 * 64 + c div 64 div 64 mod 64" by simp_all
  show "c div 4096 * 4096 + c div 64 mod 64 * 64 + c mod 64 = c" using a(1,2) unfolding div64 by linarith
  show "c div 262144 * 262144 + c div 4096 mod 64 * 4096 + c div 64 mod 64 * 64 + c mod 64 = c"
    using a unfolding div64 by linarith
qed

lemma utf8_width_nat:
  "utf8_width a =
     (if unat a < 0x80 then 1 else if 0xC2 \<le> unat a \<and> unat a \<le> 0xDF then 2
      else if 0xE0 \<le> unat a \<and> unat a \<le> 0xEF then 3 else if 0xF0 \<le> unat a \<and> unat a \<le> 0xF4 then 4 else 0)"
  by (simp add: utf8_width_def word_le_nat_alt word_less_nat_alt)

lemma utf8_chars_char:
  assumes "c < 0x110000"
  shows "utf8_chars (utf8_char c @ bs) = c # utf8_chars bs"
proof -
  consider "c < 0x80" | "0x80 \<le> c" "c < 0x800" | "0x800 \<le> c" "c < 0x10000" | "0x10000 \<le> c" by linarith
  then show ?thesis
  proof cases
    case 1
    then show ?thesis by (simp add: utf8_char_def utf8_width_nat)
  next
    case 2
    then have "0xC0 + c div 64 < 256" "2 \<le> c div 64" "c div 64 < 32" by auto
    with 2 show ?thesis by (simp add: utf8_char_def utf8_width_nat)
  next
    case 3
    then have d: "c div 4096 < 16" by auto
    with 3 undigits64(1) [of c] show ?thesis by (simp add: utf8_char_def utf8_width_nat)
  next
    case 4
    with assms have d: "c div 262144 < 5" by auto
    with 4 undigits64(2) [of c] show ?thesis by (simp add: utf8_char_def utf8_width_nat)
  qed
qed

lemma utf8_chars_text [simp]: "list_all (\<lambda>c. c < 0x110000) cs \<Longrightarrow> utf8_chars (utf8_text cs) = cs"
  by (induction cs) (simp_all add: utf8_text_def utf8_chars_char)

lemma text_chars_text [simp]: "list_all (\<lambda>c. c < 0x110000) cs \<Longrightarrow> text_chars (chars_text cs) = cs"
  by (simp add: text_chars_def chars_text_def)

lemma byte_eqI: "unat b = n \<Longrightarrow> byte n = b"
  by auto

lemma cont_nat: "utf8_cont b \<Longrightarrow> \<exists>y. unat b = 0x80 + y \<and> y < 64"
  by (intro exI [of _ "unat b - 0x80"]) (auto simp: utf8_cont_def word_le_nat_alt)

lemma second_cont: "utf8_second a b \<Longrightarrow> utf8_cont b"
  by (auto simp: utf8_second_def utf8_cont_def word_le_nat_alt split: if_splits)

lemma utf8_text_chars:
  "valid_utf8 bs \<Longrightarrow> utf8_text (utf8_chars bs) = bs \<and> list_all (\<lambda>c. c < 0x110000) (utf8_chars bs)"
proof (induction bs rule: valid_utf8.induct)
  case (2 a bs)
  consider "utf8_width a = 1" | "utf8_width a = 2" | "utf8_width a = 3" | "utf8_width a = 4"
    using 2(5) by (auto simp: utf8_width_nat split: if_splits)
  then show ?case
  proof cases
    case 1
    then have "unat a < 0x80" by (auto simp: utf8_width_nat split: if_splits)
    with 1 2 show ?thesis by (auto simp: utf8_text_def utf8_char_def)
  next
    case 2
    then obtain b r where r: "bs = b # r" "utf8_cont b" "valid_utf8 r"
      using "2.prems" by (auto split: list.splits)
    obtain x where x: "unat a = 0xC0 + x" "2 \<le> x" "x < 32"
      using 2 by (intro that [of "unat a - 0xC0"]) (auto simp: utf8_width_nat split: if_splits)
    obtain y where y: "unat b = 0x80 + y" "y < 64" using cont_nat [OF r(2)] by blast
    have "utf8_char (x * 64 + y) = [a, b]" using x y by (simp add: utf8_char_def byte_eqI)
    with 2 r x y "2.IH" show ?thesis by (auto simp: utf8_text_def)
  next
    case 3
    then obtain b d r where r: "bs = b # d # r" "utf8_second a b" "utf8_cont d" "valid_utf8 r"
      using "2.prems" by (auto split: list.splits)
    obtain x where x: "unat a = 0xE0 + x" "x < 16"
      using 3 by (intro that [of "unat a - 0xE0"]) (auto simp: utf8_width_nat split: if_splits)
    obtain y where y: "unat b = 0x80 + y" "y < 64" using cont_nat second_cont [OF r(2)] by blast
    obtain z where z: "unat d = 0x80 + z" "z < 64" using cont_nat [OF r(3)] by blast
    have lo: "x = 0 \<Longrightarrow> 32 \<le> y"
      using r(2) x y by (auto simp: utf8_second_def word_le_nat_alt word_unat_eq_iff split: if_splits)
    define c where "c = x * 4096 + y * 64 + z"
    have c: "c = (x * 64 + y) * 64 + z" by (simp add: c_def)
    have "c div 64 = x * 64 + y" "c mod 64 = z" unfolding c by (simp_all only: digits64 [OF z(2)])
    then have "c div 4096 = x" "c div 64 mod 64 = y" "c mod 64 = z"
      unfolding div64 by (simp_all only: digits64 [OF y(2)])
    moreover have "0x800 \<le> c" "c < 0x10000" using lo x y z by (cases "x = 0"; simp add: c_def)+
    ultimately have "utf8_char c = [a, b, d]" using x y z by (simp add: utf8_char_def byte_eqI)
    with 3 r x y z "2.IH" \<open>c < 0x10000\<close> show ?thesis by (auto simp: utf8_text_def c_def)
  next
    case 4
    then obtain b d e r where r: "bs = b # d # e # r" "utf8_second a b" "utf8_cont d" "utf8_cont e" "valid_utf8 r"
      using "2.prems" by (auto split: list.splits)
    obtain x where x: "unat a = 0xF0 + x" "x \<le> 4"
      using 4 by (intro that [of "unat a - 0xF0"]) (auto simp: utf8_width_nat split: if_splits)
    obtain y where y: "unat b = 0x80 + y" "y < 64" using cont_nat second_cont [OF r(2)] by blast
    obtain z where z: "unat d = 0x80 + z" "z < 64" using cont_nat [OF r(3)] by blast
    obtain w where w: "unat e = 0x80 + w" "w < 64" using cont_nat [OF r(4)] by blast
    have lo: "x = 0 \<Longrightarrow> 16 \<le> y" "x = 4 \<Longrightarrow> y < 16"
      using r(2) x y by (auto simp: utf8_second_def word_le_nat_alt word_unat_eq_iff split: if_splits)
    define c where "c = x * 262144 + y * 4096 + z * 64 + w"
    have c: "c = ((x * 64 + y) * 64 + z) * 64 + w" by (simp add: c_def)
    have "c div 64 = (x * 64 + y) * 64 + z" "c mod 64 = w" unfolding c by (simp_all only: digits64 [OF w(2)])
    then have "c div 64 div 64 = x * 64 + y" "c div 64 mod 64 = z" "c mod 64 = w"
      by (simp_all only: digits64 [OF z(2)])
    then have "c div 262144 = x" "c div 4096 mod 64 = y" "c div 64 mod 64 = z" "c mod 64 = w"
      unfolding div64 by (simp_all only: digits64 [OF y(2)])
    moreover have "0x10000 \<le> c" using lo y z w by (cases "x = 0") (simp_all add: c_def)
    moreover have "c < 0x110000" using lo x y z w by (cases "x = 4") (simp_all add: c_def)
    ultimately have "utf8_char c = [a, b, d, e]" using x y z w by (simp add: utf8_char_def byte_eqI)
    with 4 r x y z w "2.IH" \<open>c < 0x110000\<close> show ?thesis by (auto simp: utf8_text_def c_def)
  qed
qed (simp add: utf8_text_def)

lemma utf8_lossy_valid: "valid_utf8 bs \<Longrightarrow> utf8_lossy bs = bs"
proof (induction bs rule: utf8_lossy.induct)
  case (2 a r)
  consider "utf8_width a = 1" | "utf8_width a = 2" | "utf8_width a = 3" | "utf8_width a = 4"
    using 2(2) by (auto split: if_splits)
  then have "utf8_width a = Suc (utf8_run a r) \<and> valid_utf8 (drop (utf8_run a r) r)"
  proof cases
    case 1
    with 2(2) show ?thesis by (simp add: utf8_run_def)
  next
    case 2
    with "2.prems" obtain b s where r: "r = b # s" "utf8_cont b" "valid_utf8 s" by (cases r) auto
    from 2 have "a \<notin> {0xE0, 0xED, 0xF0, 0xF4}" by (auto simp: utf8_width_def)
    then have "utf8_second a b" using r(2) by (simp add: utf8_second_def)
    with 2 r show ?thesis by (simp add: utf8_run_def)
  next
    case 3
    with "2.prems" obtain b c s where "r = b # c # s" "utf8_second a b" "utf8_cont c" "valid_utf8 s"
      by (auto split: list.splits)
    with 3 show ?thesis using second_cont by (simp add: utf8_run_def)
  next
    case 4
    with "2.prems" obtain b c d s where "r = b # c # d # s" "utf8_second a b" "utf8_cont c" "utf8_cont d" "valid_utf8 s"
      by (auto split: list.splits)
    with 4 show ?thesis using second_cont by (simp add: utf8_run_def)
  qed
  with 2 show ?case by simp
qed simp

section \<open>Code pages lose nothing\<close>

definition code_pages :: "nat list list" where
  "code_pages = [CP437_UPPER, CP850_UPPER, CP852_UPPER, CP866_UPPER, CP1250_UPPER, CP1251_UPPER, CP1253_UPPER,
     CP1254_UPPER, CP1255_UPPER, CP1256_UPPER]"

definition proper_page :: "nat list \<Rightarrow> bool" where
  "proper_page upper \<longleftrightarrow>
     length upper = 128 \<and> list_all (\<lambda>c. 0x80 \<le> c \<and> c < 0x110000) upper \<and> distinct (filter (\<lambda>c. c \<noteq> REPLACEMENT) upper)"

lemma pages_proper: "list_all proper_page code_pages"
  by (simp add: code_pages_def proper_page_def REPLACEMENT_def CP437_UPPER_def CP850_UPPER_def CP852_UPPER_def
      CP866_UPPER_def CP1250_UPPER_def CP1251_UPPER_def CP1253_UPPER_def CP1254_UPPER_def CP1255_UPPER_def CP1256_UPPER_def)

lemma position_Some: "position x xs = Some i \<Longrightarrow> i < length xs \<and> xs ! i = x"
  by (induction x xs arbitrary: i rule: position.induct) (auto split: if_splits)

lemma position_nth:
  "i < length xs \<Longrightarrow> xs ! i \<noteq> r \<Longrightarrow> distinct (filter (\<lambda>c. c \<noteq> r) xs) \<Longrightarrow> position (xs ! i) xs = Some i"
proof (induction xs arbitrary: i)
  case (Cons x xs)
  show ?case
  proof (cases i)
    case (Suc j)
    then have "xs ! j \<in> set (filter (\<lambda>c. c \<noteq> r) xs)" using Cons.prems by simp
    moreover have "xs ! j \<noteq> r" "j < length xs" using Cons.prems Suc by simp_all
    ultimately have "xs ! j \<noteq> x" using Cons.prems(3) by (auto split: if_splits)
    with Suc Cons show ?thesis by (auto split: if_splits)
  qed simp
qed simp

lemma those_map_Some:
  assumes "\<And>x. x \<in> set xs \<Longrightarrow> f (g x) = Some x"
  shows "those (map f (map g xs)) = Some xs"
  using assms by (induction xs) auto

lemma those_map_inv:
  assumes "those (map f cs) = Some bs" "\<And>c b. c \<in> set cs \<Longrightarrow> f c = Some b \<Longrightarrow> g b = c"
  shows "map g bs = cs"
  using assms
proof (induction cs arbitrary: bs)
  case (Cons c cs)
  then show ?case by (auto split: option.splits)
qed simp

lemma codepage_inverse:
  assumes "upper \<in> set code_pages" "valid_utf8 (string_bytes t)" "encode_codepage t upper = Some bs"
  shows "decode_codepage bs upper = t"
proof -
  have "length upper = 128" using pages_proper assms(1) by (auto simp: list_all_iff proper_page_def)
  then have "map (\<lambda>b. if b < 0x80 then unat b
      else if unat b - 0x80 < length upper then upper ! (unat b - 0x80) else REPLACEMENT) bs = text_chars t"
    by (intro those_map_inv [OF assms(3) [unfolded encode_codepage_def]])
      (auto simp: word_less_nat_alt bind_eq_Some_conv dest!: position_Some split: if_splits)
  then show ?thesis
    using utf8_text_chars [OF assms(2)] by (simp add: decode_codepage_def chars_text_def text_chars_def)
qed

text \<open>
  C31. Text in a code page is stored without loss: every text the code page can express decodes
  to itself, and every byte sequence without undefined bytes is encoded back to the same bytes.
\<close>

theorem codepage_roundtrip:
  assumes "upper \<in> set code_pages"
  shows "(valid_utf8 (string_bytes t) \<and> encode_codepage t upper = Some bs \<longrightarrow> decode_codepage bs upper = t) \<and>
    (list_all (\<lambda>b. b < 0x80 \<or> upper ! (unat b - 0x80) \<noteq> REPLACEMENT) cs \<longrightarrow>
       encode_codepage (decode_codepage cs upper) upper = Some cs)"
proof (intro conjI impI)
  have p: "length upper = 128" "\<And>c. c \<in> set upper \<Longrightarrow> 0x80 \<le> c \<and> c < 0x110000"
    "distinct (filter (\<lambda>c. c \<noteq> REPLACEMENT) upper)"
    using pages_proper assms by (auto simp: list_all_iff proper_page_def)
  {
    assume "valid_utf8 (string_bytes t) \<and> encode_codepage t upper = Some bs"
    then show "decode_codepage bs upper = t" using codepage_inverse assms by blast
  }
  {
    assume d: "list_all (\<lambda>b. b < 0x80 \<or> upper ! (unat b - 0x80) \<noteq> REPLACEMENT) cs"
    let ?g = "\<lambda>b :: u8. if b < 0x80 then unat b
        else if unat b - 0x80 < length upper then upper ! (unat b - 0x80) else REPLACEMENT"
    have in_range: "unat b - 0x80 < length upper" for b :: u8 using unat_lt [of b] p(1) by simp
    have "?g b < 0x110000" for b using in_range p(2) nth_mem [OF in_range, of b] by (auto simp: word_less_nat_alt)
    then have "list_all (\<lambda>c. c < 0x110000) (map ?g cs)" unfolding list_all_iff set_map by blast
    then have c: "text_chars (decode_codepage cs upper) = map ?g cs"
      unfolding decode_codepage_def by (rule text_chars_text)
    show "encode_codepage (decode_codepage cs upper) upper = Some cs"
      unfolding encode_codepage_def c
    proof (rule those_map_Some)
      fix b assume "b \<in> set cs"
      then have "b < 0x80 \<or> upper ! (unat b - 0x80) \<noteq> REPLACEMENT" using d by (simp add: list_all_iff)
      then show "(if ?g b \<le> 0x7F then Some (byte (?g b))
          else Option.bind (position (?g b) upper) (\<lambda>i. if i + 0x80 < 256 then Some (byte (i + 0x80)) else None)) = Some b"
        using in_range [of b] p(2) [OF nth_mem [OF in_range [of b]]] position_nth [OF in_range [of b] _ p(3)] unat_lt [of b]
        by (auto simp: word_less_nat_alt)
    qed
  }
qed

theorem codepage_roundtrip_witness:
  "encode_codepage (decode_codepage [0x41, 0x80] CP437_UPPER) CP437_UPPER = Some [0x41, 0x80]"
  using codepage_roundtrip [of CP437_UPPER "[]" "[]" "[0x41, 0x80]"]
  by (simp add: code_pages_def CP437_UPPER_def REPLACEMENT_def)

end
