(* ===== verification/Json.thy ===== *)
theory Json
  imports Base "HOL-Library.List_Lexorder" "HOL-Library.Char_ord"
begin

text \<open>
  JSON values as the program handles them (\<open>serde_json::Value\<close>).  An object is a
  \<open>BTreeMap\<close> from names to values: an association list whose names are strictly
  increasing in byte order.  A number is an unsigned or a negative 64-bit integer or a
  double, the last kept as its bit pattern.
\<close>

datatype json_number = PosInt u64 | NegInt int | Float u64

datatype json =
    JNull
  | JBool bool
  | JNumber json_number
  | JString string
  | JArray "json list"
  | JObject "(string \<times> json) list"

type_synonym json_map = "(string \<times> json) list"

fun obj_insert :: "string \<Rightarrow> 'v \<Rightarrow> (string \<times> 'v) list \<Rightarrow> (string \<times> 'v) list" where
  "obj_insert k v [] = [(k, v)]"
| "obj_insert k v ((a, w) # kvs) =
     (if k < a then (k, v) # (a, w) # kvs
      else if k = a then (k, v) # kvs
      else (a, w) # obj_insert k v kvs)"

definition obj_remove :: "string \<Rightarrow> (string \<times> 'v) list \<Rightarrow> (string \<times> 'v) list" where
  "obj_remove k kvs = filter (\<lambda>(a, _). a \<noteq> k) kvs"

abbreviation obj_get :: "(string \<times> 'v) list \<Rightarrow> string \<Rightarrow> 'v option" where
  "obj_get \<equiv> map_of"

definition obj_keys :: "(string \<times> 'v) list \<Rightarrow> string list" where
  "obj_keys kvs = map fst kvs"

definition sorted_obj :: "(string \<times> 'v) list \<Rightarrow> bool" where
  "sorted_obj kvs \<longleftrightarrow> sorted_wrt (<) (map fst kvs)"

fun wf_json :: "json \<Rightarrow> bool" where
  "wf_json (JArray xs) = list_all wf_json xs"
| "wf_json (JObject kvs) = (sorted_obj kvs \<and> list_all (\<lambda>kv. wf_json (snd kv)) kvs)"
| "wf_json _ = True"

definition json_as_str :: "json \<Rightarrow> string option" where
  "json_as_str v = (case v of JString s \<Rightarrow> Some s | _ \<Rightarrow> None)"

section \<open>Objects behave as maps\<close>

lemma obj_get_insert: "obj_get (obj_insert k v kvs) = (obj_get kvs)(k \<mapsto> v)"
  by (induction k v kvs rule: obj_insert.induct) (auto simp: fun_eq_iff)

lemma obj_get_remove: "obj_get (obj_remove k kvs) = (obj_get kvs)(k := None)"
  by (induction kvs) (auto simp: obj_remove_def fun_eq_iff)

lemma keys_insert: "fst ` set (obj_insert k v kvs) = insert k (fst ` set kvs)"
  by (induction k v kvs rule: obj_insert.induct) auto

lemma set_obj_insert: "set (obj_insert k v kvs) \<subseteq> insert (k, v) (set kvs)"
  by (induction k v kvs rule: obj_insert.induct) auto

lemma sorted_obj_Nil [simp]: "sorted_obj []"
  by (simp add: sorted_obj_def)

lemma sorted_obj_Cons: "sorted_obj ((k, v) # kvs) \<longleftrightarrow> (\<forall>a \<in> fst ` set kvs. k < a) \<and> sorted_obj kvs"
  by (auto simp: sorted_obj_def)

lemma sorted_obj_insert [simp]: "sorted_obj kvs \<Longrightarrow> sorted_obj (obj_insert k v kvs)"
  by (induction k v kvs rule: obj_insert.induct)
    (auto simp: sorted_obj_Cons keys_insert intro: order.strict_trans)

lemma sorted_obj_remove [simp]: "sorted_obj kvs \<Longrightarrow> sorted_obj (obj_remove k kvs)"
  by (auto simp: sorted_obj_def obj_remove_def sorted_wrt_map sorted_wrt_filter)

lemma sorted_obj_distinct: "sorted_obj kvs \<Longrightarrow> distinct (map fst kvs)"
  by (induction kvs) (auto simp: sorted_obj_def)

lemma obj_from_get:
  assumes "distinct (map fst kvs)"
  shows "map (\<lambda>k. (k, the (obj_get kvs k))) (map fst kvs) = kvs"
proof -
  have "(fst kv, the (obj_get kvs (fst kv))) = kv" if "kv \<in> set kvs" for kv
    using that map_of_is_SomeI [OF assms, of "fst kv" "snd kv"] by simp
  then show ?thesis by (auto intro!: map_idI)
qed

lemma sorted_obj_eqI:
  assumes "sorted_obj xs" "sorted_obj ys" "obj_get xs = obj_get ys"
  shows "xs = ys"
proof -
  have "set (map fst xs) = set (map fst ys)"
    using assms(3) dom_map_of_conv_image_fst [of xs] dom_map_of_conv_image_fst [of ys] by simp
  then have "map fst xs = map fst ys"
    using assms(1,2) strict_sorted_equal [of "map fst xs" "map fst ys"] by (simp add: sorted_obj_def)
  then show ?thesis
    using obj_from_get [of xs] obj_from_get [of ys] assms sorted_obj_distinct by metis
qed

lemma wf_json_insert:
  "wf_json (JObject kvs) \<Longrightarrow> wf_json v \<Longrightarrow> wf_json (JObject (obj_insert k v kvs))"
  using set_obj_insert [of k v kvs] by (fastforce simp: list_all_iff)

lemma wf_json_remove: "wf_json (JObject kvs) \<Longrightarrow> wf_json (JObject (obj_remove k kvs))"
  using sorted_obj_remove [of kvs k] by (auto simp: list_all_iff obj_remove_def)

lemma wf_json_get: "wf_json (JObject kvs) \<Longrightarrow> obj_get kvs k = Some v \<Longrightarrow> wf_json v"
  using map_of_SomeD [of kvs k v] by (auto simp: list_all_iff)

section \<open>Equality of JSON values\<close>

text \<open>
  \<open>Value::eq\<close>: floating-point numbers compare as numbers, so the two zeros are equal; a
  number is never a NaN.
\<close>

fun number_eq :: "json_number \<Rightarrow> json_number \<Rightarrow> bool" where
  "number_eq (PosInt a) (PosInt b) = (a = b)"
| "number_eq (NegInt a) (NegInt b) = (a = b)"
| "number_eq (Float a) (Float b) = (a = b \<or> (a \<in> {0, 2 ^ 63} \<and> b \<in> {0, 2 ^ 63}))"
| "number_eq _ _ = False"

fun json_eq :: "json \<Rightarrow> json \<Rightarrow> bool"
  and jsons_eq :: "json list \<Rightarrow> json list \<Rightarrow> bool"
  and members_eq :: "(string \<times> json) list \<Rightarrow> (string \<times> json) list \<Rightarrow> bool" where
  "json_eq JNull JNull = True"
| "json_eq (JBool a) (JBool b) = (a = b)"
| "json_eq (JNumber a) (JNumber b) = number_eq a b"
| "json_eq (JString a) (JString b) = (a = b)"
| "json_eq (JArray xs) (JArray ys) = jsons_eq xs ys"
| "json_eq (JObject xs) (JObject ys) = members_eq xs ys"
| "json_eq _ _ = False"
| "jsons_eq [] [] = True"
| "jsons_eq (x # xs) (y # ys) = (json_eq x y \<and> jsons_eq xs ys)"
| "jsons_eq _ _ = False"
| "members_eq [] [] = True"
| "members_eq ((k, x) # xs) ((l, y) # ys) = (k = l \<and> json_eq x y \<and> members_eq xs ys)"
| "members_eq _ _ = False"

end
