(* ===== verification/Float64.thy ===== *)
theory Float64
  imports Json Rust_Text
begin

text \<open>
  Doubles, the parts of \<open>f64\<close> the program uses: bit patterns, comparison, addition,
  conversion from integers and the parsing of decimal text.  Every finite double is a
  multiple of \<open>2 ^ -1074\<close>; \<open>f64_units\<close> is that multiple, so that arithmetic is exact on
  integers and \<open>f64_round\<close> is the one rounding step, to the nearest double with ties to the
  even mantissa.  The numbers of \<open>serde_json\<close> and their comparison
  (\<^verbatim>\<open>src/src/json_order.rs\<close>) follow.
\<close>

section \<open>Bit patterns\<close>

definition f64_negative :: "u64 \<Rightarrow> bool" where
  "f64_negative w \<longleftrightarrow> 2 ^ 63 \<le> unat w"

definition f64_magnitude :: "u64 \<Rightarrow> nat" where
  "f64_magnitude w = unat w mod 2 ^ 63"

definition f64_exponent :: "u64 \<Rightarrow> nat" where
  "f64_exponent w = f64_magnitude w div 2 ^ 52"

definition f64_is_finite :: "u64 \<Rightarrow> bool" where
  "f64_is_finite w \<longleftrightarrow> f64_exponent w < 2047"

definition f64_units :: "u64 \<Rightarrow> int" where
  "f64_units w =
     (let e = f64_exponent w; m = f64_magnitude w mod 2 ^ 52;
          n = (if e = 0 then m else (2 ^ 52 + m) * 2 ^ (e - 1))
      in if f64_negative w then - int n else int n)"

definition f64_of_magnitude :: "bool \<Rightarrow> nat \<Rightarrow> u64" where
  "f64_of_magnitude negative m = word_of_nat (m + (if negative then 2 ^ 63 else 0))"

definition f64_infinity :: nat where
  "f64_infinity = 2047 * 2 ^ 52"

definition f64_nan :: nat where
  "f64_nan = 2047 * 2 ^ 52 + 2 ^ 51"

section \<open>Rounding\<close>

fun bit_length :: "nat \<Rightarrow> nat" where
  "bit_length n = (if n = 0 then 0 else Suc (bit_length (n div 2)))"

declare bit_length.simps [simp del]

definition round_half_even :: "nat \<Rightarrow> nat \<Rightarrow> nat" where
  "round_half_even n d =
     (let q = n div d; r = n mod d
      in if 2 * r < d then q else if d < 2 * r then Suc q else if even q then q else Suc q)"

text \<open>The magnitude nearest to \<open>n / d\<close> units.\<close>

definition f64_round :: "nat \<Rightarrow> nat \<Rightarrow> nat" where
  "f64_round n d =
     (let s = bit_length (n div d) - 53
      in min f64_infinity (s * 2 ^ 52 + round_half_even n (d * 2 ^ s)))"

definition f64_of_int :: "int \<Rightarrow> u64" where
  "f64_of_int i = f64_of_magnitude (i < 0) (f64_round (nat \<bar>i\<bar> * 2 ^ 1074) 1)"

definition f64_add :: "u64 \<Rightarrow> u64 \<Rightarrow> u64" where
  "f64_add a b =
     (let u = f64_units a + f64_units b
      in if u = 0 then f64_of_magnitude (f64_negative a \<and> f64_negative b) 0
         else f64_of_magnitude (u < 0) (f64_round (nat \<bar>u\<bar>) 1))"

section \<open>Parsing\<close>

text \<open>
  \<open>str::parse::<f64>\<close>: an optional sign, then \<open>inf\<close>, \<open>infinity\<close> or \<open>nan\<close> in any case, or
  digits with an optional point and an optional exponent.
\<close>

definition take_sign :: "bytes \<Rightarrow> bool \<times> bytes" where
  "take_sign bs =
     (case bs of b # r \<Rightarrow> if b = 0x2D then (True, r) else if b = 0x2B then (False, r) else (False, bs) | [] \<Rightarrow> (False, []))"

definition parse_exponent :: "bytes \<Rightarrow> int option" where
  "parse_exponent bs =
     (case bs of
        [] \<Rightarrow> Some 0
      | b # r \<Rightarrow>
          if ascii_upper b = 0x45 then
            (case take_sign r of (negative, ds) \<Rightarrow>
               map_option (\<lambda>n. if negative then - int n else int n) (parse_digits ds))
          else None)"

definition parse_decimal :: "bytes \<Rightarrow> (nat \<times> int) option" where
  "parse_decimal bs =
     (let whole = takeWhile is_ascii_digit bs; r = dropWhile is_ascii_digit bs;
          (fraction, r) = (case r of b # s \<Rightarrow> if b = 0x2E then (takeWhile is_ascii_digit s, dropWhile is_ascii_digit s) else ([], r)
                                   | [] \<Rightarrow> ([], []))
      in if whole = [] \<and> fraction = [] then None
         else map_option (\<lambda>e. (digits_value (whole @ fraction), e - int (length fraction))) (parse_exponent r))"

definition f64_of_decimal :: "nat \<Rightarrow> int \<Rightarrow> nat" where
  "f64_of_decimal n e =
     (if 0 \<le> e then f64_round (n * 10 ^ nat e * 2 ^ 1074) 1 else f64_round (n * 2 ^ 1074) (10 ^ nat (- e)))"

definition parse_f64 :: "bytes \<Rightarrow> u64 option" where
  "parse_f64 bs =
     (case take_sign bs of (negative, r) \<Rightarrow>
        (let name = map ascii_upper r in
         if name \<in> {string_bytes ''INF'', string_bytes ''INFINITY''} then Some (f64_of_magnitude negative f64_infinity)
         else if name = string_bytes ''NAN'' then Some (f64_of_magnitude negative f64_nan)
         else map_option (\<lambda>(n, e). f64_of_magnitude negative (f64_of_decimal n e)) (parse_decimal r)))"

section \<open>Numbers of JSON values\<close>

definition i64_max :: int where "i64_max = 2 ^ 63 - 1"
definition i64_min :: int where "i64_min = - (2 ^ 63)"

fun number_as_i64 :: "json_number \<Rightarrow> int option" where
  "number_as_i64 (PosInt w) = (if int (unat w) \<le> i64_max then Some (int (unat w)) else None)"
| "number_as_i64 (NegInt i) = Some i"
| "number_as_i64 (Float _) = None"

fun number_as_u64 :: "json_number \<Rightarrow> u64 option" where
  "number_as_u64 (PosInt w) = Some w"
| "number_as_u64 _ = None"

fun number_as_f64 :: "json_number \<Rightarrow> u64" where
  "number_as_f64 (PosInt w) = f64_of_int (int (unat w))"
| "number_as_f64 (NegInt i) = f64_of_int i"
| "number_as_f64 (Float f) = f"

definition number_from_f64 :: "u64 \<Rightarrow> json_number option" where
  "number_from_f64 f = (if f64_is_finite f then Some (Float f) else None)"

definition number_from_i64 :: "int \<Rightarrow> json_number" where
  "number_from_i64 i = (if i < 0 then NegInt i else PosInt (word_of_int i))"

section \<open>Comparison\<close>

datatype ordering = Less | Equal | Greater

fun reverse_ordering :: "ordering \<Rightarrow> ordering" where
  "reverse_ordering Less = Greater"
| "reverse_ordering Equal = Equal"
| "reverse_ordering Greater = Less"

definition compare :: "'a::linorder \<Rightarrow> 'a \<Rightarrow> ordering" where
  "compare a b = (if a < b then Less else if a = b then Equal else Greater)"

text \<open>\<open>partial_cmp\<close> on finite doubles; the numbers of a JSON value are finite.\<close>

definition f64_compare :: "u64 \<Rightarrow> u64 \<Rightarrow> ordering option" where
  "f64_compare a b = (if f64_is_finite a \<and> f64_is_finite b then Some (compare (f64_units a) (f64_units b)) else None)"

definition compare_numbers :: "json_number \<Rightarrow> json_number \<Rightarrow> ordering option" where
  "compare_numbers l r =
     (case (number_as_i64 l, number_as_i64 r) of
        (Some a, Some b) \<Rightarrow> Some (compare a b)
      | _ \<Rightarrow>
     (case (number_as_u64 l, number_as_u64 r) of
        (Some a, Some b) \<Rightarrow> Some (compare a b)
      | _ \<Rightarrow>
     (case (number_as_i64 l, number_as_u64 r) of
        (Some a, Some b) \<Rightarrow> Some (if a < 0 then Less else compare (word_of_int a) b)
      | _ \<Rightarrow>
     (case (number_as_u64 l, number_as_i64 r) of
        (Some a, Some b) \<Rightarrow> Some (if b < 0 then Greater else compare a (word_of_int b))
      | _ \<Rightarrow> f64_compare (number_as_f64 l) (number_as_f64 r)))))"

fun compare_scalar_values :: "json \<Rightarrow> json \<Rightarrow> ordering option" where
  "compare_scalar_values JNull JNull = Some Equal"
| "compare_scalar_values (JBool a) (JBool b) = Some (compare a b)"
| "compare_scalar_values (JNumber a) (JNumber b) = compare_numbers a b"
| "compare_scalar_values (JString a) (JString b) = Some (compare a b)"
| "compare_scalar_values _ _ = None"

section \<open>Lemmas\<close>

lemma reverse_compare [simp]: "reverse_ordering (compare a b) = compare b a"
  by (auto simp: compare_def)

lemma compare_Equal [simp]: "compare a b = Equal \<longleftrightarrow> a = b"
  by (auto simp: compare_def)

lemma f64_compare_swap: "f64_compare b a = map_option reverse_ordering (f64_compare a b)"
  by (simp add: f64_compare_def)

lemma compare_numbers_swap: "compare_numbers b a = map_option reverse_ordering (compare_numbers a b)"
  by (cases a; cases b)
    (auto simp: compare_numbers_def simp del: number_as_f64.simps intro: f64_compare_swap)

lemma compare_scalar_swap: "compare_scalar_values b a = map_option reverse_ordering (compare_scalar_values a b)"
proof (cases a; cases b)
  fix x y
  assume "a = JNumber x" "b = JNumber y"
  then show ?thesis using compare_numbers_swap [of y x] by simp
qed simp_all

end
