(* ===== verification/Memo.thy ===== *)
theory Memo
  imports Dbf_Types Rust_Text Json
begin

text \<open>
  Memo sidecars: \<^verbatim>\<open>src/src/dbf/memo_file.rs\<close> (the dBASE III, dBASE IV and FoxPro files and
  how memos are read and appended), \<^verbatim>\<open>src/src/dbf/memo_value.rs\<close> (the pointers in the
  table's records and the values stored), and the text of values from
  \<^verbatim>\<open>src/src/dbf/codec_values.rs\<close> and \<^verbatim>\<open>src/src/dbf/codec_decode.rs\<close>.  An operation
  that changes the sidecar in place returns it with the result, also on the error
  paths, where it may already have been extended.
\<close>

section \<open>Sidecar files\<close>

record memo_file =
  mf_bytes :: bytes
  mf_block_size :: nat
  mf_format :: memo_format

definition memo_from_bytes :: "bytes \<Rightarrow> memo_format \<Rightarrow> (dbf_error, memo_file) result" where
  "memo_from_bytes bs format =
     bindr
       (case format of
          FoxPro \<Rightarrow>
            bindr (ok_or (Dbf_invalid ''FPT header is truncated'') (get_range bs 6 8)) (\<lambda>h.
            Inr (unat (u16_from_be h)))
        | Dbase3 \<Rightarrow>
            if length bs < DBT_BLOCK_SIZE then Inl (Dbf_invalid ''DBT header is truncated'')
            else Inr DBT_BLOCK_SIZE
        | Dbase4 \<Rightarrow>
            if length bs < DBT_BLOCK_SIZE then Inl (Dbf_invalid ''DBT header is truncated'')
            else
              let block_size = unat (u16_from_le [bs ! 20, bs ! 21])
              in Inr (if block_size = 0 then DBT_BLOCK_SIZE else block_size)) (\<lambda>block_size.
     if format = FoxPro \<and> (block_size < 8 \<or> length bs < block_size)
     then Inl (Dbf_invalid ''FPT block size or header is invalid'')
     else if format \<noteq> FoxPro \<and> (block_size < DBT_BLOCK_SIZE \<or> block_size mod DBT_BLOCK_SIZE \<noteq> 0 \<or>
       length bs < block_size)
     then Inl (Dbf_invalid ''dBASE DBT block size or header is invalid'')
     else Inr \<lparr>mf_bytes = bs, mf_block_size = block_size, mf_format = format\<rparr>)"

definition memo_open :: "file_system \<Rightarrow> file_path \<Rightarrow> u8 \<Rightarrow> (dbf_error, memo_file) result" where
  "memo_open fs path dbf_version =
     bindr (fs_read fs path) (\<lambda>bs.
     memo_from_bytes bs
       (if (case fp_ext path of None \<Rightarrow> False | Some e \<Rightarrow> eq_ignore_ascii_case e ''fpt'') then FoxPro
        else if dbf_version = 0x83 then Dbase3
        else Dbase4))"

fun find_pair :: "bytes \<Rightarrow> nat option" where
  "find_pair (a # b # r) =
     (if a = EOF_MARKER \<and> b = EOF_MARKER then Some 0 else map_option Suc (find_pair (b # r)))"
| "find_pair _ = None"

fun find_byte :: "u8 \<Rightarrow> bytes \<Rightarrow> nat option" where
  "find_byte x [] = None"
| "find_byte x (b # r) = (if b = x then Some 0 else map_option Suc (find_byte x r))"

definition dbase3_end :: "bytes \<Rightarrow> nat" where
  "dbase3_end data =
     (case find_pair data of
        Some i \<Rightarrow> i
      | None \<Rightarrow>
          (case find_byte EOF_MARKER data of
             Some i \<Rightarrow>
               if list_all (\<lambda>b. b = 0 \<or> b = 0x20 \<or> b = EOF_MARKER) (drop (i + 1) data) then i
               else length data
           | None \<Rightarrow> length data))"

definition memo_read :: "memo_file \<Rightarrow> u32 \<Rightarrow> (dbf_error, bytes option) result" where
  "memo_read mf block =
     (if block = 0 then Inr None
      else
        bindr (ok_or (Dbf_invalid ''memo block offset overflows usize'')
          (checked_mul (unat block) (mf_block_size mf))) (\<lambda>start.
        if length (mf_bytes mf) \<le> start
        then Inl (Dbf_invalid (''memo block '' @ show_nat (unat block) @ '' is outside the sidecar''))
        else
          (case mf_format mf of
             Dbase3 \<Rightarrow>
               let data = drop start (mf_bytes mf) in Inr (Some (take (dbase3_end data) data))
           | Dbase4 \<Rightarrow>
               bindr (ok_or (Dbf_invalid ''memo header overflows usize'') (checked_add start 8)) (\<lambda>header_end.
               bindr (ok_or (Dbf_invalid ''memo block header is truncated'')
                 (get_range (mf_bytes mf) start header_end)) (\<lambda>header.
               let total = unat (u32_from_le (subslice 4 8 header))
               in if total < 8
                  then Inl (Dbf_invalid ''dBASE IV memo length is smaller than its header'')
                  else
                    bindr (ok_or (Dbf_invalid ''memo data length overflows usize'')
                      (checked_add header_end (total - 8))) (\<lambda>stop.
                    bindr (ok_or (Dbf_invalid ''memo data is truncated'')
                      (get_range (mf_bytes mf) header_end stop)) (\<lambda>data. Inr (Some data)))))
           | FoxPro \<Rightarrow>
               bindr (ok_or (Dbf_invalid ''memo header overflows usize'') (checked_add start 8)) (\<lambda>header_end.
               bindr (ok_or (Dbf_invalid ''memo block header is truncated'')
                 (get_range (mf_bytes mf) start header_end)) (\<lambda>header.
               bindr (ok_or (Dbf_invalid ''memo data length overflows usize'')
                 (checked_add header_end (unat (u32_from_be (subslice 4 8 header))))) (\<lambda>stop.
               bindr (ok_or (Dbf_invalid ''memo data is truncated'')
                 (get_range (mf_bytes mf) header_end stop)) (\<lambda>data. Inr (Some data))))))))"

definition block_ceil :: "nat \<Rightarrow> nat \<Rightarrow> nat" where
  "block_ceil n b = n div b + (if n mod b \<noteq> 0 then 1 else 0)"

definition append_payload :: "memo_file \<Rightarrow> bytes \<Rightarrow> memo_file \<times> (dbf_error, u32) result" where
  "append_payload mf payload =
     (let len = length (mf_bytes mf); bsize = mf_block_size mf in
      if len < 4 then (mf, Inl (Dbf_invalid ''memo header is truncated''))
      else
        let start_block = block_ceil len bsize in
        (case checked_mul start_block bsize of
           None \<Rightarrow> (mf, Inl (Dbf_invalid ''memo block offset overflows usize''))
         | Some aligned \<Rightarrow>
             let mf1 = mf\<lparr>mf_bytes := (if len < aligned then resize aligned 0 (mf_bytes mf) else mf_bytes mf)\<rparr>;
                 block_count = block_ceil (length payload) bsize
             in (case checked_mul block_count bsize of
                   None \<Rightarrow> (mf1, Inl (Dbf_invalid ''memo text is too long''))
                 | Some padded \<Rightarrow>
                     let padding = (if mf_format mf = FoxPro then 0 else 0x20);
                         mf2 = mf1\<lparr>mf_bytes := mf_bytes mf1 @ resize padded padding payload\<rparr>
                     in (case Option.bind (checked_add start_block block_count) u32_try_from of
                           None \<Rightarrow> (mf2, Inl (Dbf_invalid ''memo block number overflows u32''))
                         | Some next_block \<Rightarrow>
                             let mf3 = mf2\<lparr>mf_bytes := copy_slice (mf_bytes mf2) 0
                                   (if mf_format mf = Dbase4 then u32_to_le next_block
                                    else u32_to_be next_block)\<rparr>
                             in (mf3, ok_or (Dbf_invalid ''memo block number overflows u32'')
                                   (u32_try_from start_block))))))"

definition append_text :: "memo_file \<Rightarrow> bytes \<Rightarrow> memo_file \<times> (dbf_error, u32) result" where
  "append_text mf data =
     (case
        (case mf_format mf of
           Dbase3 \<Rightarrow>
             if EOF_MARKER \<in> set data
             then Inl (Dbf_invalid ''dBASE III memo text contains the end marker'')
             else Inr (data @ [EOF_MARKER, EOF_MARKER])
         | Dbase4 \<Rightarrow>
             bindr (ok_or (Dbf_invalid ''memo text is too long'') (checked_add (length data) 8)) (\<lambda>n.
             bindr (ok_or (Dbf_invalid ''memo text is too long'') (u32_try_from n)) (\<lambda>len.
             Inr ([0xFF, 0xFF, 0x08, 0x00] @ u32_to_le len @ data)))
         | FoxPro \<Rightarrow>
             bindr (ok_or (Dbf_invalid ''memo text is too long'') (u32_try_from (length data))) (\<lambda>len.
             Inr (u32_to_be 1 @ u32_to_be len @ data))) of
        Inl e \<Rightarrow> (mf, Inl e)
      | Inr payload \<Rightarrow> append_payload mf payload)"

definition checked_add_u32 :: "u32 \<Rightarrow> u32 \<Rightarrow> u32 option" where
  "checked_add_u32 a b = (if unat a + unat b < 2 ^ 32 then Some (a + b) else None)"

definition append_binary :: "memo_file \<Rightarrow> bytes \<Rightarrow> memo_file \<times> (dbf_error, u32) result" where
  "append_binary mf data =
     (case
        bindr (ok_or (Dbf_invalid ''binary data is too long'') (u32_try_from (length data))) (\<lambda>len.
        bindr
          (case mf_format mf of
             Dbase3 \<Rightarrow>
               if (data \<noteq> [] \<and> last data = EOF_MARKER) \<or> find_pair data \<noteq> None
               then Inl (Dbf_invalid ''dBASE III binary data cannot contain its 0x1a1a terminator'')
               else Inr []
           | Dbase4 \<Rightarrow>
               bindr (ok_or (Dbf_invalid ''binary data is too long'') (checked_add_u32 len 8)) (\<lambda>total.
               Inr ([0xFF, 0xFF, 0x08, 0x00] @ u32_to_le total))
           | FoxPro \<Rightarrow> Inr (u32_to_be 0 @ u32_to_be len)) (\<lambda>header.
        Inr (header @ data @ (if mf_format mf = Dbase3 then [EOF_MARKER, EOF_MARKER] else [])))) of
        Inl e \<Rightarrow> (mf, Inl e)
      | Inr payload \<Rightarrow> append_payload mf payload)"

section \<open>Pointers and values\<close>

definition is_blank :: "u8 \<Rightarrow> bool" where
  "is_blank b \<longleftrightarrow> b = 0x20 \<or> b = 0"

definition memo_index :: "bytes \<Rightarrow> (dbf_error, u32 option) result" where
  "memo_index bs =
     (if list_all is_blank bs then Inr None
      else if length bs = 4 then Inr (Some (u32_from_le bs))
      else
        let text = rev (dropWhile is_blank (rev bs))
        in if text = [] then Inr None
           else if \<not> valid_utf8 text then Inl (Dbf_invalid ''memo block number is not ASCII'')
           else
             (case parse_u32 (trim_matches is_blank text) of
                None \<Rightarrow> Inl (Dbf_invalid ''memo block number is not an integer'')
              | Some n \<Rightarrow> Inr (Some n)))"

definition encode_memo_pointer :: "field_descriptor \<Rightarrow> u32 \<Rightarrow> (dbf_error, bytes) result" where
  "encode_memo_pointer field block =
     (if fd_length field = 4 then Inr (u32_to_le block)
      else
        let text = decimal_bytes (unat block); len = unat (fd_length field)
        in if len < length text
           then Inl (Dbf_invalid (''memo block number for '' @ fd_name field @ '' exceeds field width '' @
             show_nat (unat (fd_length field))))
           else Inr (replicate (len - length text) 0x20 @ text))"

definition hex :: "bytes \<Rightarrow> string" where
  "hex bs = bytes_string (hex_bytes bs)"

fun decode_hex_pairs :: "string \<Rightarrow> bytes \<Rightarrow> (dbf_error, bytes) result" where
  "decode_hex_pairs name (a # b # r) =
     (case (hex_digit a, hex_digit b) of
        (Some high, Some low) \<Rightarrow>
          bindr (decode_hex_pairs name r) (\<lambda>bs. Inr (or (push_bit 4 high) low # bs))
      | _ \<Rightarrow> Inl (Dbf_invalid (''binary field '' @ name @ '' contains a non-hexadecimal character'')))"
| "decode_hex_pairs name _ = Inr []"

definition binary_value :: "json \<Rightarrow> field_descriptor \<Rightarrow> (dbf_error, bytes) result" where
  "binary_value v field =
     (case json_as_str v of
        None \<Rightarrow>
          if v = JNull then Inr []
          else Inl (Dbf_invalid (''binary field '' @ fd_name field @
            '' requires an even-length hexadecimal string or null''))
      | Some text \<Rightarrow>
          if length (string_bytes text) mod 2 \<noteq> 0
          then Inl (Dbf_invalid (''binary field '' @ fd_name field @
            '' requires an even-length hexadecimal string''))
          else decode_hex_pairs (fd_name field) (string_bytes text))"

text \<open>\<open>number.to_string()\<close> of a double is the float printer of the JSON library, the argument \<open>show_f64\<close>.\<close>

definition show_number :: "(u64 \<Rightarrow> string) \<Rightarrow> json_number \<Rightarrow> string" where
  "show_number show_f64 n =
     (case n of
        PosInt w \<Rightarrow> show_nat (unat w)
      | NegInt i \<Rightarrow> ''-'' @ show_nat (nat (- i))
      | Float f \<Rightarrow> show_f64 f)"

definition value_text :: "(u64 \<Rightarrow> string) \<Rightarrow> json \<Rightarrow> field_descriptor \<Rightarrow> (dbf_error, string) result" where
  "value_text show_f64 v field =
     (case v of
        JNull \<Rightarrow> Inr []
      | JString text \<Rightarrow> Inr text
      | JNumber n \<Rightarrow> Inr (show_number show_f64 n)
      | JBool b \<Rightarrow> Inr (if b then ''true'' else ''false'')
      | _ \<Rightarrow> Inl (Dbf_invalid (''field '' @ fd_name field @ '' requires a scalar value'')))"

definition empty_memo_value :: "field_descriptor \<Rightarrow> json" where
  "empty_memo_value field = (if fd_length field = 4 then JNumber (PosInt 0) else JString [])"

definition storage_value_without_sidecar ::
  "(u64 \<Rightarrow> string) \<Rightarrow> json \<Rightarrow> field_descriptor \<Rightarrow> (dbf_error, json) result" where
  "storage_value_without_sidecar show_f64 v field =
     bindr
       (if is_binary field then bindr (binary_value v field) (\<lambda>bs. Inr (bs = []))
        else bindr (value_text show_f64 v field) (\<lambda>t. Inr (t = []))) (\<lambda>empty.
     if \<not> empty
     then Inl (Dbf_invalid (''memo sidecar is missing for non-empty field '' @ fd_name field))
     else Inr (empty_memo_value field))"

definition sidecar_update ::
  "(u64 \<Rightarrow> string) \<Rightarrow> json \<Rightarrow> field_descriptor \<Rightarrow> memo_format \<Rightarrow> (dbf_error, memo_update option) result" where
  "sidecar_update show_f64 v field format =
     (if \<not> is_binary field then
        bindr (value_text show_f64 v field) (\<lambda>text.
        Inr (if text \<noteq> [] then Some (Memo_text text) else None))
      else
        bindr (binary_value v field) (\<lambda>bs.
        if bs = [] then Inr None
        else if format = Dbase3 \<and> (last bs = EOF_MARKER \<or> find_pair bs \<noteq> None)
          then Inl (Dbf_invalid ''dBASE III binary data cannot contain its 0x1a1a terminator'')
        else Inr (Some (Memo_binary bs))))"

section \<open>The shape of an append\<close>

definition memo_inv :: "memo_file \<Rightarrow> bool" where
  "memo_inv mf \<longleftrightarrow>
     (if mf_format mf = FoxPro then 8 \<le> mf_block_size mf
      else DBT_BLOCK_SIZE \<le> mf_block_size mf \<and> mf_block_size mf mod DBT_BLOCK_SIZE = 0) \<and>
     mf_block_size mf \<le> length (mf_bytes mf)"

lemma memo_inv_size: "memo_inv mf \<Longrightarrow> 8 \<le> mf_block_size mf \<and> mf_block_size mf \<le> length (mf_bytes mf)"
  by (auto simp: memo_inv_def DBT_BLOCK_SIZE_def split: if_splits)

lemma memo_from_bytes_inv: "memo_from_bytes bs format = Inr mf \<Longrightarrow> memo_inv mf \<and> mf_bytes mf = bs \<and> mf_format mf = format"
  by (cases format) (auto simp: memo_from_bytes_def memo_inv_def result_simps split: if_splits)

lemma block_ceil_ge: "0 < b \<Longrightarrow> n \<le> block_ceil n b * b"
proof -
  assume b: "0 < b"
  have n: "n = n div b * b + n mod b" by simp
  show ?thesis
  proof (cases "n mod b = 0")
    case True
    then show ?thesis using n by (simp add: block_ceil_def)
  next
    case False
    have "n mod b < b" using b by simp
    then have "n \<le> n div b * b + b" using n by linarith
    then show ?thesis using False by (simp add: block_ceil_def)
  qed
qed

lemma block_ceil_pos: "0 < b \<Longrightarrow> b \<le> n \<Longrightarrow> 0 < block_ceil n b"
  by (simp add: block_ceil_def div_greater_zero_iff)

lemma resize_extend: "length xs \<le> n \<Longrightarrow> resize n x xs = xs @ replicate (n - length xs) x"
  by (simp add: resize_def)

lemma append_payload_shape:
  assumes inv: "memo_inv mf" and app: "append_payload mf payload = (mf', Inr block)"
  obtains pre head k where
    "mf_bytes mf' = pre @ payload @ replicate k (if mf_format mf = FoxPro then 0 else 0x20)"
    "length pre = unat block * mf_block_size mf" "unat block * mf_block_size mf < usize_limit"
    "pre = head @ drop 4 (mf_bytes mf) @ replicate (length pre - length (mf_bytes mf)) 0"
    "length head = 4" "length (mf_bytes mf) \<le> length pre" "0 < unat block"
    "mf_format mf' = mf_format mf" "mf_block_size mf' = mf_block_size mf" "memo_inv mf'"
proof -
  let ?len = "length (mf_bytes mf)" and ?b = "mf_block_size mf"
  let ?s = "block_ceil ?len ?b" and ?c = "block_ceil (length payload) ?b"
  let ?pad = "if mf_format mf = FoxPro then 0 else 0x20 :: u8"
  let ?base = "if ?len < ?s * ?b then resize (?s * ?b) 0 (mf_bytes mf) else mf_bytes mf"
  have b: "8 \<le> ?b" "?b \<le> ?len" using memo_inv_size [OF inv] by auto
  then have ge: "?len \<le> ?s * ?b" "length payload \<le> ?c * ?b" using block_ceil_ge by auto
  obtain head where h: "length head = 4" "?s * ?b < usize_limit" "?s < 2 ^ 32"
    "block = word_of_nat ?s"
    "mf' = mf\<lparr>mf_bytes := copy_slice (?base @ resize (?c * ?b) ?pad payload) 0 head\<rparr>"
  proof -
    have "\<not> ?len < 4" using b by simp
    with app obtain nb where
      "checked_mul ?s ?b = Some (?s * ?b)" "checked_mul ?c ?b = Some (?c * ?b)"
      "u32_try_from ?s = Some block"
      "mf' = mf\<lparr>mf_bytes := copy_slice (?base @ resize (?c * ?b) ?pad payload) 0
          (if mf_format mf = Dbase4 then u32_to_le nb else u32_to_be nb)\<rparr>"
      by (auto simp: append_payload_def Let_def result_simps split: option.splits)
    then show ?thesis
      using that [of "if mf_format mf = Dbase4 then u32_to_le nb else u32_to_be nb"]
      by (auto simp: result_simps)
  qed
  have base: "?base = mf_bytes mf @ replicate (?s * ?b - ?len) 0"
    using ge(1) by (auto simp: resize_extend)
  let ?pre = "head @ drop 4 (mf_bytes mf) @ replicate (?s * ?b - ?len) 0"
  have len: "length ?pre = ?s * ?b" using h(1) b ge by simp
  have u: "unat block = ?s" using h by (simp add: unat_u32_of_nat)
  have bytes: "mf_bytes mf' = ?pre @ payload @ replicate (?c * ?b - length payload) ?pad"
    using h(1,5) b ge(2) unfolding base by (simp add: copy_slice_def resize_extend)
  have "memo_inv mf'"
    using inv h(5) bytes ge(1) len b unfolding memo_inv_def by (auto split: if_splits)
  then show ?thesis
    using that [of ?pre "?c * ?b - length payload" head] bytes len u h(1,2,5) ge(1) block_ceil_pos b
    by auto
qed

section \<open>Terminators of dBASE III\<close>

lemma find_pair_append: "find_pair xs = Some i \<Longrightarrow> find_pair (xs @ ys) = Some i"
  by (induction xs arbitrary: i rule: find_pair.induct) (auto split: if_splits)

lemma find_pair_terminated:
  assumes "find_pair data = None" "data = [] \<or> last data \<noteq> EOF_MARKER"
  shows "find_pair (data @ EOF_MARKER # EOF_MARKER # r) = Some (length data)"
  using assms
proof (induction data)
  case Nil
  show ?case by simp
next
  case (Cons a data)
  then show ?case by (cases data) (auto split: if_splits)
qed

lemma find_pair_no_marker: "EOF_MARKER \<notin> set data \<Longrightarrow> find_pair data = None"
  by (induction data rule: find_pair.induct) auto

lemma dbase3_end_terminated:
  assumes "find_pair data = None" "data = [] \<or> last data \<noteq> EOF_MARKER"
  shows "dbase3_end (data @ EOF_MARKER # EOF_MARKER # r) = length data"
  using find_pair_terminated [OF assms] by (simp add: dbase3_end_def)

lemma find_pair_length: "find_pair xs = Some i \<Longrightarrow> i \<le> length xs"
  by (induction xs arbitrary: i rule: find_pair.induct) (auto split: if_splits)

section \<open>Reading back\<close>

lemma memo_read_cases:
  assumes "block \<noteq> 0" "unat block * mf_block_size mf < usize_limit"
    and "mf_bytes mf = pre @ rest" "length pre = unat block * mf_block_size mf" "rest \<noteq> []"
    and "length (mf_bytes mf) < usize_limit"
  shows "mf_format mf = Dbase3 \<Longrightarrow> memo_read mf block = Inr (Some (take (dbase3_end rest) rest))"
    and "mf_format mf = Dbase4 \<Longrightarrow> rest = h @ u32_to_le n @ data @ pad \<Longrightarrow> length h = 4 \<Longrightarrow>
      unat n = length data + 8 \<Longrightarrow> memo_read mf block = Inr (Some data)"
    and "mf_format mf = FoxPro \<Longrightarrow> rest = h @ u32_to_be n @ data @ pad \<Longrightarrow> length h = 4 \<Longrightarrow>
      unat n = length data \<Longrightarrow> memo_read mf block = Inr (Some data)"
proof -
  have start: "checked_mul (unat block) (mf_block_size mf) = Some (length pre)"
    using assms by (simp add: checked_mul_def)
  have lt: "length pre < length (mf_bytes mf)" using assms(3,5) by simp
  show "memo_read mf block = Inr (Some (take (dbase3_end rest) rest))" if "mf_format mf = Dbase3"
    using that assms(1,3,5) start lt by (simp add: memo_read_def)
  have len: "length pre + 8 + length data < usize_limit" if "rest = h @ l @ data @ pad" "length h = 4" "length l = 4"
    for l using that assms(3,6) by simp
  have hd: "get_range (mf_bytes mf) (length pre) (length pre + 8) = Some (h @ l)"
    "subslice 4 8 (h @ l) = l"
    "get_range (mf_bytes mf) (length pre + 8) (length pre + 8 + length data) = Some data"
    if "rest = h @ l @ data @ pad" "length h = 4" "length l = 4" for l
    using that assms(3) get_range_append_mid [of pre "h @ l" "data @ pad"]
      get_range_append_mid [of "pre @ h @ l" data pad]
    by (simp_all add: subslice_def)
  show "memo_read mf block = Inr (Some data)"
    if "mf_format mf = Dbase4" "rest = h @ u32_to_le n @ data @ pad" "length h = 4" "unat n = length data + 8"
    using that assms(1) start lt hd [of "u32_to_le n"] len [of "u32_to_le n"]
    by (simp add: memo_read_def checked_add_def not_le)
  show "memo_read mf block = Inr (Some data)"
    if "mf_format mf = FoxPro" "rest = h @ u32_to_be n @ data @ pad" "length h = 4" "unat n = length data"
    using that assms(1) start lt hd [of "u32_to_be n"] len [of "u32_to_be n"]
    by (simp add: memo_read_def checked_add_def not_le)
qed

definition framed :: "memo_format \<Rightarrow> bytes \<Rightarrow> bytes \<Rightarrow> bool" where
  "framed format data payload \<longleftrightarrow>
     (case format of
        Dbase3 \<Rightarrow> payload = data @ [EOF_MARKER, EOF_MARKER] \<and> find_pair data = None \<and>
          (data = [] \<or> last data \<noteq> EOF_MARKER)
      | Dbase4 \<Rightarrow> \<exists>h n. payload = h @ u32_to_le n @ data \<and> length h = 4 \<and> unat n = length data + 8
      | FoxPro \<Rightarrow> \<exists>h n. payload = h @ u32_to_be n @ data \<and> length h = 4 \<and> unat n = length data)"

lemma framed_not_Nil: "framed format data payload \<Longrightarrow> payload \<noteq> []"
  by (cases format) (auto simp: framed_def)

lemma framed_Dbase4I:
  "length h = 4 \<Longrightarrow> unat n = length data + 8 \<Longrightarrow> framed Dbase4 data (h @ u32_to_le n @ data)"
  by (auto simp: framed_def)

lemma framed_FoxProI:
  "length h = 4 \<Longrightarrow> unat n = length data \<Longrightarrow> framed FoxPro data (h @ u32_to_be n @ data)"
  by (auto simp: framed_def)

lemma append_text_framed:
  assumes "append_text mf data = (mf', Inr block)"
  obtains payload where "framed (mf_format mf) data payload"
    "append_payload mf payload = (mf', Inr block)"
proof (cases "mf_format mf")
  case Dbase3
  then show ?thesis
    using assms that [of "data @ [EOF_MARKER, EOF_MARKER]"] find_pair_no_marker [of data] last_in_set
    by (force simp: append_text_def framed_def split: if_splits)
next
  case Dbase4
  let ?p = "[0xFF, 0xFF, 0x08, 0x00] @ u32_to_le (word_of_nat (length data + 8)) @ data"
  have a: "length data + 8 < 2 ^ 32" "append_payload mf ?p = (mf', Inr block)"
    using assms Dbase4 by (auto simp: append_text_def result_simps split: sum.splits)
  have "framed Dbase4 data ?p" using unat_u32_of_nat [OF a(1)] by (intro framed_Dbase4I) simp_all
  with a(2) that Dbase4 show ?thesis by metis
next
  case FoxPro
  let ?p = "u32_to_be 1 @ u32_to_be (word_of_nat (length data)) @ data"
  have a: "length data < 2 ^ 32" "append_payload mf ?p = (mf', Inr block)"
    using assms FoxPro by (auto simp: append_text_def result_simps split: sum.splits)
  have "framed FoxPro data ?p" using unat_u32_of_nat [OF a(1)] by (intro framed_FoxProI) simp_all
  with a(2) that FoxPro show ?thesis by metis
qed

lemma append_binary_framed:
  assumes "append_binary mf data = (mf', Inr block)"
  obtains payload where "framed (mf_format mf) data payload"
    "append_payload mf payload = (mf', Inr block)"
proof (cases "mf_format mf")
  case Dbase3
  then show ?thesis
    using assms that [of "data @ [EOF_MARKER, EOF_MARKER]"]
    by (auto simp: append_binary_def framed_def result_simps split: sum.splits if_splits)
next
  case Dbase4
  let ?n = "word_of_nat (length data) + 8 :: u32"
  from assms Dbase4 have u: "length data + 8 < 2 ^ 32"
    and a: "append_payload mf ([0xFF, 0xFF, 0x08, 0x00] @ u32_to_le ?n @ data) = (mf', Inr block)"
    by (auto simp: append_binary_def result_simps checked_add_u32_def unat_u32_of_nat
        split: sum.splits if_splits)
  have "unat ?n = length data + 8"
    using u by (simp add: unat_word_ariths unat_u32_of_nat)
  then have "framed Dbase4 data ([0xFF, 0xFF, 0x08, 0x00] @ u32_to_le ?n @ data)"
    by (intro framed_Dbase4I) simp_all
  with a that Dbase4 show ?thesis by metis
next
  case FoxPro
  let ?p = "u32_to_be 0 @ u32_to_be (word_of_nat (length data)) @ data"
  have a: "length data < 2 ^ 32" "append_payload mf ?p = (mf', Inr block)"
    using assms FoxPro by (auto simp: append_binary_def result_simps split: sum.splits)
  have "framed FoxPro data ?p" using unat_u32_of_nat [OF a(1)] by (intro framed_FoxProI) simp_all
  with a(2) that FoxPro show ?thesis by metis
qed

lemma read_framed:
  assumes inv: "memo_inv mf" and app: "append_payload mf payload = (mf', Inr block)"
    and fr: "framed (mf_format mf) data payload" and len: "length (mf_bytes mf') < usize_limit"
  shows "memo_read mf' block = Inr (Some data) \<and> memo_inv mf'"
proof -
  obtain pre head k where
    sh: "mf_bytes mf' = pre @ payload @ replicate k (if mf_format mf = FoxPro then 0 else 0x20)"
    "length pre = unat block * mf_block_size mf" "unat block * mf_block_size mf < usize_limit"
    "0 < unat block" "mf_format mf' = mf_format mf" "mf_block_size mf' = mf_block_size mf" "memo_inv mf'"
    by (rule append_payload_shape [OF inv app])
  let ?rest = "payload @ replicate k (if mf_format mf = FoxPro then 0 else 0x20)"
  have nz: "block \<noteq> 0" using sh(4) by auto
  note cases = memo_read_cases [of block mf' pre ?rest, unfolded sh(5,6), OF nz sh(3) sh(1) sh(2) _ len]
  have ne: "?rest \<noteq> []" using framed_not_Nil [OF fr] by simp
  have "memo_read mf' block = Inr (Some data)"
  proof (cases "mf_format mf")
    case Dbase3
    then show ?thesis
      using cases(1) [OF ne] fr dbase3_end_terminated [of data] by (simp add: framed_def)
  next
    case Dbase4
    then show ?thesis using cases(2) [OF ne] fr by (auto simp: framed_def)
  next
    case FoxPro
    then show ?thesis using cases(3) [OF ne] fr by (auto simp: framed_def)
  qed
  with sh(7) show ?thesis by simp
qed

section \<open>What an append leaves alone\<close>

lemma get_range_frame:
  assumes "get_range bs i j = Some x" "4 \<le> i" "length h = 4"
  shows "get_range (h @ drop 4 bs @ ext) i j = Some x"
  using assms by (auto simp: get_range_def subslice_def split: if_splits)

lemma drop_frame:
  assumes "4 \<le> i" "i \<le> length bs" "length h = 4"
  shows "drop i (h @ drop 4 bs @ ext) = drop i bs @ ext"
  using assms by simp

lemma memo_read_frame:
  assumes inv: "memo_inv mf" and same: "mf_format mf' = mf_format mf" "mf_block_size mf' = mf_block_size mf"
    and bytes: "mf_bytes mf' = h @ drop 4 (mf_bytes mf) @ ext" "length h = 4"
    and read: "memo_read mf b = Inr (Some x)"
    and ended: "mf_format mf = Dbase3 \<Longrightarrow> find_pair (drop (unat b * mf_block_size mf) (mf_bytes mf)) \<noteq> None"
  shows "memo_read mf' b = Inr (Some x)"
proof -
  let ?s = "unat b * mf_block_size mf"
  have nz: "b \<noteq> 0" using read by (auto simp: memo_read_def)
  then have "0 < unat b" by (simp add: unat_gt_0)
  then have s4: "4 \<le> ?s" using memo_inv_size [OF inv] by (cases "unat b") auto
  have st: "checked_mul (unat b) (mf_block_size mf) = Some ?s" "?s < length (mf_bytes mf)"
    using read nz by (auto simp: memo_read_def result_simps split: if_splits)
  then have lt: "\<not> length (mf_bytes mf') \<le> ?s" using bytes memo_inv_size [OF inv] by simp
  show ?thesis
  proof (cases "mf_format mf")
    case Dbase3
    then obtain i where i: "find_pair (drop ?s (mf_bytes mf)) = Some i" using ended by auto
    then have "find_pair (drop ?s (mf_bytes mf) @ ext) = Some i" by (rule find_pair_append)
    moreover have "i \<le> length (drop ?s (mf_bytes mf))" using find_pair_length [OF i] .
    ultimately show ?thesis
      using Dbase3 read nz st lt same drop_frame [OF s4 _ bytes(2), of "mf_bytes mf" ext] i
      by (simp add: memo_read_def bytes(1) dbase3_end_def not_le)
  next
    case Dbase4
    then obtain hdr where hdr: "get_range (mf_bytes mf) ?s (?s + 8) = Some hdr" "?s + 8 < usize_limit"
      and dat: "\<not> unat (u32_from_le (subslice 4 8 hdr)) < 8"
        "?s + 8 + (unat (u32_from_le (subslice 4 8 hdr)) - 8) < usize_limit"
        "get_range (mf_bytes mf) (?s + 8) (?s + 8 + (unat (u32_from_le (subslice 4 8 hdr)) - 8)) = Some x"
      using read nz st
      by (auto simp: memo_read_def bindr_Inr_iff ok_or_Inr_iff checked_add_Some_iff Let_def not_le
          split: if_splits)
    note fr = get_range_frame [OF hdr(1) _ bytes(2), of ext] get_range_frame [OF dat(3) _ bytes(2), of ext]
    show ?thesis
      using Dbase4 nz st lt same s4 hdr(2) dat(1,2) fr
      by (simp add: memo_read_def bytes(1) checked_add_def not_le)
  next
    case FoxPro
    then obtain hdr where hdr: "get_range (mf_bytes mf) ?s (?s + 8) = Some hdr" "?s + 8 < usize_limit"
      and dat: "?s + 8 + unat (u32_from_be (subslice 4 8 hdr)) < usize_limit"
        "get_range (mf_bytes mf) (?s + 8) (?s + 8 + unat (u32_from_be (subslice 4 8 hdr))) = Some x"
      using read nz st
      by (auto simp: memo_read_def bindr_Inr_iff ok_or_Inr_iff checked_add_Some_iff not_le
          split: if_splits)
    note fr = get_range_frame [OF hdr(1) _ bytes(2), of ext] get_range_frame [OF dat(2) _ bytes(2), of ext]
    show ?thesis
      using FoxPro nz st lt same s4 hdr(2) dat(1) fr
      by (simp add: memo_read_def bytes(1) checked_add_def not_le)
  qed
qed

section \<open>Properties of the sidecar\<close>

text \<open>
  C27. What is appended is read back.  For all three sidecar formats, when \<open>append_text\<close> or
  \<open>append_binary\<close> returns a block number, reading that block of the extended sidecar
  gives exactly the bytes appended, and the sidecar stays well formed.
\<close>

theorem memo_append_reads_back:
  assumes "memo_inv mf" "length (mf_bytes mf') < usize_limit"
    and "append_text mf data = (mf', Inr block) \<or> append_binary mf data = (mf', Inr block)"
  shows "memo_read mf' block = Inr (Some data) \<and> memo_inv mf'"
  using assms(3)
proof
  assume "append_text mf data = (mf', Inr block)"
  then show ?thesis
    by (rule append_text_framed) (rule read_framed [OF assms(1) _ _ assms(2)])
next
  assume "append_binary mf data = (mf', Inr block)"
  then show ?thesis
    by (rule append_binary_framed) (rule read_framed [OF assms(1) _ _ assms(2)])
qed

definition sample_memo :: memo_file where
  "sample_memo = \<lparr>mf_bytes = replicate 8 0, mf_block_size = 8, mf_format = FoxPro\<rparr>"

lemma sample_memo_append:
  "append_text sample_memo [0x41] =
     (\<lparr>mf_bytes = u32_to_be 3 @ replicate 4 0 @ u32_to_be 1 @ u32_to_be 1 @ [0x41] @ replicate 7 0,
       mf_block_size = 8, mf_format = FoxPro\<rparr>, Inr 1)"
  by (simp add: append_text_def sample_memo_def append_payload_def block_ceil_def checked_mul_def
      checked_add_def u32_try_from_def usize_limit_def copy_slice_def resize_def)

lemma sample_memo_inv: "memo_inv sample_memo"
  by (simp add: memo_inv_def sample_memo_def)

theorem memo_append_reads_back_witness:
  "memo_read (fst (append_text sample_memo [0x41])) 1 = Inr (Some [0x41])"
  using memo_append_reads_back [OF sample_memo_inv _ disjI1 [OF sample_memo_append]]
  by (simp add: sample_memo_append usize_limit_def)

text \<open>
  C28. Appending leaves the older memos alone: every memo that could be read before an
  append reads the same afterwards, whatever is appended.  For dBASE III this needs
  that the older memo was closed by its two end markers.
\<close>

theorem memo_append_keeps_others:
  assumes "memo_inv mf"
    and "append_text mf data = (mf', Inr block) \<or> append_binary mf data = (mf', Inr block)"
    and "memo_read mf other = Inr (Some x)"
    and "mf_format mf = Dbase3 \<Longrightarrow>
      find_pair (drop (unat other * mf_block_size mf) (mf_bytes mf)) \<noteq> None"
  shows "memo_read mf' other = Inr (Some x) \<and> memo_inv mf'"
proof -
  obtain payload where "append_payload mf payload = (mf', Inr block)"
    using assms(2) append_text_framed append_binary_framed by metis
  then obtain pre head k where
    sh: "mf_bytes mf' = pre @ payload @ replicate k (if mf_format mf = FoxPro then 0 else 0x20)"
    "pre = head @ drop 4 (mf_bytes mf) @ replicate (length pre - length (mf_bytes mf)) 0"
    "length head = 4" "mf_format mf' = mf_format mf" "mf_block_size mf' = mf_block_size mf" "memo_inv mf'"
    by (rule append_payload_shape [OF assms(1)])
  then have "mf_bytes mf' = head @ drop 4 (mf_bytes mf) @
      (replicate (length pre - length (mf_bytes mf)) 0 @ payload @
       replicate k (if mf_format mf = FoxPro then 0 else 0x20))"
    by (metis append.assoc)
  from memo_read_frame [OF assms(1) sh(4,5) this sh(3) assms(3,4)] sh(6) show ?thesis by simp
qed

theorem memo_append_keeps_others_witness:
  "\<exists>mf mf'. append_text mf [0x42] = (mf', Inr 3) \<and> memo_read mf' 1 = Inr (Some [0x41])"
proof -
  let ?mf = "\<lparr>mf_bytes = u32_to_be 3 @ replicate 4 0 @ u32_to_be 1 @ u32_to_be 1 @ [0x41] @ replicate 7 0,
     mf_block_size = 8, mf_format = FoxPro\<rparr>"
  let ?mf' = "\<lparr>mf_bytes = u32_to_be 5 @ replicate 4 0 @ u32_to_be 1 @ u32_to_be 1 @ [0x41] @ replicate 7 0 @
     u32_to_be 1 @ u32_to_be 1 @ [0x42] @ replicate 7 0, mf_block_size = 8, mf_format = FoxPro\<rparr>"
  have inv: "memo_inv ?mf" by (simp add: memo_inv_def)
  have app: "append_text ?mf [0x42] = (?mf', Inr 3)"
    by (simp add: append_text_def append_payload_def block_ceil_def checked_mul_def
        checked_add_def u32_try_from_def usize_limit_def copy_slice_def resize_def)
  have read: "memo_read ?mf 1 = Inr (Some [0x41])"
    using memo_read_cases(3) [of 1 ?mf "u32_to_be 3 @ replicate 4 0"
        "u32_to_be 1 @ u32_to_be 1 @ [0x41] @ replicate 7 0" "u32_to_be 1" 1 "[0x41]" "replicate 7 0"]
    by (simp add: usize_limit_def)
  have "mf_format ?mf \<noteq> Dbase3" by simp
  with memo_append_keeps_others [OF inv disjI1 [OF app] read] app show ?thesis by blast
qed

lemma find_pair_skip: "a \<noteq> EOF_MARKER \<Longrightarrow> find_pair (a # r) = map_option Suc (find_pair r)"
  by (cases r) auto

lemma find_pair_replicate:
  "x \<noteq> EOF_MARKER \<Longrightarrow> find_pair (replicate k x @ r) = map_option ((+) k) (find_pair r)"
proof (induction k)
  case 0
  show ?case by (cases "find_pair r") auto
next
  case (Suc k)
  then show ?case by (cases "find_pair r") (auto simp: find_pair_skip)
qed

lemma find_pair_single:
  "x \<noteq> EOF_MARKER \<Longrightarrow> 0 < k \<Longrightarrow> find_pair (EOF_MARKER # replicate k x @ r) = map_option ((+) (Suc k)) (find_pair r)"
proof (cases k)
  case (Suc j)
  assume "x \<noteq> EOF_MARKER"
  then show ?thesis
    using Suc find_pair_replicate [of x k r] by (cases "find_pair r") auto
qed simp

lemma memo_read_dbase3:
  assumes "mf_format mf = Dbase3" "block \<noteq> 0" "unat block * mf_block_size mf < usize_limit"
    and "mf_bytes mf = pre @ rest" "length pre = unat block * mf_block_size mf" "rest \<noteq> []"
  shows "memo_read mf block = Inr (Some (take (dbase3_end rest) rest))"
proof -
  have "checked_mul (unat block) (mf_block_size mf) = Some (length pre)" using assms(3,5) by (simp add: checked_mul_def)
  moreover have "length pre < length (mf_bytes mf)" using assms(4,6) by simp
  ultimately show ?thesis using assms(1,2,4) by (simp add: memo_read_def)
qed

lemma find_byte_at: "b \<notin> set t \<Longrightarrow> find_byte b (t @ b # r) = Some (length t)"
  by (induction t) auto

lemma find_pair_text: "EOF_MARKER \<notin> set t \<Longrightarrow> find_pair (t @ r) = map_option ((+) (length t)) (find_pair r)"
  by (cases "find_pair r"; induction t) (auto simp: find_pair_skip)

lemma find_pair_blank:
  assumes "b \<noteq> EOF_MARKER" "EOF_MARKER \<notin> set bs"
  shows "find_pair (EOF_MARKER # b # bs @ r) = map_option ((+) (Suc (Suc (length bs)))) (find_pair r)"
  using find_pair_text [of "b # bs" r] assms by (cases "find_pair r") auto

text \<open>
  C30. A dBASE III memo that is closed by a single end marker and padding of blanks or zeros,
  and is the last one of the file, is read up to that marker.  Once any text is appended, the
  same block reads on through its marker, its padding and the appended text.
\<close>

theorem single_marker_memo_changes:
  assumes "memo_inv mf" "mf_format mf = Dbase3" "block \<noteq> 0" "unat block * mf_block_size mf < usize_limit"
    and "mf_bytes mf = pre @ t @ EOF_MARKER # pad" "length pre = unat block * mf_block_size mf"
    and "EOF_MARKER \<notin> set t" "pad \<noteq> []" "list_all (\<lambda>b. b = 0 \<or> b = 0x20) pad"
    and "append_text mf u = (mf', Inr i)"
  shows "memo_read mf block = Inr (Some t) \<and>
    (\<exists>k. memo_read mf' block = Inr (Some (t @ [EOF_MARKER] @ pad @ replicate k 0 @ u)))"
proof -
  have blank: "EOF_MARKER \<notin> set (pad @ replicate k 0)" for k using assms(9) by (auto simp: EOF_MARKER_def list_all_iff)
  obtain b bs where pad: "pad = b # bs" "b \<noteq> EOF_MARKER" using assms(8) blank [of 0] by (cases pad) auto
  note pair = find_pair_blank [OF pad(2)]
  have "find_pair (t @ EOF_MARKER # pad) = None"
    using find_pair_text [OF assms(7), of "EOF_MARKER # pad"] pair [of bs "[]"] blank [of 0] by (simp add: pad(1))
  then have "dbase3_end (t @ EOF_MARKER # pad) = length t"
    using assms(9) by (auto simp: dbase3_end_def find_byte_at [OF assms(7)] list_all_iff)
  then have old: "memo_read mf block = Inr (Some t)" using memo_read_dbase3 [OF assms(2-6)] by simp
  have u: "EOF_MARKER \<notin> set u" and app: "append_payload mf (u @ [EOF_MARKER, EOF_MARKER]) = (mf', Inr i)"
    using assms(2,10) by (auto simp: append_text_def split: if_splits)
  obtain pre' head n where sh: "mf_bytes mf' = pre' @ (u @ [EOF_MARKER, EOF_MARKER]) @ replicate n (if mf_format mf = FoxPro then 0 else 0x20)"
    "pre' = head @ drop 4 (mf_bytes mf) @ replicate (length pre' - length (mf_bytes mf)) 0"
    "length head = 4" "mf_format mf' = mf_format mf" "mf_block_size mf' = mf_block_size mf"
    by (rule append_payload_shape [OF assms(1) app]) blast
  define k where "k = length pre' - length (mf_bytes mf)"
  let ?z = "replicate k (0 :: u8)" and ?rest = "EOF_MARKER # EOF_MARKER # replicate n 0x20"
  have "mf_block_size mf \<le> unat block * mf_block_size mf" using assms(3) by (cases "unat block") (auto simp: unat_eq_0)
  then have four: "4 \<le> length pre" using memo_inv_size [OF assms(1)] assms(6) by linarith
  have pre': "pre' = (head @ drop 4 pre) @ t @ EOF_MARKER # pad @ ?z"
    using sh(2) [folded k_def] four by (simp add: assms(5))
  have bytes: "mf_bytes mf' = (head @ drop 4 pre) @ t @ EOF_MARKER # pad @ ?z @ u @ ?rest"
    unfolding sh(1) pre' using assms(2) by simp
  have "find_pair (bs @ ?z @ u @ ?rest) = Some (length bs + k + length u)"
    using find_pair_text [of "bs @ ?z @ u" ?rest] blank [of k] u by (simp add: pad(1))
  moreover have "EOF_MARKER \<notin> set (bs @ ?z @ u)" using blank [of k] u by (simp add: pad(1))
  ultimately have "dbase3_end (t @ EOF_MARKER # pad @ ?z @ u @ ?rest) = length t + (Suc (Suc (length bs + k + length u)))"
    using find_pair_text [OF assms(7), of "EOF_MARKER # pad @ ?z @ u @ ?rest"] pair [of "bs @ ?z @ u" ?rest]
    by (simp add: dbase3_end_def pad(1))
  then have "memo_read mf' block = Inr (Some (t @ [EOF_MARKER] @ pad @ ?z @ u))"
    using memo_read_dbase3 [OF _ assms(3) _ bytes] sh(3-5) assms(2,4,6) four by (simp add: pad(1))
  with old show ?thesis by blast
qed

theorem single_marker_memo_changes_witness:
  "\<exists>mf mf' k. memo_read mf 1 = Inr (Some [0x41]) \<and> append_text mf [0x42] = (mf', Inr 2) \<and>
     memo_read mf' 1 = Inr (Some ([0x41, EOF_MARKER] @ replicate 510 0x20 @ replicate k 0 @ [0x42]))"
proof -
  let ?old = "[0x41, EOF_MARKER] @ replicate 510 0x20"
  let ?mf = "\<lparr>mf_bytes = replicate 512 0 @ ?old, mf_block_size = 512, mf_format = Dbase3\<rparr>"
  let ?mf' = "\<lparr>mf_bytes = (u32_to_be 3 @ replicate 508 0) @ ?old @ [0x42, EOF_MARKER, EOF_MARKER] @ replicate 509 0x20,
    mf_block_size = 512, mf_format = Dbase3\<rparr>"
  have sp: "EOF_MARKER \<noteq> (0x41 :: u8)" "EOF_MARKER \<noteq> (0x42 :: u8)"
    by (simp_all add: EOF_MARKER_def)
  have inv: "memo_inv ?mf" by (simp add: memo_inv_def DBT_BLOCK_SIZE_def)
  have app: "append_text ?mf [0x42] = (?mf', Inr 2)"
    using sp by (simp add: append_text_def append_payload_def block_ceil_def checked_mul_def
        checked_add_def u32_try_from_def usize_limit_def copy_slice_def resize_def)
  have "memo_read ?mf 1 = Inr (Some [0x41]) \<and>
      (\<exists>k. memo_read ?mf' 1 = Inr (Some ([0x41] @ [EOF_MARKER] @ replicate 510 0x20 @ replicate k 0 @ [0x42])))"
    by (rule single_marker_memo_changes [OF inv _ _ _ _ _ _ _ _ app, where pre = "replicate 512 0"])
      (use sp in \<open>simp_all add: usize_limit_def list_all_iff\<close>)
  with app show ?thesis by (intro exI [of _ ?mf] exI [of _ ?mf']) simp
qed

lemma digit_not_blank: "is_ascii_digit b \<Longrightarrow> \<not> is_blank b"
  by (auto simp: is_ascii_digit_def is_blank_def)

lemma memo_index_padded:
  assumes "n < 2 ^ 32" "k + length (decimal_bytes n) \<noteq> 4"
  shows "memo_index (replicate k 0x20 @ decimal_bytes n) = Inr (Some (word_of_nat n))"
proof -
  let ?t = "decimal_bytes n"
  have nb: "\<forall>b \<in> set ?t. \<not> is_blank b"
    using decimal_bytes_digits [of n] digit_not_blank by (auto simp: list_all_iff)
  have hd: "\<not> is_blank (hd ?t)" "\<not> is_blank (hd (rev ?t))"
    using nb by (simp_all add: hd_rev)
  have drop: "dropWhile is_blank (replicate k 0x20 @ ?t) = ?t"
    by (subst dropWhile_append2) (use hd in \<open>auto simp: is_blank_def dropWhile_eq_self_iff\<close>)
  have rv: "dropWhile is_blank (rev ?t @ xs) = rev ?t @ xs" for xs
    using hd(2) by (cases "rev ?t") auto
  have "valid_utf8 (replicate k 0x20 @ ?t)"
    using decimal_bytes_digits [of n]
    by (intro valid_utf8_ascii) (auto simp: list_all_iff is_ascii_digit_def intro: le_less_trans)
  moreover have "\<not> list_all is_blank (replicate k 0x20 @ ?t)"
    using hd(1) by (cases ?t) auto
  moreover have "trim_matches is_blank (replicate k 0x20 @ ?t) = ?t"
    using rv [of "[]"] by (simp add: trim_matches_def drop)
  ultimately show ?thesis
    using assms rv [of "rev (replicate k 0x20)"] by (simp add: memo_index_def parse_u32_decimal)
qed

text \<open>
  C29. Memo pointers.  A pointer that \<open>encode_memo_pointer\<close> writes into a field is read back
  by \<open>memo_index\<close> as the same block number, with one exception: in a four-byte field, a
  block number whose bytes are all zero or blank (0x20) is read as no memo at all.
\<close>

theorem memo_pointer_roundtrip:
  assumes "encode_memo_pointer field block = Inr p"
  shows "length p = unat (fd_length field) \<and>
    memo_index p = Inr (if fd_length field = 4 \<and> list_all is_blank (u32_to_le block) then None
      else Some block)"
proof (cases "fd_length field = 4")
  case True
  with assms show ?thesis by (auto simp: encode_memo_pointer_def memo_index_def)
next
  case False
  let ?t = "decimal_bytes (unat block)"
  have p: "p = replicate (unat (fd_length field) - length ?t) 0x20 @ ?t"
    and le: "length ?t \<le> unat (fd_length field)"
    using assms False by (auto simp: encode_memo_pointer_def Let_def split: if_splits)
  have "unat (fd_length field) \<noteq> 4"
    using False by (auto simp: word_unat_eq_iff)
  with p le show ?thesis
    using memo_index_padded [of "unat block" "unat (fd_length field) - length ?t"] unat_u32_less [of block]
      False by simp
qed

theorem memo_pointer_roundtrip_witness:
  "\<exists>field p. fd_length field = 10 \<and> encode_memo_pointer field 305 = Inr p \<and>
     memo_index p = Inr (Some 305)"
proof -
  let ?f = "\<lparr>fd_name = ''M'', fd_type = 0x4D, fd_length = 10, fd_decimal_count = 0, fd_flags = 0,
    fd_offset = 1\<rparr>"
  have "decimal 305 = [3, 0, 5]" by (simp add: decimal.simps)
  then obtain p where "encode_memo_pointer ?f 305 = Inr p"
    by (simp add: encode_memo_pointer_def decimal_bytes_def)
  with memo_pointer_roundtrip [OF this] show ?thesis by (intro exI [of _ ?f] exI [of _ p]) simp
qed

text \<open>
  The exception is real: the first 31 data blocks of a sidecar are found again, block
  32 is not.  Its four-byte pointer is the blank byte followed by zeros, which
  \<open>memo_index\<close> takes for an empty field, so a memo stored there is lost.
\<close>

lemma block_32_pointer_is_lost:
  assumes "fd_length field = 4"
  shows "encode_memo_pointer field 32 = Inr [0x20, 0, 0, 0] \<and>
    memo_index [0x20, 0, 0, 0] = Inr None \<and>
    (\<forall>b \<in> {1..31}. memo_index (u32_to_le b) = Inr (Some b))"
proof -
  have "memo_index (u32_to_le b) = Inr (Some b)" if "b \<in> {1..31}" for b
  proof -
    obtain n where n: "unat b = n" by simp
    then have b: "0 < n" "n < 32" using that by (auto simp: word_le_nat_alt unat_gt_0)
    then have u: "u32_to_le b = [word_of_nat n, 0, 0, 0]" by (simp add: u32_to_le_def n)
    have "unat (word_of_nat n :: u8) = n" using b by (simp add: unat_of_nat)
    then have "\<not> is_blank (word_of_nat n)" using b by (auto simp: is_blank_def)
    then have "\<not> list_all is_blank (u32_to_le b)" by (simp add: u)
    then show ?thesis by (simp add: memo_index_def)
  qed
  then show ?thesis using assms
    by (simp add: encode_memo_pointer_def u32_to_le_def memo_index_def is_blank_def)
qed

lemma word_of_nat_unat_id: "word_of_nat (unat w) = (w :: 'a::len word)"
  by simp

lemma nibbles_join:
  "or (push_bit 4 (word_of_nat (unat b div 16))) (word_of_nat (unat b mod 16)) = (b :: u8)"
proof -
  have hi: "word_of_nat (unat b div 16) = drop_bit 4 b"
  proof -
    have "unat b div 16 = unat (drop_bit 4 b)"
      by (simp only: unat_drop_bit_eq) (simp add: drop_bit_eq_div)
    then show ?thesis by (simp only: word_of_nat_unat_id)
  qed
  have lo: "word_of_nat (unat b mod 16) = take_bit 4 b"
  proof -
    have "unat b mod 16 = unat (take_bit 4 b)"
      by (simp only: unsigned_take_bit_eq) (simp add: take_bit_eq_mod)
    then show ?thesis by (simp only: word_of_nat_unat_id)
  qed
  show ?thesis unfolding hi lo
    by (rule bit_eqI) (auto simp: bit_or_iff bit_push_bit_iff bit_drop_bit_eq bit_take_bit_iff)
qed

lemma decode_hex_bytes: "decode_hex_pairs name (hex_bytes bs) = Inr bs"
proof (induction bs)
  case Nil
  show ?case by (simp add: hex_bytes_def)
next
  case (Cons b bs)
  have "unat b div 16 < 16" using unat_lt [of b] by simp
  then show ?case
    using Cons by (simp add: hex_bytes_def hex_digit_char nibbles_join)
qed

text \<open>
  Binary values are exchanged as hexadecimal text without loss: \<open>binary_value\<close> reads the
  text that \<open>hex\<close> prints back to the same bytes.
\<close>

lemma binary_value_hex: "binary_value (JString (hex bs)) field = Inr bs"
proof -
  have "length (hex_bytes bs) mod 2 = 0" by (induction bs) (simp_all add: hex_bytes_def)
  then show ?thesis by (simp add: binary_value_def json_as_str_def hex_def decode_hex_bytes)
qed

end
