(* ===== verification/Calendar.thy ===== *)
theory Calendar
  imports Main "HOL-Library.Signed_Division" "HOL-Library.Monad_Syntax"
begin

text \<open>
  The civil calendar of \<^verbatim>\<open>src/src/dbf/codec_temporal.rs\<close>, which
  \<^verbatim>\<open>src/src/xbf/conversion.rs\<close> has a second copy of: day numbers and dates.  Divisions truncate as
  in Rust (\<open>sdiv\<close>).  Each function has two definitions: one in \<open>i64\<close> arithmetic, where an
  operation whose result does not fit gives \<open>None\<close>, and one over the integers, which it agrees
  with on the day numbers and years given below; the callers stay far inside these bounds.
  The proofs split a day number into an era of 400 years, a year of the era and a day of the
  year, and check each table of the arithmetic by evaluation.
\<close>

section \<open>Civil dates\<close>

definition days_from_civil :: "int \<Rightarrow> int \<Rightarrow> int \<Rightarrow> int" where
  "days_from_civil year month day =
     (let adjusted_year = year - (if month \<le> 2 then 1 else 0);
          era = (if 0 \<le> adjusted_year then adjusted_year else adjusted_year - 399) sdiv 400;
          year_of_era = adjusted_year - era * 400;
          month_prime = month + (if 2 < month then - 3 else 9);
          day_of_year = (153 * month_prime + 2) sdiv 5 + day - 1;
          day_of_era = year_of_era * 365 + year_of_era sdiv 4 - year_of_era sdiv 100 + day_of_year
      in era * 146097 + day_of_era - 719468)"

definition civil_from_days :: "int \<Rightarrow> int \<times> int \<times> int" where
  "civil_from_days days =
     (let shifted = days + 719468;
          era = (if 0 \<le> shifted then shifted else shifted - 146096) sdiv 146097;
          day_of_era = shifted - era * 146097;
          year_of_era = (day_of_era - day_of_era sdiv 1460 + day_of_era sdiv 36524 - day_of_era sdiv 146096) sdiv 365;
          year = year_of_era + era * 400;
          day_of_year = day_of_era - (365 * year_of_era + year_of_era sdiv 4 - year_of_era sdiv 100);
          month_prime = (5 * day_of_year + 2) sdiv 153;
          day = day_of_year - (153 * month_prime + 2) sdiv 5 + 1;
          month = month_prime + (if month_prime < 10 then 3 else - 9)
      in (year + (if month \<le> 2 then 1 else 0), month, day))"

text \<open>The same functions operation by operation at the width of \<open>i64\<close>.\<close>

definition i64 :: "int \<Rightarrow> int option" where
  "i64 n = (if - (2 ^ 63) \<le> n \<and> n < 2 ^ 63 then Some n else None)"

definition days_from_civil_i64 :: "int \<Rightarrow> int \<Rightarrow> int \<Rightarrow> int option" where
  "days_from_civil_i64 year month day = do {
     adjusted_year \<leftarrow> i64 (year - (if month \<le> 2 then 1 else 0));
     numerator \<leftarrow> (if 0 \<le> adjusted_year then Some adjusted_year else i64 (adjusted_year - 399));
     let era = numerator sdiv 400;
     era_years \<leftarrow> i64 (era * 400);
     year_of_era \<leftarrow> i64 (adjusted_year - era_years);
     month_prime \<leftarrow> i64 (month + (if 2 < month then - 3 else 9));
     a \<leftarrow> i64 (153 * month_prime);
     a \<leftarrow> i64 (a + 2);
     a \<leftarrow> i64 (a sdiv 5 + day);
     day_of_year \<leftarrow> i64 (a - 1);
     b \<leftarrow> i64 (year_of_era * 365);
     b \<leftarrow> i64 (b + year_of_era sdiv 4);
     b \<leftarrow> i64 (b - year_of_era sdiv 100);
     day_of_era \<leftarrow> i64 (b + day_of_year);
     c \<leftarrow> i64 (era * 146097);
     c \<leftarrow> i64 (c + day_of_era);
     i64 (c - 719468)
   }"

definition civil_from_days_i64 :: "int \<Rightarrow> (int \<times> int \<times> int) option" where
  "civil_from_days_i64 days = do {
     shifted \<leftarrow> i64 (days + 719468);
     numerator \<leftarrow> (if 0 \<le> shifted then Some shifted else i64 (shifted - 146096));
     let era = numerator sdiv 146097;
     era_days \<leftarrow> i64 (era * 146097);
     day_of_era \<leftarrow> i64 (shifted - era_days);
     a \<leftarrow> i64 (day_of_era - day_of_era sdiv 1460);
     a \<leftarrow> i64 (a + day_of_era sdiv 36524);
     a \<leftarrow> i64 (a - day_of_era sdiv 146096);
     let year_of_era = a sdiv 365;
     era_years \<leftarrow> i64 (era * 400);
     year \<leftarrow> i64 (year_of_era + era_years);
     b \<leftarrow> i64 (365 * year_of_era);
     b \<leftarrow> i64 (b + year_of_era sdiv 4);
     b \<leftarrow> i64 (b - year_of_era sdiv 100);
     day_of_year \<leftarrow> i64 (day_of_era - b);
     c \<leftarrow> i64 (5 * day_of_year);
     c \<leftarrow> i64 (c + 2);
     let month_prime = c sdiv 153;
     e \<leftarrow> i64 (153 * month_prime);
     e \<leftarrow> i64 (e + 2);
     e \<leftarrow> i64 (day_of_year - e sdiv 5);
     day \<leftarrow> i64 (e + 1);
     month \<leftarrow> i64 (month_prime + (if month_prime < 10 then 3 else - 9));
     year \<leftarrow> i64 (year + (if month \<le> 2 then 1 else 0));
     Some (year, month, day)
   }"

text \<open>The calendar the two functions are about.\<close>

definition leap_year :: "int \<Rightarrow> bool" where
  "leap_year y \<longleftrightarrow> y mod 4 = 0 \<and> (y mod 100 \<noteq> 0 \<or> y mod 400 = 0)"

definition days_in_month :: "int \<Rightarrow> int \<Rightarrow> int" where
  "days_in_month y m = (if m = 2 then if leap_year y then 29 else 28 else if m \<in> {4, 6, 9, 11} then 30 else 31)"

definition valid_date :: "int \<Rightarrow> int \<Rightarrow> int \<Rightarrow> bool" where
  "valid_date y m d \<longleftrightarrow> 1 \<le> m \<and> m \<le> 12 \<and> 1 \<le> d \<and> d \<le> days_in_month y m"

section \<open>The arithmetic of an era\<close>

lemma sdiv_nonneg: "0 \<le> (a :: int) \<Longrightarrow> 0 < b \<Longrightarrow> a sdiv b = a div b"
  by (cases "a = 0") (auto simp: signed_divide_int_def sgn_if)

lemma sdiv_floor:
  assumes "0 < (b :: int)" "c = b - 1"
  shows "(if 0 \<le> a then a else a - c) sdiv b = a div b"
proof (cases "0 \<le> a")
  case True
  show ?thesis unfolding if_P [OF True] by (rule sdiv_nonneg [OF True assms(1)])
next
  case False
  have "b - 1 - a = (b - 1 - a mod b) + b * (- (a div b))" by (simp only: minus_div_mult_eq_mod [symmetric]) simp
  also have "\<dots> div b = (b - 1 - a mod b) div b - a div b" using assms by (subst div_mult_self2) simp_all
  also have "(b - 1 - a mod b) div b = 0"
    using assms pos_mod_bound [of b a] pos_mod_sign [of b a] by (intro div_pos_pos_trivial) linarith+
  finally have q: "(b - 1 - a) div b = - (a div b)" by (simp only: diff_0)
  have "sgn (a - (b - 1)) = - 1" "\<bar>a - (b - 1)\<bar> = b - 1 - a" "sgn b = 1" "\<bar>b\<bar> = b"
    using False assms by (simp_all add: sgn_if)
  then have "(a - (b - 1)) sdiv b = a div b" unfolding signed_divide_int_def by (simp only: q)
  then show ?thesis unfolding if_not_P [OF False] assms(2) .
qed

definition era_days :: "int \<Rightarrow> int" where
  "era_days y = 365 * y + y div 4 - y div 100 + y div 400"

definition era_scaled :: "int \<Rightarrow> int" where
  "era_scaled doe = doe - doe div 1460 + doe div 36524 - doe div 146096"

lemma minus_div_mono: "(x :: int) \<le> y \<Longrightarrow> 0 < n \<Longrightarrow> x - x div n \<le> y - y div n"
proof -
  assume "x \<le> y" "0 < n"
  then have "(y - x) * 1 \<le> (y - x) * n" by (intro mult_left_mono) simp_all
  then have "y div n \<le> (x + (y - x) * n) div n" using \<open>0 < n\<close> by (intro zdiv_mono1) simp_all
  with \<open>0 < n\<close> show ?thesis by simp
qed

lemma era_scaled_mono: "a \<le> b \<Longrightarrow> era_scaled a \<le> era_scaled b"
proof -
  assume ab: "a \<le> b"
  have "x div 146096 = x div 36524 div 4" for x :: int by (simp add: div_mult2_eq [symmetric])
  moreover have "a div 36524 \<le> b div 36524" using ab by (rule zdiv_mono1) simp
  ultimately show ?thesis
    using minus_div_mono [OF ab, of 1460] minus_div_mono [of "a div 36524" "b div 36524" 4]
    by (simp add: era_scaled_def)
qed

definition era_year_ok :: "int \<Rightarrow> bool" where
  "era_year_ok y \<longleftrightarrow> 365 * y \<le> era_scaled (era_days y) \<and> era_scaled (era_days (y + 1) - 1) < 365 * (y + 1)"

lemma era_years_ok: "list_all era_year_ok (map int [0..<400])"
  by code_simp

lemma era_year_found:
  assumes "0 \<le> y" "y < 400" "era_days y \<le> doe" "doe < era_days (y + 1)"
  shows "era_scaled doe div 365 = y"
proof -
  have "y = int (nat y)" "nat y < 400" using assms by simp_all
  then have "era_year_ok y" using era_years_ok unfolding list_all_iff by (metis atLeastLessThan_iff image_eqI le0 set_map set_upt)
  moreover have "era_scaled (era_days y) \<le> era_scaled doe" "era_scaled doe \<le> era_scaled (era_days (y + 1) - 1)"
    using assms by (simp_all add: era_scaled_mono)
  ultimately show ?thesis
    by (intro int_div_pos_eq [of _ _ _ "era_scaled doe - 365 * y"]) (auto simp: era_year_ok_def)
qed

lemma era_year_exists:
  assumes "0 \<le> doe" "doe < era_days (int n)"
  shows "\<exists>y. 0 \<le> y \<and> y < int n \<and> era_days y \<le> doe \<and> doe < era_days (y + 1)"
  using assms
proof (induction n)
  case 0
  then show ?case by (simp add: era_days_def)
next
  case (Suc n)
  show ?case
  proof (cases "doe < era_days (int n)")
    case True
    with Suc show ?thesis by force
  next
    case False
    with Suc show ?thesis by (intro exI [of _ "int n"]) (simp add: add.commute)
  qed
qed

lemma div_succ:
  fixes y n :: int
  assumes "1 < n"
  shows "(y + 1) div n = y div n + (if (y + 1) mod n = 0 then 1 else 0)"
proof -
  obtain q r where y: "y = n * q + r" "0 \<le> r" "r < n"
    using assms that [of "y div n" "y mod n"] by simp
  then have q: "y div n = q" using assms by simp
  show ?thesis
  proof (cases "r + 1 = n")
    case True
    then have "y + 1 = n * (q + 1)" using y(1) by (simp add: algebra_simps)
    then show ?thesis using assms q by simp
  next
    case False
    have "(y + 1) div n = q" "(y + 1) mod n = r + 1"
      using False y assms by (auto simp: add.assoc)
    then show ?thesis using y(2) q by simp
  qed
qed
lemma era_days_step: "era_days (y + 1) = era_days y + 365 + (if leap_year (y + 1) then 1 else 0)"
proof -
  have "(400 :: int) dvd x \<Longrightarrow> 100 dvd x" "(100 :: int) dvd x \<Longrightarrow> 4 dvd x" for x
    by (erule dvd_trans [rotated], simp)+
  then have mods: "(y + 1) mod 400 = 0 \<Longrightarrow> (y + 1) mod 100 = 0" "(y + 1) mod 100 = 0 \<Longrightarrow> (y + 1) mod 4 = 0"
    by (simp_all only: dvd_eq_mod_eq_0)
  have bools: "(if P then 1 else 0) - (if Q then 1 else 0) + (if R then 1 else 0) =
      (if P \<and> (\<not> Q \<or> R) then 1 else 0 :: int)" if "R \<Longrightarrow> Q" "Q \<Longrightarrow> P" for P Q R
    using that by auto
  from mods have z: "(if (y + 1) mod 4 = 0 then 1 else 0) - (if (y + 1) mod 100 = 0 then 1 else 0) +
      (if (y + 1) mod 400 = 0 then 1 else 0) = (if leap_year (y + 1) then 1 else 0 :: int)"
    unfolding leap_year_def by (rule bools)
  have sum: "365 * (y + 1) + (a + p) - (b + q) + (c + r) = 365 * y + a - b + c + 365 + z"
    if "p - q + r = z" for a b c p q r z :: int using that by simp
  have "1 < (4 :: int)" "1 < (100 :: int)" "1 < (400 :: int)" by simp_all
  then show ?thesis unfolding era_days_def by (simp only: div_succ) (rule sum [OF z])
qed

lemma era_days_mono: "a \<le> b \<Longrightarrow> era_days a \<le> era_days b"
  by (induction b rule: int_ge_induct) (auto simp: era_days_step)

section \<open>The arithmetic of a year\<close>

text \<open>Months are counted from March here: \<open>mp\<close> runs from 0 (March) to 11 (February).\<close>

definition month_start :: "int \<Rightarrow> int" where
  "month_start mp = (153 * mp + 2) div 5"

definition month_days :: "int \<Rightarrow> int" where
  "month_days mp = (if mp = 11 then 29 else if mp \<in> {1, 3, 6, 8} then 30 else 31)"

definition year_day_ok :: "int \<Rightarrow> bool" where
  "year_day_ok doy \<longleftrightarrow>
     (let mp = (5 * doy + 2) div 153; d = doy - month_start mp + 1 in
      0 \<le> mp \<and> mp \<le> 11 \<and> 1 \<le> d \<and> d \<le> month_days mp \<and> (mp = 11 \<and> d = 29 \<longleftrightarrow> doy = 365))"

definition month_day_ok :: "int \<times> int \<Rightarrow> bool" where
  "month_day_ok = (\<lambda>(mp, d). d \<le> month_days mp \<longrightarrow>
     (let doy = month_start mp + d - 1 in
      0 \<le> doy \<and> doy \<le> 365 \<and> (5 * doy + 2) div 153 = mp \<and> (mp = 11 \<and> d = 29 \<longleftrightarrow> doy = 365)))"

lemma year_days_ok: "list_all year_day_ok (map int [0..<366])"
  by code_simp

lemma month_days_ok: "list_all month_day_ok (List.product (map int [0..<12]) (map int [1..<32]))"
  by code_simp

lemma in_int_upt: "int a \<le> x \<Longrightarrow> x < int b \<Longrightarrow> x \<in> set (map int [a..<b])"
  by (metis atLeastLessThan_iff image_eqI nat_0_le nat_less_iff nat_int nat_le_iff of_nat_0_le_iff order_trans set_map set_upt zle_int)

lemma year_day:
  assumes "0 \<le> doy" "doy \<le> 365"
  shows "year_day_ok doy"
proof -
  have "doy \<in> set (map int [0..<366])" using in_int_upt [of 0 doy 366] assms by simp
  then show ?thesis using year_days_ok unfolding list_all_iff by blast
qed

lemma month_day:
  assumes "0 \<le> mp" "mp \<le> 11" "1 \<le> d" "d \<le> month_days mp"
  shows "0 \<le> month_start mp + d - 1" "month_start mp + d - 1 \<le> 365"
    "(5 * (month_start mp + d - 1) + 2) div 153 = mp"
    "month_start mp + d - 1 = 365 \<longleftrightarrow> mp = 11 \<and> d = 29"
proof -
  have "d \<le> 31" using assms(4) by (simp add: month_days_def split: if_splits)
  then have "(mp, d) \<in> set (List.product (map int [0..<12]) (map int [1..<32]))"
    using in_int_upt [of 0 mp 12] in_int_upt [of 1 d 32] assms by simp
  then have "month_day_ok (mp, d)" using month_days_ok unfolding list_all_iff by blast
  then show "0 \<le> month_start mp + d - 1" "month_start mp + d - 1 \<le> 365"
    "(5 * (month_start mp + d - 1) + 2) div 153 = mp"
    "month_start mp + d - 1 = 365 \<longleftrightarrow> mp = 11 \<and> d = 29"
    using assms(4) by (auto simp: month_day_ok_def Let_def)
qed

section \<open>The two functions are inverse\<close>

lemma era_scaled_bounds:
  assumes "0 \<le> doe" "doe < 146097"
  obtains y where "0 \<le> y" "y < 400" "era_days y \<le> doe" "doe < era_days (y + 1)" "era_scaled doe div 365 = y"
proof -
  have "era_days (int 400) = 146097" by (simp add: era_days_def)
  then obtain y where "0 \<le> y" "y < 400" "era_days y \<le> doe" "doe < era_days (y + 1)"
    using era_year_exists [of doe 400] assms by auto
  with era_year_found that show ?thesis by blast
qed

lemma civil_from_days_era:
  assumes y: "0 \<le> y" "y < 400" and doy: "0 \<le> doy" "era_days y + doy < era_days (y + 1)"
    and mp: "mp = (5 * doy + 2) div 153" "m = mp + (if mp < 10 then 3 else - 9)"
    and days: "days = era * 146097 + (era_days y + doy) - 719468"
  shows "civil_from_days days = (y + era * 400 + (if m \<le> 2 then 1 else 0), m, doy - month_start mp + 1)"
proof -
  obtain doe where doe_def: "doe = era_days y + doy" by blast
  have "era_days 0 \<le> era_days y" "era_days (y + 1) \<le> era_days 400" using y by (auto intro: era_days_mono)
  moreover have "era_days 0 = 0" "era_days 400 = 146097" by (simp_all add: era_days_def)
  ultimately have doe: "0 \<le> doe" "doe < 146097" using doy by (auto simp: doe_def)
  have yd: "365 * y + y div 4 - y div 100 = era_days y" using y by (simp add: era_days_def)
  have f: "era_scaled doe div 365 = y" using era_year_found [OF y, of doe] doy by (simp add: doe_def)
  have s: "0 \<le> era_scaled doe" using era_scaled_mono [OF doe(1)] by (simp add: era_scaled_def)
  have shifted: "days + 719468 = era * 146097 + doe" by (simp add: days doe_def)
  have era: "(if 0 \<le> era * 146097 + doe then era * 146097 + doe else era * 146097 + doe - 146096) sdiv 146097 = era"
    using doe by (subst sdiv_floor) simp_all
  have sd: "doe sdiv n = doe div n" "y sdiv n = y div n" "era_scaled doe sdiv n = era_scaled doe div n" if "0 < n" for n
    using that doe(1) y(1) s by (simp_all add: sdiv_nonneg)
  have m0: "0 \<le> mp" unfolding mp(1) using doy(1) by simp
  have md: "(5 * doy + 2) sdiv 153 = mp" "(153 * mp + 2) sdiv 5 = month_start mp"
    using doy(1) m0 by (simp_all add: sdiv_nonneg mp(1) month_start_def)
  have "doe - (365 * y + y div 4 - y div 100) = doy" by (simp only: yd doe_def add_diff_cancel_left')
  then show ?thesis
    unfolding civil_from_days_def Let_def shifted era add_diff_cancel_left'
    by (simp add: sd era_scaled_def [symmetric] f md mp(2))
qed

lemma leap_year_shift: "leap_year (y + era * 400) = leap_year y"
proof -
  have "(y + era * 400) mod 4 = y mod 4" "(y + era * 400) mod 100 = y mod 100" "(y + era * 400) mod 400 = y mod 400"
    using mod_mult_self1 [of y "era * 100" 4] mod_mult_self1 [of y "era * 4" 100] mod_mult_self1 [of y era 400]
    by (simp_all add: mult.assoc)
  then show ?thesis by (simp only: leap_year_def)
qed

text \<open>A valid date, seen from March: year of the era, month and day of the year.\<close>

lemma valid_date_march:
  assumes "mp = m + (if 2 < m then - 3 else 9)" "1 \<le> m" "m \<le> 12"
  shows "valid_date y m d \<longleftrightarrow>
    1 \<le> d \<and> d \<le> month_days mp \<and> (mp = 11 \<and> d = 29 \<longrightarrow> leap_year y)" "0 \<le> mp" "mp \<le> 11"
    "mp + (if mp < 10 then 3 else - 9) = m" "m \<le> 2 \<longleftrightarrow> 10 \<le> mp"
proof -
  have "m = 1 \<or> m = 2 \<or> m = 3 \<or> m = 4 \<or> m = 5 \<or> m = 6 \<or> m = 7 \<or> m = 8 \<or> m = 9 \<or> m = 10 \<or> m = 11 \<or> m = 12"
    using assms(2,3) by presburger
  then show "valid_date y m d \<longleftrightarrow>
    1 \<le> d \<and> d \<le> month_days mp \<and> (mp = 11 \<and> d = 29 \<longrightarrow> leap_year y)" "0 \<le> mp" "mp \<le> 11"
    "mp + (if mp < 10 then 3 else - 9) = m" "m \<le> 2 \<longleftrightarrow> 10 \<le> mp"
    unfolding assms(1) by (auto simp: valid_date_def days_in_month_def month_days_def)
qed

lemma days_from_civil_march:
  assumes mp: "mp = m + (if 2 < m then - 3 else 9)" "0 \<le> mp" and y: "0 \<le> y" "y < 400"
  shows "days_from_civil (y + era * 400 + (if m \<le> 2 then 1 else 0)) m d =
    era * 146097 + (era_days y + (month_start mp + d - 1)) - 719468"
proof -
  have era: "(if 0 \<le> y + era * 400 then y + era * 400 else y + era * 400 - 399) sdiv 400 = era"
    using y by (subst sdiv_floor) simp_all
  have "y sdiv n = y div n" if "0 < n" for n using y that by (simp add: sdiv_nonneg)
  moreover have "(153 * mp + 2) sdiv 5 = month_start mp" using mp(2) by (simp add: sdiv_nonneg month_start_def)
  moreover have "y div 400 = 0" using y by simp
  ultimately show ?thesis
    unfolding days_from_civil_def Let_def add_diff_cancel_right' era
    by (simp add: mp(1) [symmetric] era_days_def)
qed

lemma civil_from_valid_date:
  assumes v: "valid_date y m d"
  shows "civil_from_days (days_from_civil y m d) = (y, m, d)"
proof -
  obtain y' era mp where y': "y = y' + era * 400 + (if m \<le> 2 then 1 else 0)" "0 \<le> y'" "y' < 400"
    and mp: "mp = m + (if 2 < m then - 3 else 9)"
    using that [of "(y - (if m \<le> 2 then 1 else 0)) mod 400" "(y - (if m \<le> 2 then 1 else 0)) div 400"]
    by (simp split: if_splits)
  have m: "1 \<le> m" "m \<le> 12" using v by (simp_all add: valid_date_def)
  note vm = valid_date_march [OF mp m]
  have d: "1 \<le> d" "d \<le> month_days mp" "mp = 11 \<and> d = 29 \<longrightarrow> leap_year y" using v vm(1) by blast+
  note md = month_day [OF vm(2,3) d(1,2)]
  have "mp = 11 \<and> d = 29 \<longrightarrow> leap_year (y' + 1)"
    using d(3) vm(5) y'(1) leap_year_shift [of "y' + 1" era] by (auto simp: algebra_simps)
  then have "month_start mp + d - 1 < 365 + (if leap_year (y' + 1) then 1 else 0)"
    using md(2,4) by auto
  then have "era_days y' + (month_start mp + d - 1) < era_days (y' + 1)" by (simp add: era_days_step)
  from civil_from_days_era [OF y'(2,3) md(1) this md(3) [symmetric] vm(4) [symmetric]
      days_from_civil_march [OF mp vm(2) y'(2,3)]]
  show ?thesis by (simp add: y'(1))
qed

lemma every_day_has_date:
  obtains y m d where "valid_date y m d" "days_from_civil y m d = days"
proof -
  obtain era doe where e: "days = era * 146097 + doe - 719468" "0 \<le> doe" "doe < 146097"
    using that [of "(days + 719468) div 146097" "(days + 719468) mod 146097"] by simp
  obtain y where y: "0 \<le> y" "y < 400" "era_days y \<le> doe" "doe < era_days (y + 1)"
    using era_scaled_bounds [OF e(2,3)] by blast
  obtain doy where doy: "doe = era_days y + doy" "0 \<le> doy" using y(3) that [of "doe - era_days y"] by simp
  then have up: "doy < 365 + (if leap_year (y + 1) then 1 else 0)" using y(4) by (simp add: era_days_step)
  then have "year_day_ok doy" using doy(2) by (intro year_day) (simp_all split: if_splits)
  moreover obtain mp where mp: "mp = (5 * doy + 2) div 153" by blast
  moreover obtain d where d: "d = doy - month_start mp + 1" by blast
  ultimately have "0 \<le> mp \<and> mp \<le> 11 \<and> 1 \<le> d \<and> d \<le> month_days mp \<and> (mp = 11 \<and> d = 29 \<longleftrightarrow> doy = 365)"
    by (simp only: year_day_ok_def Let_def)
  then have ok: "0 \<le> mp" "mp \<le> 11" "1 \<le> d" "d \<le> month_days mp" "mp = 11 \<and> d = 29 \<longleftrightarrow> doy = 365" by blast+
  have d: "doy = month_start mp + d - 1" using d by simp
  obtain m where m: "m = mp + (if mp < 10 then 3 else - 9)" by blast
  have mm: "1 \<le> m" "m \<le> 12" "mp = m + (if 2 < m then - 3 else 9)" using ok(1,2) m by auto
  let ?y = "y + era * 400 + (if m \<le> 2 then 1 else 0)"
  have "mp = 11 \<and> d = 29 \<longrightarrow> leap_year ?y"
    using ok(5) up m leap_year_shift [of "y + 1" era] by (auto simp: algebra_simps split: if_splits)
  then have v: "valid_date ?y m d" using valid_date_march(1) [OF mm(3,1,2)] ok(3,4) by blast
  have "days_from_civil ?y m d = days"
    using days_from_civil_march [OF mm(3) ok(1) y(1,2), of era d] by (simp only: e(1) doy(1) d)
  with v show ?thesis by (rule that)
qed

lemma civil_days_iff:
  "civil_from_days days = (y, m, d) \<longleftrightarrow> valid_date y m d \<and> days_from_civil y m d = days"
proof -
  obtain y' m' d' where v: "valid_date y' m' d'" "days_from_civil y' m' d' = days"
    by (rule every_day_has_date)
  then have "civil_from_days days = (y', m', d')" using civil_from_valid_date by blast
  with v civil_from_valid_date [of y m d] show ?thesis by (metis prod.inject)
qed

lemma days_from_civil_lower:
  assumes "valid_date y m d" "1 \<le> y"
  shows "- 719468 \<le> days_from_civil y m d"
proof -
  obtain mp where mp: "mp = m + (if 2 < m then - 3 else 9)" by blast
  have m: "1 \<le> m" "m \<le> 12" and d: "1 \<le> d" using assms by (simp_all add: valid_date_def)
  obtain y' era where y': "y = y' + era * 400 + (if m \<le> 2 then 1 else 0)" "0 \<le> y'" "y' < 400"
    using that [of "(y - (if m \<le> 2 then 1 else 0)) mod 400" "(y - (if m \<le> 2 then 1 else 0)) div 400"]
    by (simp split: if_splits)
  have "0 \<le> mp" by (rule valid_date_march(2) [OF mp m])
  moreover have "0 \<le> era" using y' assms(2) by (auto split: if_splits)
  moreover have "era_days 0 \<le> era_days y'" using y'(2) by (rule era_days_mono)
  moreover have "0 \<le> month_start mp" using calculation(1) by (simp add: month_start_def)
  ultimately show ?thesis
    using days_from_civil_march [OF mp _ y'(2,3), of era d] d by (simp add: y'(1) era_days_def [of 0])
qed

section \<open>No operation overflows\<close>

lemma i64_small: "\<bar>n\<bar> < 2 ^ 63 \<Longrightarrow> i64 n = Some n"
  by (auto simp: i64_def)

lemma sdiv_abs: "0 < (b :: int) \<Longrightarrow> \<bar>a sdiv b\<bar> \<le> \<bar>a\<bar>"
  using zdiv_mono2 [of "\<bar>a\<bar>" 1 b] by (cases "a = 0") (auto simp: signed_divide_int_def abs_mult pos_imp_zdiv_nonneg_iff abs_of_nonneg)

lemma days_from_civil_fits:
  assumes "\<bar>y\<bar> \<le> 2 ^ 54" "\<bar>m\<bar> \<le> 12" "\<bar>d\<bar> \<le> 31"
  shows "days_from_civil_i64 y m d = Some (days_from_civil y m d)"
proof -
  obtain ay where ay: "ay = y - (if m \<le> 2 then 1 else 0)" by blast
  obtain era where era: "era = ay div 400" by blast
  obtain yoe where yoe: "yoe = ay - era * 400" by blast
  obtain mp where mp: "mp = m + (if 2 < m then - 3 else 9)" by blast
  obtain ms where ms: "ms = (153 * mp + 2) sdiv 5" by blast
  obtain q4 q100 where q: "q4 = yoe sdiv 4" "q100 = yoe sdiv 100" by blast
  have e: "(if 0 \<le> ay then ay else ay - 399) sdiv 400 = era" unfolding era by (rule sdiv_floor) simp_all
  have num: "(if 0 \<le> ay then Some ay else i64 (ay - 399)) = Some (if 0 \<le> ay then ay else ay - 399)"
    using assms(1) by (auto simp: ay i64_def)
  have "\<bar>ay\<bar> \<le> 2 ^ 54 + 1" using assms(1) by (auto simp: ay)
  moreover have "0 \<le> yoe" "yoe < 400" unfolding yoe era by (simp_all add: minus_div_mult_eq_mod)
  moreover have "ay = era * 400 + yoe" by (simp add: yoe)
  moreover have "\<bar>mp\<bar> \<le> 21" using assms(2) by (auto simp: mp)
  moreover have "\<bar>ms\<bar> \<le> \<bar>153 * mp + 2\<bar>" "\<bar>q4\<bar> \<le> \<bar>yoe\<bar>" "\<bar>q100\<bar> \<le> \<bar>yoe\<bar>" unfolding ms q by (rule sdiv_abs, simp)+
  ultimately have "\<bar>ay\<bar> < 2 ^ 63" "\<bar>era * 400\<bar> < 2 ^ 63" "\<bar>yoe\<bar> < 2 ^ 63" "\<bar>mp\<bar> < 2 ^ 63" "\<bar>153 * mp\<bar> < 2 ^ 63"
    "\<bar>153 * mp + 2\<bar> < 2 ^ 63" "\<bar>ms + d\<bar> < 2 ^ 63" "\<bar>ms + d - 1\<bar> < 2 ^ 63" "\<bar>yoe * 365\<bar> < 2 ^ 63"
    "\<bar>yoe * 365 + q4\<bar> < 2 ^ 63" "\<bar>yoe * 365 + q4 - q100\<bar> < 2 ^ 63" "\<bar>yoe * 365 + q4 - q100 + (ms + d - 1)\<bar> < 2 ^ 63"
    "\<bar>era * 146097\<bar> < 2 ^ 63" "\<bar>era * 146097 + (yoe * 365 + q4 - q100 + (ms + d - 1))\<bar> < 2 ^ 63"
    "\<bar>era * 146097 + (yoe * 365 + q4 - q100 + (ms + d - 1)) - 719468\<bar> < 2 ^ 63"
    using assms(3) by - (simp, linarith?)+
  note f = this [THEN i64_small]
  show ?thesis
    unfolding days_from_civil_i64_def days_from_civil_def Let_def ay [symmetric] mp [symmetric] f num bind.bind_lunit e
      yoe [symmetric] ms [symmetric] q [symmetric] by (rule refl)
qed

lemma civil_from_days_fits:
  assumes "\<bar>days\<bar> \<le> 2 ^ 62"
  shows "civil_from_days_i64 days = Some (civil_from_days days)"
proof -
  obtain sh where sh: "sh = days + 719468" by blast
  obtain era where era: "era = sh div 146097" by blast
  obtain doe where doe: "doe = sh - era * 146097" by blast
  obtain d1 d2 d3 where d: "d1 = doe sdiv 1460" "d2 = doe sdiv 36524" "d3 = doe sdiv 146096" by blast
  obtain yoe where yoe: "yoe = (doe - d1 + d2 - d3) sdiv 365" by blast
  obtain q4 q100 where q: "q4 = yoe sdiv 4" "q100 = yoe sdiv 100" by blast
  obtain doy where doy: "doy = doe - (365 * yoe + q4 - q100)" by blast
  obtain mp where mp: "mp = (5 * doy + 2) sdiv 153" by blast
  obtain ms where ms: "ms = (153 * mp + 2) sdiv 5" by blast
  obtain m where m: "m = mp + (if mp < 10 then 3 else - 9)" by blast
  have e: "(if 0 \<le> sh then sh else sh - 146096) sdiv 146097 = era" unfolding era by (rule sdiv_floor) simp_all
  have num: "(if 0 \<le> sh then Some sh else i64 (sh - 146096)) = Some (if 0 \<le> sh then sh else sh - 146096)"
    using assms by (auto simp: sh i64_def)
  have sh': "\<bar>sh\<bar> \<le> 2 ^ 62 + 719468" using assms by (auto simp: sh)
  have doe': "0 \<le> doe" "doe < 146097" unfolding doe era by (simp_all add: minus_div_mult_eq_mod)
  have era': "sh = era * 146097 + doe" by (simp add: doe)
  have d': "\<bar>d1\<bar> \<le> \<bar>doe\<bar>" "\<bar>d2\<bar> \<le> \<bar>doe\<bar>" "\<bar>d3\<bar> \<le> \<bar>doe\<bar>" unfolding d by (rule sdiv_abs, simp)+
  have yoe': "\<bar>yoe\<bar> \<le> \<bar>doe - d1 + d2 - d3\<bar>" unfolding yoe by (rule sdiv_abs) simp
  have q': "\<bar>q4\<bar> \<le> \<bar>yoe\<bar>" "\<bar>q100\<bar> \<le> \<bar>yoe\<bar>" unfolding q by (rule sdiv_abs, simp)+
  have yb: "\<bar>yoe\<bar> \<le> 600000" using yoe' d' doe' by linarith
  have doy': "\<bar>doy\<bar> \<le> 300000000" using yb q' doe' unfolding doy by linarith
  have mp': "\<bar>mp\<bar> \<le> \<bar>5 * doy + 2\<bar>" unfolding mp by (rule sdiv_abs) simp
  have mb: "\<bar>mp\<bar> \<le> 1500000002" using mp' doy' by linarith
  have ms': "\<bar>ms\<bar> \<le> \<bar>153 * mp + 2\<bar>" unfolding ms by (rule sdiv_abs) simp
  have msb: "\<bar>ms\<bar> \<le> 300000000000" using ms' mb by linarith
  have m': "\<bar>m\<bar> \<le> 1500000020" using mb by (auto simp: m)
  have A: "\<bar>sh\<bar> < 2 ^ 63" "\<bar>era * 146097\<bar> < 2 ^ 63" "\<bar>doe\<bar> < 2 ^ 63" "\<bar>doe - d1\<bar> < 2 ^ 63" "\<bar>doe - d1 + d2\<bar> < 2 ^ 63"
    "\<bar>doe - d1 + d2 - d3\<bar> < 2 ^ 63" "\<bar>era * 400\<bar> < 2 ^ 63"
    using sh' doe' era' d' by - (simp, linarith?)+
  have B: "\<bar>yoe + era * 400\<bar> < 2 ^ 63" "\<bar>365 * yoe\<bar> < 2 ^ 63" "\<bar>365 * yoe + q4\<bar> < 2 ^ 63" "\<bar>365 * yoe + q4 - q100\<bar> < 2 ^ 63"
    "\<bar>yoe + era * 400 + (if m \<le> 2 then 1 else 0)\<bar> < 2 ^ 63"
    using sh' doe' era' yb q' by - (simp, linarith?)+
  have C: "\<bar>doy\<bar> < 2 ^ 63" "\<bar>5 * doy\<bar> < 2 ^ 63" "\<bar>5 * doy + 2\<bar> < 2 ^ 63" "\<bar>153 * mp\<bar> < 2 ^ 63" "\<bar>153 * mp + 2\<bar> < 2 ^ 63"
    "\<bar>doy - ms\<bar> < 2 ^ 63" "\<bar>doy - ms + 1\<bar> < 2 ^ 63" "\<bar>m\<bar> < 2 ^ 63"
    using doy' mb msb m' by - (simp, linarith?)+
  note f = A [THEN i64_small] B [THEN i64_small] C [THEN i64_small]
  show ?thesis
    unfolding civil_from_days_i64_def civil_from_days_def Let_def sh [symmetric] f num bind.bind_lunit e
      doe [symmetric] d [symmetric] yoe [symmetric] q [symmetric] doy [symmetric] mp [symmetric] ms [symmetric] m [symmetric]
    by (rule refl)
qed

lemma date_year_bound:
  assumes "valid_date y m d" "\<bar>days_from_civil y m d\<bar> \<le> 2 ^ 62"
  shows "\<bar>y\<bar> \<le> 2 ^ 54"
proof -
  obtain mp where mp: "mp = m + (if 2 < m then - 3 else 9)" by blast
  have m: "1 \<le> m" "m \<le> 12" using assms by (simp_all add: valid_date_def)
  obtain y' era where y': "y = y' + era * 400 + (if m \<le> 2 then 1 else 0)" "0 \<le> y'" "y' < 400"
    using that [of "(y - (if m \<le> 2 then 1 else 0)) mod 400" "(y - (if m \<le> 2 then 1 else 0)) div 400"]
    by (simp split: if_splits)
  note vm = valid_date_march [OF mp m]
  have d: "1 \<le> d" "d \<le> month_days mp" using assms(1) vm(1) by blast+
  have "era_days 0 \<le> era_days y'" "era_days y' \<le> era_days 400" using y'(2,3) by (auto intro: era_days_mono)
  moreover have "era_days 0 = 0" "era_days 400 = 146097" by (simp_all add: era_days_def)
  moreover have "days_from_civil y m d = era * 146097 + (era_days y' + (month_start mp + d - 1)) - 719468"
    using days_from_civil_march [OF mp vm(2) y'(2,3), of era d] by (simp add: y'(1))
  moreover have "0 \<le> month_start mp" "month_start mp \<le> 400" using vm(2,3) by (auto simp: month_start_def)
  moreover have "d \<le> 31" using d(2) by (auto simp: month_days_def split: if_splits)
  ultimately have "\<bar>era\<bar> \<le> 2 ^ 45" using assms(2) d(1) by (simp; linarith)
  then show ?thesis using y' by (auto split: if_splits)
qed

text \<open>
  C32. In 64-bit arithmetic, \<open>civil_from_days\<close> and \<open>days_from_civil\<close> are inverse to each other
  between the day numbers of absolute value up to \<open>2 ^ 62\<close> and the valid dates of the Gregorian
  calendar: no operation overflows, a day number is mapped to a valid date, leap years included,
  and only to the one date that is mapped back to it.
\<close>

theorem civil_days_bijection:
  assumes "\<bar>days\<bar> \<le> 2 ^ 62"
  shows "(\<exists>y m d. civil_from_days_i64 days = Some (y, m, d)) \<and>
    (\<forall>y m d. civil_from_days_i64 days = Some (y, m, d) \<longleftrightarrow>
       valid_date y m d \<and> \<bar>y\<bar> \<le> 2 ^ 54 \<and> days_from_civil_i64 y m d = Some days)"
proof (intro conjI allI)
  show "\<exists>y m d. civil_from_days_i64 days = Some (y, m, d)"
    unfolding civil_from_days_fits [OF assms] by (metis prod_cases3)
  fix y m d
  have fits: "days_from_civil_i64 y m d = Some (days_from_civil y m d)" if "valid_date y m d" "\<bar>y\<bar> \<le> 2 ^ 54"
    using that by (intro days_from_civil_fits) (auto simp: valid_date_def days_in_month_def split: if_splits)
  have "civil_from_days_i64 days = Some (y, m, d) \<longleftrightarrow> valid_date y m d \<and> days_from_civil y m d = days"
    by (simp add: civil_from_days_fits [OF assms] civil_days_iff)
  also have "\<dots> \<longleftrightarrow> valid_date y m d \<and> \<bar>y\<bar> \<le> 2 ^ 54 \<and> days_from_civil y m d = days"
    using date_year_bound [of y m d] assms by blast
  also have "\<dots> \<longleftrightarrow> valid_date y m d \<and> \<bar>y\<bar> \<le> 2 ^ 54 \<and> days_from_civil_i64 y m d = Some days"
    using fits by auto
  finally show "civil_from_days_i64 days = Some (y, m, d) \<longleftrightarrow>
       valid_date y m d \<and> \<bar>y\<bar> \<le> 2 ^ 54 \<and> days_from_civil_i64 y m d = Some days" .
qed

theorem civil_days_bijection_witness:
  "civil_from_days_i64 11016 = Some (2000, 2, 29) \<and> civil_from_days_i64 11017 \<noteq> Some (2000, 2, 29)"
proof -
  have "days_from_civil_i64 2000 2 29 = Some 11016" "valid_date 2000 2 29" by code_simp+
  then show ?thesis using civil_days_bijection [of 11016] civil_days_bijection [of 11017] by simp
qed

end
