(* ===== verification/Temporal.thy ===== *)
theory Temporal
  imports Calendar Memo
begin

text \<open>
  Date-time and currency fields: \<^verbatim>\<open>src/src/dbf/codec_temporal.rs\<close>.  Date-times are stored as
  a Julian day and the milliseconds of the day, currency as a 64-bit count of ten-thousandths.
\<close>

section \<open>Date and time fields\<close>

definition CURRENCY_SCALE :: nat where "CURRENCY_SCALE = 10000"
definition MILLISECONDS_PER_DAY :: u32 where "MILLISECONDS_PER_DAY = 86400000"
definition JULIAN_DAY_UNIX_EPOCH :: int where "JULIAN_DAY_UNIX_EPOCH = 2440588"

definition u32_try_from_int :: "int \<Rightarrow> u32 option" where
  "u32_try_from_int i = (if 0 \<le> i \<and> i < 2 ^ 32 then Some (word_of_int i) else None)"

definition datetime_part :: "bytes \<Rightarrow> nat \<Rightarrow> nat \<Rightarrow> (dbf_error, int) result" where
  "datetime_part bs i j =
     ok_or (Dbf_invalid ''datetime field requires YYYY-MM-DDTHH:MM:SS'')
       (map_option int (parse_digits (subslice i j bs)))"

definition foxpro_datetime_bytes :: "string \<Rightarrow> (dbf_error, bytes option) result" where
  "foxpro_datetime_bytes text =
     (let bs = string_bytes text in
      if length bs \<noteq> 19 \<or> bs ! 4 \<noteq> 0x2D \<or> bs ! 7 \<noteq> 0x2D \<or> \<not> (bs ! 10 = 0x54 \<or> bs ! 10 = 0x20) \<or>
         bs ! 13 \<noteq> 0x3A \<or> bs ! 16 \<noteq> 0x3A
      then Inr None
      else
        bindr (datetime_part bs 0 4) (\<lambda>year.
        bindr (datetime_part bs 5 7) (\<lambda>month.
        bindr (datetime_part bs 8 10) (\<lambda>day.
        bindr (datetime_part bs 11 13) (\<lambda>hour.
        bindr (datetime_part bs 14 16) (\<lambda>minute.
        bindr (datetime_part bs 17 19) (\<lambda>second.
        bindr (ensure (1 \<le> year \<and> year \<le> 9999 \<and> 0 \<le> hour \<and> hour \<le> 23 \<and> 0 \<le> minute \<and> minute \<le> 59 \<and>
            0 \<le> second \<and> second \<le> 59)
          (Dbf_invalid ''datetime field is outside the supported range'')) (\<lambda>_.
        let days = days_from_civil year month day in
        bindr (ensure ((year, month, day) = civil_from_days days)
          (Dbf_invalid ''datetime field contains an invalid date'')) (\<lambda>_.
        let milliseconds = word_of_int (hour * 3600000 + minute * 60000 + second * 1000) :: u32 in
        bindr (ok_or (Dbf_invalid ''datetime field date is out of range'')
          (u32_try_from_int (days + JULIAN_DAY_UNIX_EPOCH))) (\<lambda>julian_day.
        Inr (Some (u32_to_le julian_day @ u32_to_le milliseconds))))))))))))"

definition foxpro_datetime_text :: "bytes \<Rightarrow> string option" where
  "foxpro_datetime_text bs =
     (let julian_day = u32_from_le (subslice 0 4 bs); milliseconds = u32_from_le (subslice 4 8 bs) in
      if julian_day = 0 then None
      else if MILLISECONDS_PER_DAY \<le> milliseconds then None
      else
        let (year, month, day) = civil_from_days (uint julian_day - JULIAN_DAY_UNIX_EPOCH) in
        if \<not> (1 \<le> year \<and> year \<le> 9999) then None
        else
          let hour = milliseconds div 3600000; minute = milliseconds div 60000 mod 60;
              second = milliseconds div 1000 mod 60
          in Some (show_padded 4 (nat year) @ ''-'' @ show_padded 2 (nat month) @ ''-'' @
               show_padded 2 (nat day) @ ''T'' @ show_padded 2 (unat hour) @ '':'' @
               show_padded 2 (unat minute) @ '':'' @ show_padded 2 (unat second)))"

section \<open>Currency fields\<close>

text \<open>The code takes the first eight bytes and is only called on fields of at least eight.\<close>

definition currency_text :: "bytes \<Rightarrow> string" where
  "currency_text bs =
     (let v = sint (u64_from_le (subslice 0 8 bs)); magnitude = nat \<bar>v\<bar>;
          whole = magnitude div CURRENCY_SCALE; fraction = magnitude mod CURRENCY_SCALE
      in if v < 0 then ''-'' @ show_nat whole @ ''.'' @ show_padded 4 fraction
         else show_nat whole @ ''.'' @ show_padded 4 fraction)"

definition parse_u64_digits :: "bytes \<Rightarrow> u64 option" where
  "parse_u64_digits bs = Option.bind (parse_digits bs) u64_try_from"

definition currency_parts :: "bytes \<Rightarrow> bool \<times> bytes" where
  "currency_parts bs =
     (case strip_prefix [0x2D] bs of Some rest \<Rightarrow> (True, rest)
      | None \<Rightarrow> (case strip_prefix [0x2B] bs of Some rest \<Rightarrow> (False, rest) | None \<Rightarrow> (False, bs)))"

definition currency_i64 :: "(u64 \<Rightarrow> string) \<Rightarrow> json \<Rightarrow> field_descriptor \<Rightarrow> (dbf_error, int) result" where
  "currency_i64 show_f64 v field =
     bindr (value_text show_f64 v field) (\<lambda>text.
     let bs = trim_bytes (string_bytes text) in
     if bs = [] then Inr 0
     else
       let (negative, bs) = currency_parts bs; parts = split_on 0x2E bs;
           whole_text = parts ! 0; fraction_text = (if 1 < length parts then parts ! 1 else []);
           out_of_range = Dbf_invalid (''currency field '' @ fd_name field @ '' is out of range'')
       in
       bindr (ensure (\<not> (2 < length parts \<or> (whole_text = [] \<and> fraction_text = []) \<or>
           \<not> list_all is_ascii_digit whole_text \<or> \<not> list_all is_ascii_digit fraction_text \<or>
           4 < length fraction_text))
         (Dbf_invalid (''currency field '' @ fd_name field @
           '' requires a fixed-point number with at most four decimals or null''))) (\<lambda>_.
       bindr (if whole_text = [] then Inr 0 else ok_or out_of_range (parse_u64_digits whole_text)) (\<lambda>whole.
       bindr (if fraction_text = [] then Inr 0 else ok_or out_of_range (parse_u64_digits fraction_text)) (\<lambda>fraction.
       let scale = (if length fraction_text = 0 then CURRENCY_SCALE else if length fraction_text = 1 then 1000
             else if length fraction_text = 2 then 100 else if length fraction_text = 3 then 10 else 1) in
       bindr (ok_or out_of_range
         (Option.bind (checked_mul (unat whole) CURRENCY_SCALE) (\<lambda>w. checked_add w (unat fraction * scale)))) (\<lambda>magnitude.
       bindr (ensure (magnitude \<le> 2 ^ 63 - 1 + (if negative then 1 else 0)) out_of_range) (\<lambda>_.
       Inr (if negative then - int magnitude else int magnitude)))))))"

section \<open>Currency round trip\<close>

lemma parse_digits_decimal [simp]: "parse_digits (decimal_bytes n) = Some n"
  using digits_value_padded [of 0 n] decimal_bytes_digits [of n] by (simp add: parse_digits_def)

lemma string_bytes_append [simp]: "string_bytes (a @ b) = string_bytes a @ string_bytes b"
  by (simp add: string_bytes_def)

lemma string_bytes_show_nat [simp]: "string_bytes (show_nat n) = decimal_bytes n"
proof -
  have "word_of_nat (of_char (char_of (48 + d) :: char)) = (0x30 + word_of_nat d :: u8)" if "d < 10" for d :: nat
    using that by (simp add: of_char_of)
  then show ?thesis
    using decimal_digits [of _ n] by (simp add: string_bytes_def show_nat_def decimal_bytes_def del: of_char_of)
qed

lemma digits_no_separator: "list_all is_ascii_digit bs \<Longrightarrow> 0x2E \<notin> set bs \<and> 0x2D \<notin> set bs \<and> 0x2B \<notin> set bs"
  by (auto simp: list_all_iff is_ascii_digit_def)

lemma string_bytes_simps [simp]:
  "string_bytes (c # cs) = word_of_nat (of_char c) # string_bytes cs" "string_bytes [] = []"
  by (simp_all add: string_bytes_def)

lemma currency_i64_parts:
  assumes "trim_bytes (string_bytes t) = tbs" "tbs \<noteq> []" "currency_parts tbs = (neg, r)" "split_on 0x2E r = [W, F]"
    and "list_all is_ascii_digit W" "list_all is_ascii_digit F" "W \<noteq> []" "length F = 4"
    and "parse_u64_digits W = Some w" "parse_u64_digits F = Some f"
    and "unat w * 10000 + unat f \<le> 2 ^ 63 - 1 + (if neg then 1 else 0)"
  shows "currency_i64 show_f64 (JString t) field =
    Inr (if neg then - int (unat w * 10000 + unat f) else int (unat w * 10000 + unat f))"
proof -
  have "unat w * 10000 + unat f < usize_limit" "unat w * 10000 < usize_limit"
    using assms(11) by (simp_all add: usize_limit_def split: if_splits)
  moreover have "F \<noteq> []" using assms(8) by auto
  ultimately show ?thesis
    using assms by (simp add: currency_i64_def value_text_def Let_def checked_mul_def checked_add_def CURRENCY_SCALE_def)
qed

lemma sint_u64_range: "- (2 ^ 63) \<le> sint (w :: u64)" "sint (w :: u64) < 2 ^ 63"
  using sint_ge [of w] sint_lt [of w] by simp_all

text \<open>
  C34. Every 64-bit currency amount, the most negative one included, is printed as a
  fixed-point number from which \<open>currency_i64\<close> reads the same amount.
\<close>

theorem currency_roundtrip:
  "currency_i64 show_f64 (JString (currency_text bs)) field = Inr (sint (u64_from_le (subslice 0 8 bs)))"
proof -
  let ?v = "sint (u64_from_le (subslice 0 8 bs))"
  obtain v where v: "v = ?v" by blast
  have range: "- (2 ^ 63) \<le> v" "v < 2 ^ 63" unfolding v by (rule sint_u64_range)+
  obtain m w f where m: "m = nat \<bar>v\<bar>" and wf: "w = m div 10000" "f = m mod 10000" by blast
  have mwf: "w * 10000 + f = m" by (simp add: wf)
  let ?sign = "if v < 0 then [0x2D] else []" and ?w = "decimal_bytes w" and ?f = "string_bytes (show_padded 4 f)"
  have tb: "string_bytes (currency_text bs) = ?sign @ ?w @ 0x2E # ?f"
    by (simp add: currency_text_def Let_def v [symmetric] m CURRENCY_SCALE_def wf)
  have dw: "list_all is_ascii_digit ?w" and df: "list_all is_ascii_digit ?f"
    by (rule decimal_bytes_digits show_padded_digits)+
  have lf: "length ?f = 4" using length_show_padded [of 4 f] by (simp add: wf)
  have g: "is_ascii_graphic 0x2D" "is_ascii_graphic 0x2E" by (simp_all add: is_ascii_graphic_def)
  have trim: "trim_bytes (?sign @ ?w @ 0x2E # ?f) = ?sign @ ?w @ 0x2E # ?f"
    using dw df by (intro trim_bytes_graphic) (auto simp: list_all_iff digit_graphic g)
  have parts: "currency_parts (?sign @ ?w @ 0x2E # ?f) = (v < 0, ?w @ 0x2E # ?f)"
    using digits_no_separator [OF dw] decimal_bytes_not_Nil [of w]
    by (cases ?w) (auto simp: currency_parts_def strip_prefix_def)
  have split: "split_on 0x2E (?w @ 0x2E # ?f) = [?w, ?f]"
    using digits_no_separator [OF dw] digits_no_separator [OF df] by (intro split_on_one) blast+
  have m63: "m \<le> 2 ^ 63" "\<not> v < 0 \<Longrightarrow> m < 2 ^ 63" using range by (auto simp: m)
  have "w < 2 ^ 64" "f < 2 ^ 64" using m63(1) mwf by simp_all
  then have pw: "parse_u64_digits ?w = Some (word_of_nat w)" "unat (word_of_nat w :: u64) = w"
    and pf: "parse_u64_digits ?f = Some (word_of_nat f)" "unat (word_of_nat f :: u64) = f"
    by (simp_all add: parse_u64_digits_def u64_try_from_def unat_of_nat)
  have mm: "unat (word_of_nat w :: u64) * 10000 + unat (word_of_nat f :: u64) = m" by (simp only: pw(2) pf(2) mwf)
  have "m \<le> 2 ^ 63 - 1 + (if v < 0 then 1 else 0)" using m63 by (cases "v < 0") simp_all
  then have le: "unat (word_of_nat w :: u64) * 10000 + unat (word_of_nat f :: u64) \<le> 2 ^ 63 - 1 + (if v < 0 then 1 else 0)"
    by (simp only: mm)
  have ct: "trim_bytes (string_bytes (currency_text bs)) = ?sign @ ?w @ 0x2E # ?f" by (simp only: tb trim)
  have ne: "?sign @ ?w @ 0x2E # ?f \<noteq> []" by simp
  have "(if v < 0 then - int m else int m) = v" by (simp add: m)
  then show ?thesis
    using currency_i64_parts [OF ct ne parts split dw df decimal_bytes_not_Nil lf pw(1) pf(1) le]
    by (simp only: mm v [symmetric])
qed

section \<open>Date and time round trips\<close>

lemma undecimal_inject:
  assumes "length xs = length ys" "list_all (\<lambda>d. d < 10) xs" "list_all (\<lambda>d. d < 10) ys" "undecimal xs = undecimal ys"
  shows "xs = ys"
  using assms
proof (induction xs arbitrary: ys rule: rev_induct)
  case (snoc x xs)
  then obtain zs z where ys: "ys = zs @ [z]" by (cases ys rule: rev_cases) auto
  have "10 * undecimal xs + x = 10 * undecimal zs + z" "x < 10" "z < 10"
    using snoc.prems by (auto simp: ys undecimal_def)
  then have "undecimal xs = undecimal zs" "x = z" by presburger+
  with snoc ys show ?case by simp
qed simp

lemma digit_sub_inject:
  "is_ascii_digit x \<Longrightarrow> is_ascii_digit y \<Longrightarrow> unat x - 48 = unat y - 48 \<Longrightarrow> x = y"
  by (auto simp: is_ascii_digit_def word_le_nat_alt word_unat_eq_iff)

lemma digits_inject:
  assumes "list_all is_ascii_digit a" "list_all is_ascii_digit b" "length a = length b" "digits_value a = digits_value b"
  shows "a = b"
proof -
  have "map (\<lambda>b. unat b - 48) a = map (\<lambda>b. unat b - 48) b"
    using assms digit_value_less by (intro undecimal_inject) (auto simp: digits_value_def list_all_iff)
  moreover have "inj_on (\<lambda>b. unat b - 48) (set a \<union> set b)"
    using assms(1,2) unfolding list_all_iff by (intro inj_onI) (metis Un_iff digit_sub_inject)
  ultimately show ?thesis by (rule map_inj_on)
qed

lemma show_padded_value:
  assumes "list_all is_ascii_digit ds" "length ds = w" "0 < w"
  shows "show_padded w (digits_value ds) = bytes_string ds"
proof -
  have "digits_value ds < 10 ^ w" using digits_value_less assms by blast
  then have "string_bytes (show_padded w (digits_value ds)) = ds"
    using assms length_show_padded [OF assms(3)] parse_show_padded [of w "digits_value ds"] show_padded_digits
    by (intro digits_inject) (auto simp: parse_digits_def split: if_splits)
  then show ?thesis by (metis string_bytes_inverse)
qed

lemma datetime_part_Inr:
  "datetime_part bs i j = Inr x \<longleftrightarrow>
     subslice i j bs \<noteq> [] \<and> list_all is_ascii_digit (subslice i j bs) \<and> x = int (digits_value (subslice i j bs))"
  by (auto simp: datetime_part_def ok_or_Inr_iff parse_digits_def split: if_splits)

lemma list_19:
  assumes "length xs = 19"
  obtains a b c d e f g h i j k l m n p q r s t where "xs = [a, b, c, d, e, f, g, h, i, j, k, l, m, n, p, q, r, s, t]"
  using assms by (auto simp: numeral_eq_Suc length_Suc_conv)

lemma clock_parts:
  fixes h m s :: int
  assumes "0 \<le> h" "h \<le> 23" "0 \<le> m" "m \<le> 59" "0 \<le> s" "s \<le> 59"
    and w: "w = (word_of_int (h * 3600000 + m * 60000 + s * 1000) :: u32)"
  shows "w < 86400000" "unat (w div 3600000) = nat h" "unat (w div 60000 mod 60) = nat m"
    "unat (w div 1000 mod 60) = nat s"
proof -
  obtain h' m' s' where n: "h = int h'" "m = int m'" "s = int s'" using assms(1,3,5) by (metis nonneg_int_cases)
  have lt: "h' * 3600000 + m' * 60000 + s' * 1000 < 86400000" using assms by (simp add: n)
  obtain N where N: "N = h' * 3600000 + m' * 60000 + s' * 1000" by blast
  have "h * 3600000 + m * 60000 + s * 1000 = int N" by (simp add: n N)
  then have "w = word_of_nat N" by (simp only: w of_int_of_nat_eq)
  then have u: "unat w = h' * 3600000 + m' * 60000 + s' * 1000"
    using lt unfolding N [symmetric] by (simp add: unat_of_nat)
  show "w < 86400000" using u lt by (simp add: word_less_nat_alt)
  have b: "m' < 60" "s' < 60" using assms by (simp_all add: n)
  show "unat (w div 3600000) = nat h" using b by (simp add: unat_div u n)
  have "h' * 3600000 + m' * 60000 + s' * 1000 = (h' * 60 + m') * 60000 + s' * 1000" by simp
  then have "unat w div 60000 = h' * 60 + m'" using b by (simp add: u)
  then show "unat (w div 60000 mod 60) = nat m" using b by (simp add: unat_div unat_mod n)
  have "unat w div 1000 = (h' * 60 + m') * 60 + s'" using b by (simp add: u)
  then have "unat w div 1000 mod 60 = s'" using b by (simp only: mod_mult_self3) simp
  then show "unat (w div 1000 mod 60) = nat s" by (simp add: unat_div unat_mod n)
qed

lemma subslice_numeral:
  "subslice 0 j xs = take j xs" "subslice (Suc i) j (x # xs) = subslice i (j - 1) xs"
  by (simp_all add: subslice_def)

definition datetime_clean :: "int \<Rightarrow> int \<Rightarrow> int \<Rightarrow> int \<Rightarrow> int \<Rightarrow> int \<Rightarrow> bool" where
  "datetime_clean y m d h mi s \<longleftrightarrow>
     1 \<le> y \<and> y \<le> 9999 \<and> 0 \<le> h \<and> h \<le> 23 \<and> 0 \<le> mi \<and> mi \<le> 59 \<and> 0 \<le> s \<and> s \<le> 59 \<and> valid_date y m d"

definition datetime_string :: "int \<Rightarrow> int \<Rightarrow> int \<Rightarrow> char \<Rightarrow> int \<Rightarrow> int \<Rightarrow> int \<Rightarrow> string" where
  "datetime_string y m d c h mi s =
     show_padded 4 (nat y) @ ''-'' @ show_padded 2 (nat m) @ ''-'' @ show_padded 2 (nat d) @ [c] @
     show_padded 2 (nat h) @ '':'' @ show_padded 2 (nat mi) @ '':'' @ show_padded 2 (nat s)"

definition datetime_bytes :: "int \<Rightarrow> int \<Rightarrow> int \<Rightarrow> int \<Rightarrow> int \<Rightarrow> int \<Rightarrow> bytes" where
  "datetime_bytes y m d h mi s =
     u32_to_le (word_of_int (days_from_civil y m d + 2440588)) @
     u32_to_le (word_of_int (h * 3600000 + mi * 60000 + s * 1000))"

lemma char_of_separators:
  "char_of (45 :: nat) = CHR ''-''" "char_of (58 :: nat) = CHR '':''" "char_of (84 :: nat) = CHR ''T''"
  "char_of (32 :: nat) = CHR '' ''"
  by (simp_all add: char_of_def bit_0)

lemma foxpro_datetime_bytes_Inr:
  assumes "foxpro_datetime_bytes text = Inr (Some bs)"
  obtains y m d c h mi s where "datetime_clean y m d h mi s" "c = CHR ''T'' \<or> c = CHR '' ''"
    "text = datetime_string y m d c h mi s" "bs = datetime_bytes y m d h mi s"
proof -
  let ?t = "string_bytes text"
  have len: "length ?t = 19" and sep: "?t ! 4 = 0x2D" "?t ! 7 = 0x2D" "?t ! 10 = 0x54 \<or> ?t ! 10 = 0x20"
      "?t ! 13 = 0x3A" "?t ! 16 = 0x3A"
    using assms by (auto simp: foxpro_datetime_bytes_def Let_def split: if_splits)
  obtain y m d h mi s jd where
    p: "datetime_part ?t 0 4 = Inr y" "datetime_part ?t 5 7 = Inr m" "datetime_part ?t 8 10 = Inr d"
      "datetime_part ?t 11 13 = Inr h" "datetime_part ?t 14 16 = Inr mi" "datetime_part ?t 17 19 = Inr s"
    and r: "1 \<le> y \<and> y \<le> 9999 \<and> 0 \<le> h \<and> h \<le> 23 \<and> 0 \<le> mi \<and> mi \<le> 59 \<and> 0 \<le> s \<and> s \<le> 59"
    and v: "(y, m, d) = civil_from_days (days_from_civil y m d)"
    and j: "u32_try_from_int (days_from_civil y m d + JULIAN_DAY_UNIX_EPOCH) = Some jd"
    and b: "bs = u32_to_le jd @ u32_to_le (word_of_int (h * 3600000 + mi * 60000 + s * 1000))"
    using assms len sep unfolding foxpro_datetime_bytes_def Let_def
    by (simp only: bindr_Inr_iff ensure_Inr_iff ok_or_Inr_iff if_False if_True simp_thms sum.inject option.inject) blast
  have clean: "datetime_clean y m d h mi s"
    using r civil_days_iff [THEN iffD1, OF v [symmetric]] by (simp add: datetime_clean_def)
  have bytes: "bs = datetime_bytes y m d h mi s"
    using j by (simp add: b datetime_bytes_def u32_try_from_int_def JULIAN_DAY_UNIX_EPOCH_def split: if_splits)
  have str: "show_padded (l - k) (nat x) = bytes_string (subslice k l ?t)"
    if "datetime_part ?t k l = Inr x" "k < l" "l \<le> 19" for k l x
    using that len by (auto simp: datetime_part_Inr intro!: show_padded_value)
  have cut: "?t = subslice 0 4 ?t @ [?t ! 4] @ subslice 5 7 ?t @ [?t ! 7] @ subslice 8 10 ?t @ [?t ! 10] @
      subslice 11 13 ?t @ [?t ! 13] @ subslice 14 16 ?t @ [?t ! 16] @ subslice 17 19 ?t"
    by (rule list_19 [OF len]) (simp add: subslice_def)
  let ?c = "char_of (unat (?t ! 10))"
  have "text = bytes_string ?t" by simp
  also have "\<dots> = datetime_string y m d ?c h mi s"
    using str [OF p(1)] str [OF p(2)] str [OF p(3)] str [OF p(4)] str [OF p(5)] str [OF p(6)]
    by (subst cut) (simp add: datetime_string_def sep bytes_string_def char_of_separators)
  finally show ?thesis using that [OF clean _ _ bytes, of ?c] sep(3) by (auto simp: char_of_separators)
qed

lemma days_from_civil_upper:
  assumes "valid_date y m d" "y \<le> 9999"
  shows "days_from_civil y m d < 4000000"
proof -
  obtain mp where mp: "mp = m + (if 2 < m then - 3 else 9)" by blast
  have m: "1 \<le> m" "m \<le> 12" using assms by (simp_all add: valid_date_def)
  obtain y' era where y': "y = y' + era * 400 + (if m \<le> 2 then 1 else 0)" "0 \<le> y'" "y' < 400"
    using that [of "(y - (if m \<le> 2 then 1 else 0)) mod 400" "(y - (if m \<le> 2 then 1 else 0)) div 400"]
    by (simp split: if_splits)
  note vm = valid_date_march [OF mp m]
  have d: "1 \<le> d" "d \<le> month_days mp" using assms(1) vm(1) by blast+
  have "era \<le> 24" using y' assms(2) by (auto split: if_splits)
  moreover have "era_days y' \<le> era_days 400" using y'(3) by (intro era_days_mono) simp
  moreover have "era_days 400 = 146097" by (simp add: era_days_def)
  ultimately show ?thesis
    using days_from_civil_march [OF mp vm(2) y'(2,3), of era d] month_day(2) [OF vm(2,3) d] by (simp add: y'(1))
qed

lemma datetime_text_of_bytes:
  assumes "datetime_clean y m d h mi s"
  shows "foxpro_datetime_text (datetime_bytes y m d h mi s) = Some (datetime_string y m d CHR ''T'' h mi s)"
proof -
  obtain n where n: "n = days_from_civil y m d + 2440588" by blast
  obtain w where w: "w = (word_of_int (h * 3600000 + mi * 60000 + s * 1000) :: u32)" by blast
  obtain j where j: "j = (word_of_int n :: u32)" by blast
  have v: "valid_date y m d" "1 \<le> y" "y \<le> 9999" using assms by (simp_all add: datetime_clean_def)
  have "0 < n" "n < 2 ^ 32" using days_from_civil_lower [OF v(1,2)] days_from_civil_upper [OF v(1,3)] by (simp_all add: n)
  then have ju: "uint j = n" by (simp add: j uint_word_of_int)
  with \<open>0 < n\<close> have j0: "j \<noteq> 0" by auto
  have civil: "civil_from_days (n - 2440588) = (y, m, d)" using v(1) by (simp add: civil_days_iff n)
  have bs: "datetime_bytes y m d h mi s = u32_to_le j @ u32_to_le w" by (simp add: datetime_bytes_def j n w)
  have sub: "subslice 0 4 (u32_to_le j @ u32_to_le w) = u32_to_le j" "subslice 4 8 (u32_to_le j @ u32_to_le w) = u32_to_le w"
    by (simp_all add: subslice_def)
  have c: "w < 86400000" "unat (w div 3600000) = nat h" "unat (w div 60000 mod 60) = nat mi"
    "unat (w div 1000 mod 60) = nat s"
    using clock_parts [of h mi s w] assms w by (simp_all add: datetime_clean_def)
  then have "\<not> MILLISECONDS_PER_DAY \<le> w" by (simp add: MILLISECONDS_PER_DAY_def)
  then show ?thesis
    using v(2,3) j0 unfolding foxpro_datetime_text_def bs sub
    by (simp add: Let_def ju civil c JULIAN_DAY_UNIX_EPOCH_def datetime_string_def)
qed

lemma datetime_string_parts:
  assumes "datetime_clean y m d h mi s" "c = CHR ''T'' \<or> c = CHR '' ''"
  defines "t \<equiv> string_bytes (datetime_string y m d c h mi s)"
  shows "length t = 19" "t ! 4 = 0x2D" "t ! 7 = 0x2D" "t ! 10 = 0x54 \<or> t ! 10 = 0x20" "t ! 13 = 0x3A" "t ! 16 = 0x3A"
    "datetime_part t 0 4 = Inr y" "datetime_part t 5 7 = Inr m" "datetime_part t 8 10 = Inr d"
    "datetime_part t 11 13 = Inr h" "datetime_part t 14 16 = Inr mi" "datetime_part t 17 19 = Inr s"
    "(datetime_string y m d c h mi s)[10 := CHR ''T''] = datetime_string y m d CHR ''T'' h mi s"
proof -
  have "days_in_month y m \<le> 31" by (simp add: days_in_month_def)
  then have r: "0 \<le> y" "y < 10 ^ 4" "0 \<le> m" "m < 10 ^ 2" "0 \<le> d" "d < 10 ^ 2" "0 \<le> h" "h < 10 ^ 2" "0 \<le> mi" "mi < 10 ^ 2"
    "0 \<le> s" "s < 10 ^ 2" using assms(1) by (auto simp: datetime_clean_def valid_date_def)
  have l4: "length (show_padded 4 (nat y)) = 4" using r by (intro length_show_padded) simp_all
  have l2: "length (show_padded 2 (nat x)) = 2" if "0 \<le> x" "x < 10 ^ 2" for x using that by (intro length_show_padded) simp_all
  note l = l4 l2 [OF r(3,4)] l2 [OF r(5,6)] l2 [OF r(7,8)] l2 [OF r(9,10)] l2 [OF r(11,12)]
  have t: "t = string_bytes (show_padded 4 (nat y)) @ 0x2D # string_bytes (show_padded 2 (nat m)) @ 0x2D #
     string_bytes (show_padded 2 (nat d)) @ word_of_nat (of_char c) # string_bytes (show_padded 2 (nat h)) @ 0x3A #
     string_bytes (show_padded 2 (nat mi)) @ 0x3A # string_bytes (show_padded 2 (nat s))"
    by (simp add: t_def datetime_string_def)
  show "length t = 19" by (simp add: t l)
  show "t ! 4 = 0x2D" "t ! 7 = 0x2D" "t ! 13 = 0x3A" "t ! 16 = 0x3A" by (simp_all add: t l nth_append)
  show "t ! 10 = 0x54 \<or> t ! 10 = 0x20" using assms(2) by (auto simp: t l nth_append)
  have "subslice 0 4 t = string_bytes (show_padded 4 (nat y))" "subslice 5 7 t = string_bytes (show_padded 2 (nat m))"
    "subslice 8 10 t = string_bytes (show_padded 2 (nat d))" "subslice 11 13 t = string_bytes (show_padded 2 (nat h))"
    "subslice 14 16 t = string_bytes (show_padded 2 (nat mi))" "subslice 17 19 t = string_bytes (show_padded 2 (nat s))"
    by (simp_all add: t l subslice_def)
  then show "datetime_part t 0 4 = Inr y" "datetime_part t 5 7 = Inr m" "datetime_part t 8 10 = Inr d"
    "datetime_part t 11 13 = Inr h" "datetime_part t 14 16 = Inr mi" "datetime_part t 17 19 = Inr s"
    using r by (simp_all add: datetime_part_def)
  show "(datetime_string y m d c h mi s)[10 := CHR ''T''] = datetime_string y m d CHR ''T'' h mi s"
    by (simp add: datetime_string_def list_update_append l)
qed

lemma datetime_bytes_of_string:
  assumes "datetime_clean y m d h mi s" "c = CHR ''T'' \<or> c = CHR '' ''"
  shows "foxpro_datetime_bytes (datetime_string y m d c h mi s) = Inr (Some (datetime_bytes y m d h mi s))"
proof -
  note p = datetime_string_parts [OF assms]
  have v: "valid_date y m d" "1 \<le> y" "y \<le> 9999" using assms(1) by (simp_all add: datetime_clean_def)
  have "u32_try_from_int (days_from_civil y m d + JULIAN_DAY_UNIX_EPOCH) = Some (word_of_int (days_from_civil y m d + 2440588))"
    using days_from_civil_lower [OF v(1,2)] days_from_civil_upper [OF v(1,3)]
    by (simp add: u32_try_from_int_def JULIAN_DAY_UNIX_EPOCH_def)
  moreover have "civil_from_days (days_from_civil y m d) = (y, m, d)" using v(1) by (simp add: civil_days_iff)
  ultimately show ?thesis
    using assms(1) p(4) unfolding foxpro_datetime_bytes_def Let_def
    by (simp add: p(1) [simplified] p(2-3,5-12) datetime_clean_def datetime_bytes_def)
qed

lemma foxpro_datetime_text_Some:
  assumes "foxpro_datetime_text bs = Some text" "length bs = 8"
  obtains y m d h mi s where "datetime_clean y m d h mi s" "text = datetime_string y m d CHR ''T'' h mi s"
    "datetime_bytes y m d h mi s =
       take 4 bs @ u32_to_le (word_of_nat (unat (u32_from_le (drop 4 bs)) div 1000 * 1000))"
proof -
  obtain j w where jw: "j = u32_from_le (take 4 bs)" "w = u32_from_le (drop 4 bs)" by blast
  have sub: "subslice 0 4 bs = take 4 bs" "subslice 4 8 bs = drop 4 bs" using assms(2) by (simp_all add: subslice_def)
  obtain y m d where c: "civil_from_days (uint j - JULIAN_DAY_UNIX_EPOCH) = (y, m, d)" by (metis prod_cases3)
  obtain H M S where hw: "H = w div 3600000" "M = w div 60000 mod 60" "S = w div 1000 mod 60" by blast
  let ?h = "uint H" and ?mi = "uint M" and ?s = "uint S"
  have "\<not> MILLISECONDS_PER_DAY \<le> w" and f: "1 \<le> y" "y \<le> 9999"
    and t: "text = datetime_string y m d CHR ''T'' ?h ?mi ?s"
    using assms(1) unfolding foxpro_datetime_text_def sub Let_def jw [symmetric] hw [symmetric] c
    by (auto simp: datetime_string_def split: if_splits)
  then have w: "w < 86400000" by (simp add: MILLISECONDS_PER_DAY_def not_le)
  have v: "valid_date y m d" "days_from_civil y m d = uint j - 2440588"
    using c by (simp_all add: civil_days_iff JULIAN_DAY_UNIX_EPOCH_def)
  obtain n where n: "n = unat w" "n < 86400000" using w by (simp add: word_less_nat_alt)
  have hms: "?h = int (n div 3600000)" "?mi = int (n div 60000 mod 60)" "?s = int (n div 1000 mod 60)"
    by (simp_all add: n(1) hw uint_nat unat_div unat_mod)
  have sum: "n div 3600000 * 3600000 + n div 60000 mod 60 * 60000 + n div 1000 mod 60 * 1000 = n div 1000 * 1000"
  proof -
    have "n div 60000 = n div 1000 div 60" "n div 3600000 = n div 1000 div 60 div 60" by (simp_all add: div_mult2_eq [symmetric])
    moreover have "k div 60 div 60 * 3600000 + k div 60 mod 60 * 60000 + k mod 60 * 1000 = k * 1000" for k :: nat
      using div_mult_mod_eq [of "k div 60" 60] div_mult_mod_eq [of k 60] by linarith
    ultimately show ?thesis by simp
  qed
  have "n div 3600000 \<le> 23" "n div 60000 mod 60 \<le> 59" "n div 1000 mod 60 \<le> 59" using n(2) by (auto simp: less_Suc_eq_le [symmetric])
  then have clean: "datetime_clean y m d ?h ?mi ?s"
    using f v(1) by (simp add: datetime_clean_def hms)
  have "u32_to_le (word_of_int (days_from_civil y m d + 2440588)) = take 4 bs"
    using u32_to_from_le [of "take 4 bs"] assms(2) by (simp add: v(2) jw(1))
  moreover have "?h * 3600000 + ?mi * 60000 + ?s * 1000 = int (n div 1000 * 1000)"
    unfolding sum [symmetric] hms by simp
  ultimately have "datetime_bytes y m d ?h ?mi ?s = take 4 bs @ u32_to_le (word_of_nat (n div 1000 * 1000))"
    by (simp only: datetime_bytes_def of_int_of_nat_eq)
  with that [OF clean t] show ?thesis by (simp only: n(1) jw(2))
qed

text \<open>
  C33. Date-time fields: a text that is accepted is printed again from the eight bytes
  stored for it, with \<open>T\<close> as the separator; and a text printed from eight stored bytes is
  accepted and stored as the same bytes, cut to whole seconds.
\<close>

theorem datetime_roundtrip:
  "(foxpro_datetime_bytes text = Inr (Some bs) \<longrightarrow> foxpro_datetime_text bs = Some (text[10 := CHR ''T''])) \<and>
   (foxpro_datetime_text bs = Some text \<and> length bs = 8 \<longrightarrow>
      foxpro_datetime_bytes text =
        Inr (Some (take 4 bs @ u32_to_le (word_of_nat (unat (u32_from_le (drop 4 bs)) div 1000 * 1000)))))"
proof (intro conjI impI)
  assume "foxpro_datetime_bytes text = Inr (Some bs)"
  then obtain y m d c h mi s where "datetime_clean y m d h mi s" "c = CHR ''T'' \<or> c = CHR '' ''"
    "text = datetime_string y m d c h mi s" "bs = datetime_bytes y m d h mi s"
    by (rule foxpro_datetime_bytes_Inr)
  then show "foxpro_datetime_text bs = Some (text[10 := CHR ''T''])"
    by (simp only: datetime_text_of_bytes datetime_string_parts(13))
next
  assume a: "foxpro_datetime_text bs = Some text \<and> length bs = 8"
  obtain y m d h mi s where clean: "datetime_clean y m d h mi s" and t: "text = datetime_string y m d CHR ''T'' h mi s"
    and b: "datetime_bytes y m d h mi s =
      take 4 bs @ u32_to_le (word_of_nat (unat (u32_from_le (drop 4 bs)) div 1000 * 1000))"
    using foxpro_datetime_text_Some [of bs "text"] a by blast
  show "foxpro_datetime_bytes text =
      Inr (Some (take 4 bs @ u32_to_le (word_of_nat (unat (u32_from_le (drop 4 bs)) div 1000 * 1000))))"
    unfolding t b [symmetric] using clean by (intro datetime_bytes_of_string) simp_all
qed

lemma sample_datetime:
  "foxpro_datetime_bytes ''1972-02-29 23:59:58'' = Inr (Some (datetime_bytes 1972 2 29 23 59 58))"
proof -
  have "datetime_string 1972 2 29 CHR '' '' 23 59 58 = ''1972-02-29 23:59:58''" by code_simp
  moreover have "datetime_clean 1972 2 29 23 59 58" by code_simp
  ultimately show ?thesis using datetime_bytes_of_string [of 1972 2 29 23 59 58 "CHR '' ''"] by simp
qed

theorem datetime_roundtrip_witness:
  "\<exists>bs. foxpro_datetime_bytes ''1972-02-29 23:59:58'' = Inr (Some bs) \<and>
     foxpro_datetime_text bs = Some ''1972-02-29T23:59:58'' \<and>
     (\<exists>cs. foxpro_datetime_bytes ''1972-02-29T23:59:58'' = Inr (Some cs))"
proof -
  let ?bs = "datetime_bytes 1972 2 29 23 59 58"
  have "foxpro_datetime_text ?bs = Some ''1972-02-29T23:59:58''"
    using datetime_roundtrip [of "''1972-02-29 23:59:58''" ?bs] sample_datetime by simp
  moreover have "length ?bs = 8" by (simp add: datetime_bytes_def)
  ultimately show ?thesis
    using datetime_roundtrip [of "''1972-02-29T23:59:58''" ?bs] sample_datetime by blast
qed

end
