(* ===== verification/Dbf_Codec.thy ===== *)
theory Dbf_Codec
  imports Code_Pages Float64 Memo Temporal
begin

text \<open>
  Fields of DBF records: text encodings (\<^verbatim>\<open>src/src/dbf/codec_cjk.rs\<close>), descriptors and null flags
  (\<^verbatim>\<open>src/src/dbf/codec_fields.rs\<close>), decoding (\<^verbatim>\<open>src/src/dbf/codec_decode.rs\<close>), and encoding
  (\<^verbatim>\<open>src/src/dbf/codec_encode.rs\<close>, \<^verbatim>\<open>src/src/dbf/codec_values.rs\<close>).  The multi-byte encodings of
  \<open>encoding_rs\<close> and the float printer of the JSON library are the record \<open>text_env\<close>.
\<close>

section \<open>Multi-byte encodings\<close>

datatype encoding = BIG5 | EUC_KR | EUC_JP | GB18030 | GBK | ISO_2022_JP | SHIFT_JIS

record text_env =
  te_decode :: "encoding \<Rightarrow> bytes \<Rightarrow> string \<times> bool"
  te_encode :: "encoding \<Rightarrow> string \<Rightarrow> bytes \<times> bool"
  te_show_f64 :: "u64 \<Rightarrow> string"

definition STRICT_SHIFT_JIS :: string where "STRICT_SHIFT_JIS = ''Shift_JIS''"

definition ascii_lower :: "u8 \<Rightarrow> u8" where
  "ascii_lower b = (if 0x41 \<le> b \<and> b \<le> 0x5A then b + 0x20 else b)"

definition to_ascii_lowercase :: "string \<Rightarrow> string" where
  "to_ascii_lowercase s = bytes_string (map ascii_lower (string_bytes s))"

definition canonical_encoding_name :: "string \<Rightarrow> string option" where
  "canonical_encoding_name name =
     (let n = to_ascii_lowercase name in
      if n \<in> {''windows-31j'', ''cp932'', ''windows-31j/cp932''} then Some ''Windows-31J/CP932''
      else if n \<in> {''shift_jis'', ''shift-jis'', ''sjis''} then Some STRICT_SHIFT_JIS
      else if n \<in> {''gbk'', ''cp936'', ''gbk/cp936''} then Some ''GBK/CP936''
      else if n = ''gb18030'' then Some ''GB18030''
      else if n \<in> {''euc-kr'', ''cp949'', ''euc-kr/cp949''} then Some ''EUC-KR/CP949''
      else if n = ''euc-jp'' then Some ''EUC-JP''
      else if n \<in> {''iso-2022-jp'', ''iso2022-jp''} then Some ''ISO-2022-JP''
      else if n \<in> {''big5'', ''cp950'', ''big5/cp950''} then Some ''Big5/CP950''
      else None)"

definition is_strict_shift_jis :: "string option \<Rightarrow> bool" where
  "is_strict_shift_jis ov \<longleftrightarrow> Option.bind ov canonical_encoding_name = Some STRICT_SHIFT_JIS"

definition cjk_encoding :: "u8 \<Rightarrow> string option \<Rightarrow> encoding option" where
  "cjk_encoding d ov =
     (case ov of
        Some name \<Rightarrow>
          Option.bind (canonical_encoding_name name) (\<lambda>n.
            if n = ''Big5/CP950'' then Some BIG5
            else if n = ''EUC-KR/CP949'' then Some EUC_KR
            else if n = ''EUC-JP'' then Some EUC_JP
            else if n = ''GB18030'' then Some GB18030
            else if n = ''GBK/CP936'' then Some GBK
            else if n = ''ISO-2022-JP'' then Some ISO_2022_JP
            else if n = ''Windows-31J/CP932'' then Some SHIFT_JIS
            else None)
      | None \<Rightarrow>
          if d \<in> {0x4F, 0x78} then Some BIG5
          else if d \<in> {0x4E, 0x79} then Some EUC_KR
          else if d \<in> {0x4D, 0x7A} then Some GBK
          else if d \<in> {0x13, 0x7B} then Some SHIFT_JIS
          else None)"

definition is_shift_jis_lead :: "u8 \<Rightarrow> bool" where
  "is_shift_jis_lead b \<longleftrightarrow> 0x81 \<le> b \<and> b \<le> 0x9F \<or> 0xE0 \<le> b \<and> b \<le> 0xFC"

definition is_shift_jis_trail :: "u8 \<Rightarrow> bool" where
  "is_shift_jis_trail b \<longleftrightarrow> 0x40 \<le> b \<and> b \<le> 0x7E \<or> 0x80 \<le> b \<and> b \<le> 0xFC"

definition shift_jis_pair_from_euc :: "bytes \<Rightarrow> bytes option" where
  "shift_jis_pair_from_euc euc =
     (case euc of
        [a, b] \<Rightarrow>
          if 0xF9 \<le> a \<or> a < 0xA1 \<or> b < 0xA1 then None
          else
            let row = a - 0xA1; cell = b - 0xA1; lead = row div 2 + 0x81;
                lead = (if 0xA0 \<le> lead then lead + 0x40 else lead);
                trail = (if row mod 2 = 0 then let trail = cell + 0x40 in if 0x7F \<le> trail then trail + 1 else trail
                         else cell + 0x9F)
            in Some [lead, trail]
      | _ \<Rightarrow> None)"

definition encode_strict_shift_jis_character :: "text_env \<Rightarrow> nat \<Rightarrow> bytes option" where
  "encode_strict_shift_jis_character env c =
     (if c \<le> 0x7F then Some [byte c]
      else if 0xFF61 \<le> c \<and> c \<le> 0xFF9F then Some [byte (0xA1 + (c - 0xFF61))]
      else
        let (euc, euc_errors) = te_encode env EUC_JP (chars_text [c]) in
        if euc_errors \<or> length euc \<noteq> 2 \<or> \<not> list_all (\<lambda>b. 0xA1 \<le> b \<and> b \<le> 0xFE) euc then None
        else
          Option.bind (shift_jis_pair_from_euc euc) (\<lambda>expected.
          let (shift_jis, shift_jis_errors) = te_encode env SHIFT_JIS (chars_text [c]) in
          if shift_jis_errors \<or> shift_jis \<noteq> expected then None else Some shift_jis))"

definition encode_strict_shift_jis :: "text_env \<Rightarrow> string \<Rightarrow> bytes option" where
  "encode_strict_shift_jis env t =
     map_option concat (those (map (encode_strict_shift_jis_character env) (text_chars t)))"

definition strict_shift_jis_pair :: "text_env \<Rightarrow> bytes \<Rightarrow> nat" where
  "strict_shift_jis_pair env pair =
     (let (decoded, had_errors) = te_decode env SHIFT_JIS pair in
      case text_chars decoded of
        [c] \<Rightarrow> if \<not> had_errors \<and> encode_strict_shift_jis_character env c = Some pair then c else REPLACEMENT
      | _ \<Rightarrow> REPLACEMENT)"

fun decode_strict_shift_jis :: "text_env \<Rightarrow> bytes \<Rightarrow> nat list" where
  "decode_strict_shift_jis env [] = []"
| "decode_strict_shift_jis env (b # r) =
     (if b \<le> 0x7F then unat b # decode_strict_shift_jis env r
      else if 0xA1 \<le> b \<and> b \<le> 0xDF then (0xFF61 + unat (b - 0xA1)) # decode_strict_shift_jis env r
      else
        case r of
          t # r' \<Rightarrow>
            if is_shift_jis_lead b \<and> is_shift_jis_trail t
            then strict_shift_jis_pair env [b, t] # decode_strict_shift_jis env r'
            else REPLACEMENT # decode_strict_shift_jis env r
        | [] \<Rightarrow> REPLACEMENT # decode_strict_shift_jis env r)"

definition decode_cjk :: "text_env \<Rightarrow> bytes \<Rightarrow> u8 \<Rightarrow> string option \<Rightarrow> string option" where
  "decode_cjk env bs d ov =
     (if is_strict_shift_jis ov then Some (chars_text (decode_strict_shift_jis env bs))
      else map_option (\<lambda>e. fst (te_decode env e bs)) (cjk_encoding d ov))"

definition encode_cjk :: "text_env \<Rightarrow> string \<Rightarrow> u8 \<Rightarrow> string option \<Rightarrow> (bytes \<times> bool) option" where
  "encode_cjk env t d ov =
     (if is_strict_shift_jis ov then
        Some (case encode_strict_shift_jis env t of Some bs \<Rightarrow> (bs, False) | None \<Rightarrow> ([], True))
      else map_option (\<lambda>e. te_encode env e t) (cjk_encoding d ov))"

section \<open>Text and numbers of a field\<close>

definition strip_end :: "bytes \<Rightarrow> bytes" where
  "strip_end bs = rev (dropWhile (\<lambda>b. b = 0x20 \<or> b = 0) (rev bs))"

definition text_with_encoding :: "text_env \<Rightarrow> bytes \<Rightarrow> u8 \<Rightarrow> string option \<Rightarrow> string" where
  "text_with_encoding env bs d ov =
     (let bs = strip_end bs in
      case decode_cjk env bs d ov of
        Some t \<Rightarrow> t
      | None \<Rightarrow>
          (case codepage d of
             Some upper \<Rightarrow> decode_codepage bs upper
           | None \<Rightarrow>
               if d = 0x03 \<or> d = 0x57 then decode_windows_1252 bs
               else bytes_string (utf8_lossy bs)))"

definition parse_i64 :: "bytes \<Rightarrow> int option" where
  "parse_i64 bs =
     (case take_sign bs of (negative, r) \<Rightarrow>
        Option.bind (parse_digits r) (\<lambda>n.
          let i = (if negative then - int n else int n) in
          if i64_min \<le> i \<and> i \<le> i64_max then Some i else None))"

definition numeric :: "text_env \<Rightarrow> bytes \<Rightarrow> json" where
  "numeric env bs =
     (let v = trim (text_with_encoding env bs 0 None) in
      if v = [] then JNull
      else case parse_i64 (string_bytes v) of
        Some i \<Rightarrow> JNumber (number_from_i64 i)
      | None \<Rightarrow>
          (case Option.bind (parse_f64 (string_bytes v)) number_from_f64 of
             Some n \<Rightarrow> JNumber n
           | None \<Rightarrow> JString v))"

definition f64_value :: "bytes \<Rightarrow> json" where
  "f64_value bs =
     (case number_from_f64 (u64_from_le (take 8 bs)) of Some n \<Rightarrow> JNumber n | None \<Rightarrow> JNull)"

section \<open>Null flags\<close>

record null_flag_bits =
  nf_varlength :: "nat option"
  nf_nullable :: "nat option"

fun null_flag_layout_from :: "nat \<Rightarrow> field_descriptor list \<Rightarrow> null_flag_bits option list" where
  "null_flag_layout_from next_bit [] = []"
| "null_flag_layout_from next_bit (f # fs) =
     (if is_system f then None # null_flag_layout_from next_bit fs
      else
        let (varlength, next_bit) = (if is_variable f then (Some next_bit, Suc next_bit) else (None, next_bit));
            (nullable, next_bit) = (if is_nullable f then (Some next_bit, Suc next_bit) else (None, next_bit))
        in (if varlength \<noteq> None \<or> nullable \<noteq> None
            then Some \<lparr>nf_varlength = varlength, nf_nullable = nullable\<rparr> else None) #
           null_flag_layout_from next_bit fs)"

definition null_flag_layout :: "field_descriptor list \<Rightarrow> null_flag_bits option list" where
  "null_flag_layout fs = null_flag_layout_from 0 fs"

definition system_field :: "field_descriptor list \<Rightarrow> field_descriptor option" where
  "system_field fs = find is_system fs"

definition flag_is_set :: "bytes \<Rightarrow> nat \<Rightarrow> bool" where
  "flag_is_set flags n \<longleftrightarrow> n div 8 < length flags \<and> bit (flags ! (n div 8)) (n mod 8)"

definition set_flag :: "bytes \<Rightarrow> nat \<Rightarrow> bool \<Rightarrow> (dbf_error, bytes) result" where
  "set_flag flags n v =
     (if n div 8 < length flags
      then Inr (flags[n div 8 := (if v then set_bit (n mod 8) (flags ! (n div 8)) else unset_bit (n mod 8) (flags ! (n div 8)))])
      else Inl (Dbf_invalid ''_NullFlags field is too short for its descriptors''))"

definition is_null_member :: "json_map \<Rightarrow> string \<Rightarrow> bool" where
  "is_null_member vals name \<longleftrightarrow> (case obj_get vals name of None \<Rightarrow> True | Some v \<Rightarrow> v = JNull)"

definition set_field_flags ::
  "json_map \<Rightarrow> field_descriptor \<Rightarrow> null_flag_bits option \<Rightarrow> bytes \<Rightarrow> (dbf_error, bytes) result" where
  "set_field_flags vals f bits flags =
     (case bits of
        None \<Rightarrow> Inr flags
      | Some b \<Rightarrow>
          bindr (case nf_varlength b of Some n \<Rightarrow> set_flag flags n True | None \<Rightarrow> Inr flags) (\<lambda>flags.
          case nf_nullable b of
            Some n \<Rightarrow> set_flag flags n (is_null_member vals (fd_name f))
          | None \<Rightarrow> Inr flags))"

fun set_flags :: "json_map \<Rightarrow> (field_descriptor \<times> null_flag_bits option) list \<Rightarrow> bytes \<Rightarrow> (dbf_error, bytes) result" where
  "set_flags vals [] flags = Inr flags"
| "set_flags vals ((f, bits) # r) flags =
     bindr (if is_system f then Inr flags else set_field_flags vals f bits flags) (\<lambda>flags. set_flags vals r flags)"

definition encode_null_flags :: "field_descriptor list \<Rightarrow> json_map \<Rightarrow> (dbf_error, bytes option) result" where
  "encode_null_flags fs vals =
     (case system_field fs of
        None \<Rightarrow>
          if list_ex (\<lambda>b. b \<noteq> None) (null_flag_layout fs)
          then Inl (Dbf_invalid ''VFP variable/null fields require a _NullFlags system field'')
          else Inr None
      | Some s \<Rightarrow>
          bindr (set_flags vals (zip fs (null_flag_layout fs)) (replicate (unat (fd_length s)) 0)) (\<lambda>flags.
          Inr (Some flags)))"

definition update_null_flags ::
  "bytes \<Rightarrow> nat \<Rightarrow> field_descriptor list \<Rightarrow> json_map \<Rightarrow> string set \<Rightarrow> (dbf_error, bytes) result" where
  "update_null_flags bs record_offset fs vals changed =
     (let pairs = zip fs (null_flag_layout fs) in
      if \<not> list_ex (\<lambda>(f, bits). \<not> is_system f \<and> fd_name f \<in> changed \<and> bits \<noteq> None) pairs then Inr bs
      else
        bindr (ok_or (Dbf_invalid ''VFP variable/null fields require a _NullFlags system field'') (system_field fs)) (\<lambda>s.
        bindr (ok_or (Dbf_invalid ''_NullFlags offset overflows usize'') (checked_add record_offset (fd_offset s))) (\<lambda>start.
        bindr (ok_or (Dbf_invalid ''_NullFlags range overflows usize'') (checked_add start (unat (fd_length s)))) (\<lambda>stop.
        bindr (ok_or (Dbf_invalid ''stored _NullFlags field is truncated'') (get_range bs start stop)) (\<lambda>flags.
        bindr (set_flags vals (filter (\<lambda>(f, _). fd_name f \<in> changed) pairs) flags) (\<lambda>flags.
        Inr (copy_slice bs start flags)))))))"

section \<open>Decoding\<close>

definition decode_record_field_with_encoding ::
  "text_env \<Rightarrow> field_descriptor \<Rightarrow> bytes \<Rightarrow> u8 \<Rightarrow> bytes option \<Rightarrow> null_flag_bits option \<Rightarrow> string option \<Rightarrow> json" where
  "decode_record_field_with_encoding env f bs d null_flags bits ov =
     (let set = (\<lambda>n. case null_flags of Some flags \<Rightarrow> flag_is_set flags n | None \<Rightarrow> False) in
      if (case Option.bind bits nf_nullable of Some n \<Rightarrow> set n | None \<Rightarrow> False) then JNull
      else
        let data = (case Option.bind bits nf_varlength of
              Some n \<Rightarrow>
                if set n then
                  (if bs \<noteq> [] \<and> unat (last bs) \<le> length bs - 1 then take (unat (last bs)) bs else bs)
                else bs
            | None \<Rightarrow> bs)
        in if is_binary f then JString (hex data) else JString (text_with_encoding env data d ov))"

definition decode_field_with_encoding ::
  "text_env \<Rightarrow> u8 \<Rightarrow> bytes \<Rightarrow> u8 \<Rightarrow> memo_format option \<Rightarrow> string option \<Rightarrow> json" where
  "decode_field_with_encoding env field_type bs d format ov =
     (let t = ascii_upper field_type in
      if t = 0x43 then JString (text_with_encoding env bs d ov)
      else if t = 0x44 \<and> list_all (\<lambda>b. b = 0x20 \<or> b = 0) bs then JNull
      else if t = 0x54 \<and> format = Some FoxPro \<and> 8 \<le> length bs then
        (if u32_from_le (take 4 bs) = 0 then JNull
         else case foxpro_datetime_text bs of Some v \<Rightarrow> JString v | None \<Rightarrow> JString (hex bs))
      else if t = 0x59 \<and> 8 \<le> length bs then JString (currency_text bs)
      else if t = 0x42 \<and> format \<notin> {None, Some FoxPro} \<and> length bs \<noteq> 4 then numeric env bs
      else if t = 0x42 \<and> 8 \<le> length bs then f64_value bs
      else if t \<in> {0x42, 0x47, 0x4D, 0x50, 0x57} \<and> length bs = 4 then JNumber (PosInt (ucast (u32_from_le bs)))
      else if t \<in> {0x44, 0x42, 0x47, 0x4D, 0x50, 0x57} then JString (text_with_encoding env bs 0 None)
      else if t = 0x46 \<or> t = 0x4E then numeric env bs
      else if t = 0x4C then
        (case bs of
           [] \<Rightarrow> JNull
         | b # _ \<Rightarrow>
             if ascii_upper b \<in> {0x54, 0x59} then JBool True
             else if ascii_upper b \<in> {0x46, 0x4E} then JBool False
             else JNull)
      else if (t = 0x49 \<or> t = 0x2B) \<and> 4 \<le> length bs then
        JNumber (number_from_i64 (sint (u32_from_le (take 4 bs))))
      else if t = 0x4F \<and> 8 \<le> length bs then f64_value bs
      else if t = 0x40 \<or> t = 0x54 then JString (hex bs)
      else JString (text_with_encoding env bs d ov))"

section \<open>Values to store\<close>

definition field_error :: "string \<Rightarrow> field_descriptor \<Rightarrow> string \<Rightarrow> dbf_error" where
  "field_error before f message = Dbf_invalid (before @ fd_name f @ message)"

definition numeric_field_text :: "text_env \<Rightarrow> json \<Rightarrow> field_descriptor \<Rightarrow> (dbf_error, string) result" where
  "numeric_field_text env v f =
     bindr (value_text (te_show_f64 env) v f) (\<lambda>t.
     if t = [] then Inr t
     else
       let t = trim t; e = field_error ''numeric field '' f '' requires a finite number or null'' in
       bindr (ok_or e (parse_f64 (string_bytes t))) (\<lambda>n.
       bindr (ensure (f64_is_finite n) e) (\<lambda>_. Inr t)))"

definition value_i64 :: "json \<Rightarrow> field_descriptor \<Rightarrow> (dbf_error, int) result" where
  "value_i64 v f =
     (let e = field_error ''field '' f '' requires an integer'' in
      case v of
        JNull \<Rightarrow> Inr 0
      | JNumber n \<Rightarrow> ok_or e (number_as_i64 n)
      | JString t \<Rightarrow> ok_or e (parse_i64 (trim_bytes (string_bytes t)))
      | _ \<Rightarrow> Inl e)"

definition value_u32 :: "json \<Rightarrow> field_descriptor \<Rightarrow> (dbf_error, u32) result" where
  "value_u32 v f =
     (let e = field_error ''field '' f '' requires a uint32'' in
      case v of
        JNull \<Rightarrow> Inr 0
      | JNumber n \<Rightarrow> ok_or e (Option.bind (number_as_u64 n) (\<lambda>w. u32_try_from (unat w)))
      | JString t \<Rightarrow> ok_or e (parse_u32 (trim_bytes (string_bytes t)))
      | _ \<Rightarrow> Inl e)"

definition value_f64 :: "json \<Rightarrow> field_descriptor \<Rightarrow> (dbf_error, u64) result" where
  "value_f64 v f =
     (let e = field_error ''field '' f '' requires a finite number'' in
      bindr
        (case v of
           JNull \<Rightarrow> Inr 0
         | JNumber n \<Rightarrow> Inr (number_as_f64 n)
         | JString t \<Rightarrow> ok_or e (parse_f64 (trim_bytes (string_bytes t)))
         | _ \<Rightarrow> Inl (field_error ''field '' f '' requires a number'')) (\<lambda>n.
      bindr (ensure (f64_is_finite n) e) (\<lambda>_. Inr n)))"

section \<open>Encoding\<close>

definition encode_character_with_encoding ::
  "text_env \<Rightarrow> json \<Rightarrow> field_descriptor \<Rightarrow> u8 \<Rightarrow> string option \<Rightarrow> (dbf_error, bytes) result" where
  "encode_character_with_encoding env v f d ov =
     bindr (value_text (te_show_f64 env) v f) (\<lambda>t.
     let clean = (\<lambda>r. Option.bind r (\<lambda>(bs, had_errors). if had_errors then None else Some bs));
         encoded =
           (if ov \<noteq> None then clean (encode_cjk env t d ov)
            else case codepage d of
              Some upper \<Rightarrow> encode_codepage t upper
            | None \<Rightarrow>
                if d = 0x03 \<or> d = 0x57 then encode_windows_1252 t
                else if d \<in> {0x13, 0x4D, 0x4E, 0x4F, 0x78, 0x79, 0x7A, 0x7B} then clean (encode_cjk env t d None)
                else Some (string_bytes t));
         code_page = (case Option.bind ov canonical_encoding_name of
              Some n \<Rightarrow> n
            | None \<Rightarrow> (case encoding_name d of Some n \<Rightarrow> n | None \<Rightarrow> ''the declared code page''))
     in ok_or (field_error ''value for '' f ('' contains a character outside '' @ code_page)) encoded)"

definition pad_right :: "nat \<Rightarrow> u8 \<Rightarrow> bytes \<Rightarrow> bytes" where
  "pad_right n b bs = bs @ replicate (n - length bs) b"

definition encode_variable_field ::
  "text_env \<Rightarrow> json \<Rightarrow> field_descriptor \<Rightarrow> u8 \<Rightarrow> string option \<Rightarrow> (dbf_error, bytes) result" where
  "encode_variable_field env v f d ov =
     (let len = unat (fd_length f) in
      bindr (ensure (len \<noteq> 0) (field_error ''variable field '' f '' must not be empty'')) (\<lambda>_.
      if v = JNull then Inr (replicate len 0)
      else
        bindr (if is_binary f then binary_value v f else encode_character_with_encoding env v f d ov) (\<lambda>data.
        bindr (ensure (length data \<le> len - 1)
          (field_error ''value for '' f ('' exceeds variable field width '' @ show_nat len))) (\<lambda>_.
        Inr (pad_right (len - 1) (if is_binary f then 0 else 0x20) data @ [byte (length data)])))))"

definition hex_code :: "u8 \<Rightarrow> string" where
  "hex_code b = ''0x'' @ hex [b]"

definition encode_field_with_encoding ::
  "text_env \<Rightarrow> field_descriptor \<Rightarrow> json \<Rightarrow> u8 \<Rightarrow> string option \<Rightarrow> (dbf_error, bytes) result" where
  "encode_field_with_encoding env f v d ov =
     (let len = unat (fd_length f); t = ascii_upper (fd_type f);
          too_wide = field_error ''value for '' f ('' exceeds field width '' @ show_nat len)
      in
      if t = 0x51 \<or> t = 0x56 then encode_variable_field env v f d ov
      else if t = 0x43 then
        bindr (if is_binary f then binary_value v f else encode_character_with_encoding env v f d ov) (\<lambda>bs.
        bindr (ensure (length bs \<le> len) too_wide) (\<lambda>_. Inr (pad_right len (if is_binary f then 0 else 0x20) bs)))
      else if t = 0x42 \<and> len = 8 then bindr (value_f64 v f) (\<lambda>n. Inr (u64_to_le n))
      else if t = 0x59 then
        bindr (ensure (len = 8) (field_error ''currency field '' f '' must be eight bytes'')) (\<lambda>_.
        bindr (currency_i64 (te_show_f64 env) v f) (\<lambda>i. Inr (u64_to_le (word_of_int i))))
      else if t \<in> {0x42, 0x47, 0x4D, 0x50, 0x57} \<and> len = 4 then bindr (value_u32 v f) (\<lambda>n. Inr (u32_to_le n))
      else if t = 0x44 then
        bindr (ensure (len = 8) (field_error ''date field '' f '' must be eight bytes'')) (\<lambda>_.
        bindr (value_text (te_show_f64 env) v f) (\<lambda>s.
        if s = [] then Inr (replicate len 0x20)
        else
          bindr (ensure (length s = len \<and> list_all is_ascii_digit (string_bytes s))
            (field_error ''date field '' f '' requires YYYYMMDD or null'')) (\<lambda>_. Inr (string_bytes s))))
      else if t \<in> {0x42, 0x47, 0x4D} then
        bindr (value_text (te_show_f64 env) v f) (\<lambda>s.
        bindr (ensure (length s \<le> len) too_wide) (\<lambda>_. Inr (pad_right len 0x20 (string_bytes s))))
      else if t = 0x40 \<or> t = 0x54 then
        (if v = JNull then Inr (replicate len (if t = 0x54 then 0 else 0x20))
         else
           bindr
             (if t = 0x54 \<and> len = 8
              then (case json_as_str v of Some s \<Rightarrow> foxpro_datetime_bytes s | None \<Rightarrow> Inr None)
              else Inr None) (\<lambda>stamp.
           case stamp of
             Some bs \<Rightarrow> Inr bs
           | None \<Rightarrow>
               bindr (binary_value v f) (\<lambda>bs.
               bindr (ensure (length bs = len)
                 (field_error ''timestamp field '' f ('' requires exactly '' @ show_nat len @ '' bytes''))) (\<lambda>_. Inr bs))))
      else if t = 0x4E \<or> t = 0x46 then
        bindr (numeric_field_text env v f) (\<lambda>s.
        bindr (ensure (length s \<le> len) too_wide) (\<lambda>_. Inr (replicate (len - length s) 0x20 @ string_bytes s)))
      else if t = 0x4C then
        bindr
          (case v of
             JNull \<Rightarrow> Inr 0x20
           | JBool b \<Rightarrow> Inr (if b then 0x54 else 0x46)
           | JString [c] \<Rightarrow> Inr (ascii_upper (hd (string_bytes [c])))
           | _ \<Rightarrow> Inl (field_error ''logical field '' f '' requires boolean, one-byte text, or null'')) (\<lambda>marker.
        bindr (ensure (marker \<in> {0x20, 0x54, 0x46, 0x59, 0x4E}) (field_error ''invalid logical marker for '' f [])) (\<lambda>_.
        Inr (replicate len marker)))
      else if t = 0x49 \<or> t = 0x2B then
        bindr (ensure (len = 4) (field_error ''integer field '' f '' must be four bytes'')) (\<lambda>_.
        bindr (value_i64 v f) (\<lambda>i.
        bindr (ensure (- (2 ^ 31) \<le> i \<and> i < 2 ^ 31) (field_error ''integer value for '' f '' is out of range'')) (\<lambda>_.
        Inr (u32_to_le (word_of_int i)))))
      else if t = 0x4F then
        bindr (ensure (len = 8) (field_error ''double field '' f '' must be eight bytes'')) (\<lambda>_.
        bindr (value_f64 v f) (\<lambda>n. Inr (u64_to_le n)))
      else Inl (Dbf_invalid (''writing field type '' @ hex_code t @ '' is unsupported'')))"

section \<open>Stored fields have their width\<close>

lemma datetime_bytes_length: "foxpro_datetime_bytes s = Inr (Some bs) \<Longrightarrow> length bs = 8"
  by (auto simp: foxpro_datetime_bytes_def Let_def bindr_Inr_iff split: if_splits)

lemma length_pad_right [simp]: "length bs \<le> n \<Longrightarrow> length (pad_right n b bs) = n"
  by (simp add: pad_right_def)

lemma encode_variable_length: "encode_variable_field env v f d ov = Inr bs \<Longrightarrow> length bs = unat (fd_length f)"
  by (auto simp: encode_variable_field_def Let_def bindr_Inr_iff ensure_Inr_iff split: if_splits)

lemma encode_field_length:
  assumes "encode_field_with_encoding env f v d ov = Inr bs"
  shows "length bs = unat (fd_length f)"
proof -
  note simps = encode_field_with_encoding_def Let_def bindr_Inr_iff ensure_Inr_iff
  let ?t = "ascii_upper (fd_type f)"
  consider "?t \<in> {0x51, 0x56}" | "?t = 0x43" | "?t = 0x42" | "?t = 0x59" | "?t \<in> {0x47, 0x4D}" | "?t \<in> {0x50, 0x57}"
    | "?t = 0x44" | "?t \<in> {0x40, 0x54}" | "?t \<in> {0x4E, 0x46}" | "?t = 0x4C" | "?t \<in> {0x49, 0x2B}" | "?t = 0x4F"
    | "?t \<notin> {0x51, 0x56, 0x43, 0x42, 0x59, 0x47, 0x4D, 0x50, 0x57, 0x44, 0x40, 0x54, 0x4E, 0x46, 0x4C, 0x49, 0x2B, 0x4F}"
    by blast
  then show ?thesis
  proof cases
    case 1 with assms show ?thesis by (auto simp: simps dest: encode_variable_length)
  next
    case 2 with assms show ?thesis by (auto simp: simps)
  next
    case 3 with assms show ?thesis by (auto simp: simps split: if_splits)
  next
    case 4 with assms show ?thesis by (auto simp: simps)
  next
    case 5 with assms show ?thesis by (auto simp: simps split: if_splits)
  next
    case 6 with assms show ?thesis by (auto simp: simps split: if_splits)
  next
    case 7 with assms show ?thesis by (auto simp: simps split: if_splits)
  next
    case 8 with assms show ?thesis
      by (auto simp: simps split: if_splits option.splits dest: datetime_bytes_length)
  next
    case 9 with assms show ?thesis by (auto simp: simps)
  next
    case 10 with assms show ?thesis by (auto simp: simps)
  next
    case 11 with assms show ?thesis by (auto simp: simps)
  next
    case 12 with assms show ?thesis by (auto simp: simps)
  next
    case 13 with assms show ?thesis by (simp add: simps)
  qed
qed

section \<open>Text and numbers read back\<close>

lemma strip_end_padded:
  "(bs = [] \<or> (last bs \<noteq> 0x20 \<and> last bs \<noteq> 0)) \<Longrightarrow> list_all (\<lambda>b. b = 0x20 \<or> b = 0) pad \<Longrightarrow> strip_end (bs @ pad) = bs"
proof (induction pad rule: rev_induct)
  case Nil
  then show ?case by (cases bs rule: rev_cases) (auto simp: strip_end_def)
next
  case (snoc b pad)
  then show ?case by (simp add: strip_end_def)
qed

lemma strip_all_spaces: "strip_all whitespace_encodings (replicate k 0x20 @ bs) = strip_all whitespace_encodings bs"
proof (induction k)
  case (Suc k)
  have "[] \<notin> set whitespace_encodings" by (simp add: whitespace_encodings_def)
  moreover have "strip_first whitespace_encodings (0x20 # cs) = Some cs" for cs
    by (simp add: whitespace_encodings_def strip_prefix_def)
  ultimately show ?case using Suc by (subst strip_all.simps) simp
qed simp

lemma trim_spaces: "list_all is_ascii_graphic bs \<Longrightarrow> trim_bytes (replicate k 0x20 @ bs) = bs"
  using trim_bytes_graphic [of bs] by (simp add: trim_bytes_def strip_all_spaces)

lemma plain_text:
  assumes "bs = [] \<or> (last bs \<noteq> 0x20 \<and> last bs \<noteq> 0)" "list_all (\<lambda>b. b = 0x20 \<or> b = 0) pad" "valid_utf8 bs"
  shows "text_with_encoding env (bs @ pad) 0 None = bytes_string bs"
  using assms by (simp add: text_with_encoding_def strip_end_padded decode_cjk_def is_strict_shift_jis_def cjk_encoding_def
      codepage_def utf8_lossy_valid)

definition int_bytes :: "int \<Rightarrow> bytes" where
  "int_bytes i = (if i < 0 then [0x2D] else []) @ decimal_bytes (nat \<bar>i\<bar>)"

lemma int_bytes_graphic: "list_all is_ascii_graphic (int_bytes i)"
  using decimal_bytes_digits [of "nat \<bar>i\<bar>"] digit_graphic
  by (auto simp: int_bytes_def list_all_iff is_ascii_graphic_def [of "0x2D"])

lemma int_bytes_last: "int_bytes i \<noteq> []" "is_ascii_digit (last (int_bytes i))"
  using decimal_bytes_digits [of "nat \<bar>i\<bar>"] last_in_set [OF decimal_bytes_not_Nil] by (auto simp: int_bytes_def list_all_iff)

lemma int_bytes_end: "last (int_bytes i) \<noteq> 0x20" "last (int_bytes i) \<noteq> 0"
proof -
  have "0x30 \<le> last (int_bytes i)" using int_bytes_last(2) by (simp add: is_ascii_digit_def)
  then show "last (int_bytes i) \<noteq> 0x20" "last (int_bytes i) \<noteq> 0" by auto
qed

lemma parse_int_bytes: "i64_min \<le> i \<Longrightarrow> i \<le> i64_max \<Longrightarrow> parse_i64 (int_bytes i) = Some i"
proof -
  assume "i64_min \<le> i" "i \<le> i64_max"
  obtain b r where d: "decimal_bytes (nat \<bar>i\<bar>) = b # r" "is_ascii_digit b"
    using decimal_bytes_not_Nil [of "nat \<bar>i\<bar>"] decimal_bytes_digits [of "nat \<bar>i\<bar>"]
    by (cases "decimal_bytes (nat \<bar>i\<bar>)") auto
  then have "b \<noteq> 0x2D" "b \<noteq> 0x2B" by (auto simp: is_ascii_digit_def)
  then have "take_sign (int_bytes i) = (i < 0, decimal_bytes (nat \<bar>i\<bar>))"
    using d by (simp add: int_bytes_def take_sign_def)
  then show ?thesis using \<open>i64_min \<le> i\<close> \<open>i \<le> i64_max\<close> by (simp add: parse_i64_def)
qed

lemma ascii_graphic_valid: "list_all is_ascii_graphic bs \<Longrightarrow> valid_utf8 (replicate k 0x20 @ bs)"
  by (rule valid_utf8_ascii) (auto simp: list_all_iff is_ascii_graphic_def)

lemma numeric_int:
  assumes "i64_min \<le> i" "i \<le> i64_max"
  shows "numeric env (replicate k 0x20 @ int_bytes i) = JNumber (number_from_i64 i)"
proof -
  have "text_with_encoding env (replicate k 0x20 @ int_bytes i) 0 None = bytes_string (replicate k 0x20 @ int_bytes i)"
    using plain_text [of "replicate k 0x20 @ int_bytes i" "[]" env] int_bytes_last(1) [of i] int_bytes_end [of i]
      ascii_graphic_valid [OF int_bytes_graphic] by simp
  then show ?thesis
    using assms int_bytes_last(1) [of i]
    by (simp add: numeric_def trim_def trim_spaces int_bytes_graphic parse_int_bytes Let_def)
      (metis bytes_string_inverse string_bytes_simps(2))
qed

lemma numeric_blank: "numeric env (replicate k 0x20) = JNull"
  using plain_text [of "[]" "replicate k 0x20" env]
  by (simp add: numeric_def trim_def trim_bytes_def strip_all_Nil Let_def bytes_string_def list_all_iff)

section \<open>Integers as doubles\<close>

lemma bit_length_le: "n < 2 ^ k \<Longrightarrow> bit_length n \<le> k"
proof (induction k arbitrary: n)
  case (Suc k)
  then have "n div 2 < 2 ^ k" by simp
  with Suc.IH show ?case by (subst bit_length.simps) simp
qed (simp add: bit_length.simps)

lemma less_bit_length: "n < 2 ^ bit_length n"
proof (induction n rule: bit_length.induct)
  case (1 n)
  then show ?case by (subst bit_length.simps) (cases "n = 0"; simp; linarith)
qed

lemma round_half_even_le: "round_half_even n d \<le> Suc (n div d)"
  by (simp add: round_half_even_def Let_def)

lemma f64_round_bound:
  assumes "n < 2 ^ k" "53 \<le> k"
  shows "f64_round n 1 \<le> (k - 51) * 2 ^ 52"
proof -
  let ?s = "bit_length n - 53"
  have s: "?s \<le> k - 53" using bit_length_le [OF assms(1)] by simp
  have "n < 2 ^ (?s + 53)"
    using less_bit_length [of n] power_increasing [of "bit_length n" "?s + 53" "2 :: nat"] by linarith
  then have "n div 2 ^ ?s < 2 ^ 53" by (simp add: power_add less_mult_imp_div_less mult.commute)
  then have "round_half_even n (2 ^ ?s) \<le> 2 * 2 ^ 52" using round_half_even_le [of n "2 ^ ?s"] by simp
  moreover have "?s * 2 ^ 52 \<le> (k - 53) * 2 ^ 52" using s by simp
  ultimately have "?s * 2 ^ 52 + round_half_even n (2 ^ ?s) \<le> (k - 53) * 2 ^ 52 + 2 * 2 ^ 52" by linarith
  also have "\<dots> = (k - 51) * 2 ^ 52" using assms(2) by (simp flip: distrib_right)
  finally show ?thesis by (simp add: f64_round_def Let_def)
qed

lemma f64_of_magnitude_finite: "m < f64_infinity \<Longrightarrow> f64_is_finite (f64_of_magnitude negative m)"
proof -
  assume "m < f64_infinity"
  then have m: "m < 2047 * 2 ^ 52" by (simp add: f64_infinity_def)
  then have "unat (word_of_nat (m + 2 ^ 63) :: u64) = m + 2 ^ 63" "unat (word_of_nat m :: u64) = m"
    by (simp_all only: unat_of_nat) simp_all
  then have "unat (f64_of_magnitude negative m) mod 2 ^ 63 = m"
    using m by (cases negative) (simp_all add: f64_of_magnitude_def del: of_nat_add)
  with m show ?thesis
    by (simp add: f64_is_finite_def f64_exponent_def f64_magnitude_def f64_infinity_def div_less_iff_less_mult)
qed

lemma f64_int_finite:
  assumes "n < 2 ^ 64"
  shows "f64_is_finite (f64_of_magnitude negative (f64_of_decimal n 0))"
proof -
  have "n * 2 ^ 1074 < 2 ^ (64 + 1074)" using assms unfolding power_add by simp
  from f64_round_bound [OF this] have "f64_round (n * 2 ^ 1074) 1 < f64_infinity" unfolding f64_infinity_def by simp
  then show ?thesis unfolding f64_of_decimal_def by (simp add: f64_of_magnitude_finite)
qed

lemma digits_not_name:
  assumes "is_ascii_digit b"
  shows "map ascii_upper (b # r) \<noteq> 0x49 # s" "map ascii_upper (b # r) \<noteq> 0x4E # s"
proof -
  have "ascii_upper b = b" using assms by (simp add: ascii_upper_def is_ascii_digit_def word_le_nat_alt)
  with assms show "map ascii_upper (b # r) \<noteq> 0x49 # s" "map ascii_upper (b # r) \<noteq> 0x4E # s"
    by (auto simp: is_ascii_digit_def)
qed

lemma parse_f64_int:
  assumes "i64_min \<le> i" "i \<le> i64_max"
  shows "\<exists>w. parse_f64 (int_bytes i) = Some w \<and> f64_is_finite w"
proof -
  obtain b r where d: "decimal_bytes (nat \<bar>i\<bar>) = b # r" "is_ascii_digit b"
    using decimal_bytes_not_Nil [of "nat \<bar>i\<bar>"] decimal_bytes_digits [of "nat \<bar>i\<bar>"]
    by (cases "decimal_bytes (nat \<bar>i\<bar>)") auto
  then have "b \<noteq> 0x2D" "b \<noteq> 0x2B" by (auto simp: is_ascii_digit_def)
  then have sign: "take_sign (int_bytes i) = (i < 0, b # r)"
    using d by (simp add: int_bytes_def take_sign_def)
  have digits: "list_all is_ascii_digit (b # r)" using decimal_bytes_digits [of "nat \<bar>i\<bar>"] d by simp
  then have "takeWhile is_ascii_digit (b # r) = b # r" "dropWhile is_ascii_digit (b # r) = []"
    by (simp_all add: list_all_iff)
  moreover have "digits_value (b # r) = nat \<bar>i\<bar>" using digits_value_padded [of 0 "nat \<bar>i\<bar>"] d by simp
  ultimately have "parse_decimal (b # r) = Some (nat \<bar>i\<bar>, 0)"
    by (simp add: parse_decimal_def parse_exponent_def Let_def)
  then have "parse_f64 (int_bytes i) = Some (f64_of_magnitude (i < 0) (f64_of_decimal (nat \<bar>i\<bar>) 0))"
    using digits_not_name [OF d(2)] sign by (simp add: parse_f64_def Let_def del: list.map)
  moreover have "nat \<bar>i\<bar> < 2 ^ 64" using assms by (simp add: i64_min_def i64_max_def)
  ultimately show ?thesis using f64_int_finite by blast
qed

lemma show_number_int:
  assumes "i \<le> i64_max"
  shows "string_bytes (show_number show_f64 (number_from_i64 i)) = int_bytes i"
proof (cases "i < 0")
  case True
  then show ?thesis by (simp add: show_number_def number_from_i64_def int_bytes_def)
next
  case False
  then have "unat (word_of_int i :: u64) = nat i"
    using assms by (simp add: i64_max_def unat_eq_nat_uint take_bit_int_eq_self uint_word_of_int_eq)
  with False show ?thesis by (simp add: show_number_def number_from_i64_def int_bytes_def)
qed

section \<open>Windows-1252\<close>

lemma windows_1252_inverse:
  assumes "valid_utf8 (string_bytes t)" "encode_windows_1252 t = Some bs"
  shows "decode_windows_1252 bs = t"
proof -
  have sp: "list_all (\<lambda>(c, b). 0x7F < b \<and> b \<le> 0x9F \<and> EXTENDED ! (unat b - 0x80) = c) windows_1252_specials"
    by (simp add: windows_1252_specials_def EXTENDED_def)
  have "map (\<lambda>b. if b \<le> 0x7F then unat b else if b \<le> 0x9F then EXTENDED ! (unat b - 0x80) else unat b) bs = text_chars t"
  proof (rule those_map_inv [OF assms(2) [unfolded encode_windows_1252_def]])
    fix c b
    assume e: "(if c \<le> 0x7F \<or> 0xA0 \<le> c \<and> c \<le> 0xFF then Some (byte c) else map_of windows_1252_specials c) = Some b"
    show "(if b \<le> 0x7F then unat b else if b \<le> 0x9F then EXTENDED ! (unat b - 0x80) else unat b) = c"
    proof (cases "c \<le> 0x7F \<or> 0xA0 \<le> c \<and> c \<le> 0xFF")
      case True
      then have "b = byte c" "unat b = c" using e by auto
      then show ?thesis using True by (auto simp: word_le_nat_alt)
    next
      case False
      then have "map_of windows_1252_specials c = Some b" using e by argo
      then have "(c, b) \<in> set windows_1252_specials" by (rule map_of_SomeD)
      then have "0x7F < b \<and> b \<le> 0x9F \<and> EXTENDED ! (unat b - 0x80) = c" using sp by (auto simp: list_all_iff)
      then show ?thesis by auto
    qed
  qed
  then show ?thesis
    using utf8_text_chars [OF assms(1)] by (simp add: decode_windows_1252_def chars_text_def text_chars_def)
qed

lemma codepage_in: "codepage d = Some upper \<Longrightarrow> upper \<in> set code_pages"
  by (auto simp: codepage_def code_pages_def split: if_splits)

section \<open>Fields are stored without loss\<close>

definition stored_text :: "u8 \<Rightarrow> string \<Rightarrow> bytes option" where
  "stored_text d t =
     (case codepage d of
        Some upper \<Rightarrow> encode_codepage t upper
      | None \<Rightarrow>
          if d = 0x03 \<or> d = 0x57 then encode_windows_1252 t
          else if d \<in> {0x13, 0x4D, 0x4E, 0x4F, 0x78, 0x79, 0x7A, 0x7B} then None
          else Some (string_bytes t))"

definition integer_value :: "json \<Rightarrow> int option" where
  "integer_value v =
     (case v of
        JNumber n \<Rightarrow>
          (case number_as_i64 n of
             Some i \<Rightarrow> if n = number_from_i64 i \<and> i64_min \<le> i \<and> i \<le> i64_max then Some i else None
           | None \<Rightarrow> None)
      | _ \<Rightarrow> None)"

definition exact_value :: "field_descriptor \<Rightarrow> u8 \<Rightarrow> json \<Rightarrow> bool" where
  "exact_value f d v \<longleftrightarrow>
     (let len = unat (fd_length f); t = ascii_upper (fd_type f) in
      if t = 0x43 then
        \<not> is_binary f \<and>
        (case v of
           JString s \<Rightarrow> valid_utf8 (string_bytes s) \<and>
             (case stored_text d s of
                Some bs \<Rightarrow> length bs \<le> len \<and> (bs = [] \<or> last bs \<noteq> 0x20 \<and> last bs \<noteq> 0)
              | None \<Rightarrow> False)
         | _ \<Rightarrow> False)
      else if t = 0x44 then
        len = 8 \<and>
        (case v of
           JNull \<Rightarrow> True
         | JString s \<Rightarrow> length s = 8 \<and> list_all is_ascii_digit (string_bytes s)
         | _ \<Rightarrow> False)
      else if t = 0x4E \<or> t = 0x46 then
        v = JNull \<or> (case integer_value v of Some i \<Rightarrow> length (int_bytes i) \<le> len | None \<Rightarrow> False)
      else if t = 0x4C then len \<noteq> 0 \<and> (v = JNull \<or> v = JBool True \<or> v = JBool False)
      else if t = 0x49 \<or> t = 0x2B then
        len = 4 \<and> (case integer_value v of Some i \<Rightarrow> - (2 ^ 31) \<le> i \<and> i < 2 ^ 31 | None \<Rightarrow> False)
      else if t = 0x4F then
        len = 8 \<and> (case v of JNumber (Float w) \<Rightarrow> f64_is_finite w | _ \<Rightarrow> False)
      else False)"

lemma integer_value_Some:
  assumes "integer_value v = Some i"
  shows "v = JNumber (number_from_i64 i)" "i64_min \<le> i" "i \<le> i64_max"
  using assms by (auto simp: integer_value_def split: json.splits option.splits if_splits)

lemma number_as_from_i64: "i \<le> i64_max \<Longrightarrow> number_as_i64 (number_from_i64 i) = Some i"
  by (auto simp: number_from_i64_def i64_max_def unat_eq_nat_uint uint_word_of_int_eq take_bit_int_eq_self)

lemma text_stored:
  assumes "valid_utf8 (string_bytes s)" "stored_text d s = Some bs"
    "bs = [] \<or> last bs \<noteq> 0x20 \<and> last bs \<noteq> 0"
  shows "text_with_encoding env (bs @ replicate k 0x20) d None = s"
proof -
  have strip: "strip_end (bs @ replicate k 0x20) = bs"
    using strip_end_padded [of bs "replicate k 0x20"] assms(3) by (simp add: list_all_iff)
  have "cjk_encoding d None = None"
    using assms(2) by (auto simp: stored_text_def cjk_encoding_def codepage_def split: if_splits)
  then have none: "decode_cjk env bs d None = None" by (simp add: decode_cjk_def is_strict_shift_jis_def)
  show ?thesis
  proof (cases "codepage d")
    case None
    show ?thesis
    proof (cases "d = 0x03 \<or> d = 0x57")
      case True
      with None assms strip none windows_1252_inverse [OF assms(1)] show ?thesis
        by (auto simp: text_with_encoding_def stored_text_def)
    next
      case False
      then have "bs = string_bytes s" using None assms(2) by (simp add: stored_text_def split: if_splits)
      with False None strip none show ?thesis
        using utf8_lossy_valid [OF assms(1)] by (simp add: text_with_encoding_def)
    qed
  next
    case (Some upper)
    with assms strip none codepage_inverse [OF codepage_in [OF Some]] show ?thesis
      by (simp add: text_with_encoding_def stored_text_def)
  qed
qed

lemma encode_text:
  assumes "stored_text d s = Some bs"
  shows "encode_character_with_encoding env (JString s) f d None = Inr bs"
proof (cases "codepage d")
  case None
  with assms show ?thesis
    by (auto simp: encode_character_with_encoding_def value_text_def stored_text_def split: if_splits)
next
  case (Some upper)
  with assms show ?thesis by (simp add: encode_character_with_encoding_def value_text_def stored_text_def)
qed

lemma character_exact:
  assumes "exact_value f d v" "ascii_upper (fd_type f) = 0x43"
  shows "\<exists>bs. encode_field_with_encoding env f v d None = Inr bs \<and>
    decode_field_with_encoding env (fd_type f) bs d format None = v"
proof -
  obtain s bs where v: "v = JString s" "\<not> is_binary f" "valid_utf8 (string_bytes s)" "stored_text d s = Some bs"
    "length bs \<le> unat (fd_length f)" "bs = [] \<or> last bs \<noteq> 0x20 \<and> last bs \<noteq> 0"
    using assms by (auto simp: exact_value_def Let_def split: json.splits option.splits)
  then have "encode_field_with_encoding env f v d None = Inr (bs @ replicate (unat (fd_length f) - length bs) 0x20)"
    using assms(2) by (simp add: encode_field_with_encoding_def encode_text pad_right_def Let_def)
  then show ?thesis using v text_stored [OF v(3,4,6)] assms(2) by (simp add: decode_field_with_encoding_def)
qed

lemma date_exact:
  assumes "exact_value f d v" "ascii_upper (fd_type f) = 0x44"
  shows "\<exists>bs. encode_field_with_encoding env f v d None = Inr bs \<and>
    decode_field_with_encoding env (fd_type f) bs d format None = v"
proof (cases v)
  case JNull
  then show ?thesis
    using assms by (simp add: encode_field_with_encoding_def decode_field_with_encoding_def exact_value_def value_text_def
        list_all_iff Let_def)
next
  case (JString s)
  then have s: "length s = 8" "list_all is_ascii_digit (string_bytes s)" "unat (fd_length f) = 8"
    using assms by (simp_all add: exact_value_def Let_def)
  then obtain b r where b: "string_bytes s = b # r" "is_ascii_digit b" by (cases s) auto
  have "is_ascii_digit (last (string_bytes s))" using s(2) b(1) by (metis last_in_set list.distinct(1) list_all_iff)
  then have l: "last (string_bytes s) \<noteq> 0x20" "last (string_bytes s) \<noteq> 0" by (auto simp: is_ascii_digit_def)
  have "valid_utf8 (string_bytes s)"
    using s(2) by (intro valid_utf8_ascii) (fastforce simp: list_all_iff is_ascii_digit_def word_le_nat_alt word_less_nat_alt)
  then have "text_with_encoding env (string_bytes s) 0 None = s"
    using plain_text [of "string_bytes s" "[]" env] l by simp
  moreover have "\<not> list_all (\<lambda>b. b = 0x20 \<or> b = 0) (string_bytes s)"
    using b by (auto simp: is_ascii_digit_def)
  moreover have "s \<noteq> []" using s(1) by auto
  ultimately show ?thesis
    using assms(2) s JString
    by (simp add: encode_field_with_encoding_def decode_field_with_encoding_def value_text_def Let_def)
qed (use assms in \<open>simp_all add: exact_value_def Let_def\<close>)

lemma numeric_exact:
  assumes "exact_value f d v" "ascii_upper (fd_type f) = 0x4E \<or> ascii_upper (fd_type f) = 0x46"
  shows "\<exists>bs. encode_field_with_encoding env f v d None = Inr bs \<and>
    decode_field_with_encoding env (fd_type f) bs d format None = v"
proof (cases "v = JNull")
  case True
  then have "encode_field_with_encoding env f v d None = Inr (replicate (unat (fd_length f)) 0x20)"
    using assms(2) by (auto simp: encode_field_with_encoding_def numeric_field_text_def value_text_def Let_def)
  then show ?thesis
    using assms(2) True by (auto simp: decode_field_with_encoding_def numeric_blank)
next
  case False
  then obtain i where i: "integer_value v = Some i" "length (int_bytes i) \<le> unat (fd_length f)"
    using assms by (auto simp: exact_value_def Let_def split: option.splits)
  note v = integer_value_Some [OF i(1)]
  obtain w where w: "parse_f64 (int_bytes i) = Some w" "f64_is_finite w" using parse_f64_int v by blast
  define s where "s = show_number (te_show_f64 env) (number_from_i64 i)"
  have s: "string_bytes s = int_bytes i" using show_number_int [OF v(3)] by (simp add: s_def)
  then have "s \<noteq> []" "length s = length (int_bytes i)" "trim s = s"
    using int_bytes_last(1) [of i] trim_bytes_graphic [OF int_bytes_graphic, of i]
      by (auto simp: trim_def simp flip: s)
  then have "numeric_field_text env v f = Inr s"
    using w s v(1) by (simp add: numeric_field_text_def value_text_def ok_or_def Let_def flip: s_def)
  then have "encode_field_with_encoding env f v d None =
      Inr (replicate (unat (fd_length f) - length (int_bytes i)) 0x20 @ int_bytes i)"
    using assms(2) i(2) s \<open>length s = length (int_bytes i)\<close> by (auto simp: encode_field_with_encoding_def Let_def)
  then show ?thesis
    using assms(2) v numeric_int by (auto simp: decode_field_with_encoding_def)
qed

lemma integer_exact:
  assumes "exact_value f d v" "ascii_upper (fd_type f) = 0x49 \<or> ascii_upper (fd_type f) = 0x2B"
  shows "\<exists>bs. encode_field_with_encoding env f v d None = Inr bs \<and>
    decode_field_with_encoding env (fd_type f) bs d format None = v"
proof -
  obtain i where i: "integer_value v = Some i" "- (2 ^ 31) \<le> i" "i < 2 ^ 31" "unat (fd_length f) = 4"
    using assms by (auto simp: exact_value_def Let_def split: option.splits)
  note v = integer_value_Some [OF i(1)]
  have "encode_field_with_encoding env f v d None = Inr (u32_to_le (word_of_int i))"
    using assms(2) i v by (auto simp: encode_field_with_encoding_def value_i64_def number_as_from_i64 ok_or_def Let_def)
  moreover have "sint (word_of_int i :: u32) = i"
    using i by (simp add: sint_sbintrunc' signed_take_bit_int_eq_self)
  ultimately show ?thesis
    using assms(2) v(1) by (auto simp: decode_field_with_encoding_def)
qed

lemma logical_exact:
  assumes "exact_value f d v" "ascii_upper (fd_type f) = 0x4C"
  shows "\<exists>bs. encode_field_with_encoding env f v d None = Inr bs \<and>
    decode_field_with_encoding env (fd_type f) bs d format None = v"
proof -
  obtain n where n: "unat (fd_length f) = Suc n" using assms by (auto simp: exact_value_def Let_def gr0_conv_Suc)
  have "v = JNull \<or> v = JBool True \<or> v = JBool False" using assms by (simp add: exact_value_def Let_def)
  then show ?thesis
    using assms(2) n
    by (auto simp: encode_field_with_encoding_def decode_field_with_encoding_def ascii_upper_def Let_def)
qed

lemma double_exact:
  assumes "exact_value f d v" "ascii_upper (fd_type f) = 0x4F"
  shows "\<exists>bs. encode_field_with_encoding env f v d None = Inr bs \<and>
    decode_field_with_encoding env (fd_type f) bs d format None = v"
proof -
  obtain w where w: "v = JNumber (Float w)" "f64_is_finite w" "unat (fd_length f) = 8"
    using assms by (auto simp: exact_value_def Let_def split: json.splits json_number.splits)
  then have "encode_field_with_encoding env f v d None = Inr (u64_to_le w)"
    using assms(2) by (simp add: encode_field_with_encoding_def value_f64_def Let_def)
  then show ?thesis
    using assms(2) w by (simp add: decode_field_with_encoding_def f64_value_def number_from_f64_def)
qed

text \<open>
  C22. A field stores every value of its exact domain without loss: writing it succeeds, fills
  the field's width, and reading the bytes gives the value back. The exact domain holds text
  the table's code page can express and that fits, dates and blank dates, numbers that are
  integers and fit, blank numbers, logical values and blanks, 32-bit integers, and finite
  doubles.
\<close>

theorem field_roundtrip:
  assumes "exact_value f d v"
  shows "\<exists>bs. encode_field_with_encoding env f v d None = Inr bs \<and> length bs = unat (fd_length f) \<and>
    decode_field_with_encoding env (fd_type f) bs d format None = v"
proof -
  let ?t = "ascii_upper (fd_type f)"
  consider "?t = 0x43" | "?t = 0x44" | "?t = 0x4E \<or> ?t = 0x46" | "?t = 0x4C" | "?t = 0x49 \<or> ?t = 0x2B" | "?t = 0x4F"
    using assms unfolding exact_value_def Let_def by argo
  then have "\<exists>bs. encode_field_with_encoding env f v d None = Inr bs \<and>
      decode_field_with_encoding env (fd_type f) bs d format None = v"
    using character_exact date_exact numeric_exact logical_exact integer_exact double_exact assms by cases blast+
  then show ?thesis using encode_field_length by blast
qed

theorem field_roundtrip_witness:
  "let env = \<lparr>te_decode = \<lambda>_ _. ([], True), te_encode = \<lambda>_ _. ([], True), te_show_f64 = \<lambda>_. []\<rparr>;
       f = \<lparr>fd_name = ''TOTAL'', fd_type = 0x6E, fd_length = 6, fd_decimal_count = 0, fd_flags = 0, fd_offset = 1\<rparr>;
       v = JNumber (NegInt (- 42))
   in exact_value f 0xC8 v \<and>
     (\<exists>bs. encode_field_with_encoding env f v 0xC8 None = Inr bs \<and> length bs = 6 \<and>
        decode_field_with_encoding env 0x6E bs 0xC8 None None = v)"
proof -
  let ?f = "\<lparr>fd_name = ''TOTAL'', fd_type = 0x6E, fd_length = 6, fd_decimal_count = 0, fd_flags = 0, fd_offset = 1\<rparr>"
  have "exact_value ?f 0xC8 (JNumber (NegInt (- 42)))"
    by (simp add: exact_value_def integer_value_def number_from_i64_def i64_min_def i64_max_def int_bytes_def
        decimal_bytes_def decimal.simps ascii_upper_def)
  from this field_roundtrip [OF this] show ?thesis by (simp add: Let_def)
qed

end
