(* ===== verification/Disk.thy ===== *)
theory Disk
  imports Dbf_Types Wal_Log
begin

text \<open>
  Programs over the file system: operations that change a disk and may fail at every call,
  a program logic with one postcondition for a normal end and one for a failure or a crash,
  the calls of \<^verbatim>\<open>std::fs\<close> the stores use, \<open>FileWal\<close> on a file of the disk
  (\<^verbatim>\<open>src/src/transaction/wal.rs\<close>), and the contract of a recovery procedure.
\<close>

section \<open>Programs that change a state and may fail\<close>

type_synonym ('s, 'e, 'a) prog = "'s \<Rightarrow> 's \<times> ('e, 'a) result"

definition bindp :: "('s, 'e, 'a) prog \<Rightarrow> ('a \<Rightarrow> ('s, 'e, 'b) prog) \<Rightarrow> ('s, 'e, 'b) prog" where
  "bindp p f s = (case p s of (s', Inl e) \<Rightarrow> (s', Inl e) | (s', Inr x) \<Rightarrow> f x s')"

definition retp :: "'a \<Rightarrow> ('s, 'e, 'a) prog" where
  "retp x s = (s, Inr x)"

definition liftp :: "('e, 'a) result \<Rightarrow> ('s, 'e, 'a) prog" where
  "liftp r s = (s, r)"

definition getp :: "('s \<Rightarrow> 'a) \<Rightarrow> ('s, 'e, 'a) prog" where
  "getp f s = (s, Inr (f s))"

definition map_errp :: "('e \<Rightarrow> 'f) \<Rightarrow> ('s, 'e, 'a) prog \<Rightarrow> ('s, 'f, 'a) prog" where
  "map_errp g p s = (case p s of (s', Inl e) \<Rightarrow> (s', Inl (g e)) | (s', Inr x) \<Rightarrow> (s', Inr x))"

text \<open>
  A triple: from a state with \<open>P\<close>, the program either returns a value and a state with
  \<open>Q\<close>, or fails and leaves a state with \<open>E\<close>.  A crash is a failure of the call at which
  it happens, so \<open>E\<close> describes every state a crash can leave behind.
\<close>

definition triple :: "('s \<Rightarrow> bool) \<Rightarrow> ('s, 'e, 'a) prog \<Rightarrow> ('a \<Rightarrow> 's \<Rightarrow> bool) \<Rightarrow> ('s \<Rightarrow> bool) \<Rightarrow> bool" where
  "triple P p Q E \<longleftrightarrow>
     (\<forall>s s'. P s \<longrightarrow> (\<forall>x. p s = (s', Inr x) \<longrightarrow> Q x s') \<and> (\<forall>e. p s = (s', Inl e) \<longrightarrow> E s'))"

named_theorems triples "proof rules for state-changing programs"

lemma tripleI:
  "(\<And>s s' x. P s \<Longrightarrow> p s = (s', Inr x) \<Longrightarrow> Q x s') \<Longrightarrow> (\<And>s s' e. P s \<Longrightarrow> p s = (s', Inl e) \<Longrightarrow> E s') \<Longrightarrow>
     triple P p Q E"
  by (simp add: triple_def)

lemma tripleD:
  "triple P p Q E \<Longrightarrow> P s \<Longrightarrow> p s = (s', Inr x) \<Longrightarrow> Q x s'"
  "triple P p Q E \<Longrightarrow> P s \<Longrightarrow> p s = (s', Inl e) \<Longrightarrow> E s'"
  by (simp_all add: triple_def)

lemma bindp_Inr: "bindp p f s = (s', Inr y) \<longleftrightarrow> (\<exists>t x. p s = (t, Inr x) \<and> f x t = (s', Inr y))"
  by (auto simp: bindp_def split: prod.splits sum.splits)

lemma bindp_Inl:
  "bindp p f s = (s', Inl e) \<longleftrightarrow> p s = (s', Inl e) \<or> (\<exists>t x. p s = (t, Inr x) \<and> f x t = (s', Inl e))"
  by (auto simp: bindp_def split: prod.splits sum.splits)

lemma triple_bind [triples]:
  assumes "triple P p R E" "\<And>x. triple (R x) (f x) Q E"
  shows "triple P (bindp p f) Q E"
  by (rule tripleI) (use assms in \<open>auto simp: bindp_Inr bindp_Inl, (meson tripleD)+\<close>)

lemma bind_lift [simp]: "bindp (liftp (Inr y)) f = f y"
  by (simp add: bindp_def liftp_def fun_eq_iff)

lemma triple_ret [triples]: "triple (Q x) (retp x) Q E"
  by (simp add: triple_def retp_def)

lemma triple_lift [triples]:
  "(\<And>s e. P s \<Longrightarrow> r = Inl e \<Longrightarrow> E s) \<Longrightarrow> triple P (liftp r) (\<lambda>x s. P s \<and> r = Inr x) E"
  by (auto simp: triple_def liftp_def)

lemma triple_get [triples]: "triple P (getp f) (\<lambda>x s. P s \<and> x = f s) E"
  by (simp add: triple_def getp_def)

lemma map_errp_iff:
  "map_errp g p s = (s', Inr x) \<longleftrightarrow> p s = (s', Inr x)"
  "map_errp g p s = (s', Inl e) \<longleftrightarrow> (\<exists>e'. p s = (s', Inl e') \<and> e = g e')"
  by (auto simp: map_errp_def split: prod.splits sum.splits)

lemma triple_map_err [triples]: "triple P p Q E \<Longrightarrow> triple P (map_errp g p) Q E"
  by (auto simp: triple_def map_errp_iff)

lemma triple_weaken:
  assumes "triple P p Q E" "\<And>s. P' s \<Longrightarrow> P s" "\<And>x s. Q x s \<Longrightarrow> Q' x s" "\<And>s. E s \<Longrightarrow> E' s"
  shows "triple P' p Q' E'"
  by (rule tripleI) (meson assms tripleD)+

lemma triple_pre: "triple P p Q E \<Longrightarrow> (\<And>s. P' s \<Longrightarrow> P s) \<Longrightarrow> triple P' p Q E"
  by (rule triple_weaken)

lemma triple_err: "triple P p Q E \<Longrightarrow> (\<And>s. E s \<Longrightarrow> E' s) \<Longrightarrow> triple P p Q E'"
  by (rule triple_weaken)

lemma triple_seq:
  "triple P p R E \<Longrightarrow> (\<And>s. E s \<Longrightarrow> E' s) \<Longrightarrow> (\<And>x. triple (R x) (f x) Q E') \<Longrightarrow> triple P (bindp p f) Q E'"
  by (blast intro: triple_bind triple_err)

lemma triple_seq_err:
  "triple P p R E \<Longrightarrow> (\<And>s. E s \<Longrightarrow> E' s) \<Longrightarrow> (\<And>x. triple (R x) (f x) Q E') \<Longrightarrow>
     triple P (bindp (map_errp g p) f) Q E'"
  by (blast intro: triple_seq triple_map_err)

lemma triple_disj: "triple P p Q E \<Longrightarrow> triple P' p Q E \<Longrightarrow> triple (\<lambda>s. P s \<or> P' s) p Q E"
  unfolding triple_def by blast

lemma triple_ex: "(\<And>x. triple (P x) p Q E) \<Longrightarrow> triple (\<lambda>s. \<exists>x. P x s) p Q E"
  unfolding triple_def by blast

lemma triple_lift_bind:
  "(\<And>s. P s \<Longrightarrow> E s) \<Longrightarrow> (\<And>x. r = Inr x \<Longrightarrow> triple P (f x) Q E) \<Longrightarrow> triple P (bindp (liftp r) f) Q E"
  by (cases r) (auto simp: bindp_def liftp_def triple_def)

lemma triple_prod: "(\<And>a b. triple (R (a, b)) (f a b) Q E) \<Longrightarrow> triple (R x) (case x of (a, b) \<Rightarrow> f a b) Q E"
  by (cases x) simp

lemma triple_conj: "(b \<Longrightarrow> triple P p Q E) \<Longrightarrow> triple (\<lambda>s. P s \<and> b) p Q E"
  unfolding triple_def by blast

lemma triple_fact: "(\<And>s. P s \<Longrightarrow> b) \<Longrightarrow> (b \<Longrightarrow> triple P p Q E) \<Longrightarrow> triple P p Q E"
  unfolding triple_def by blast

lemma triple_if [triples]:
  "(b \<Longrightarrow> triple P p Q E) \<Longrightarrow> (\<not> b \<Longrightarrow> triple P q Q E) \<Longrightarrow> triple P (if b then p else q) Q E"
  by simp

section \<open>A disk\<close>

text \<open>
  The files a component works on, and the outcomes of the coming calls: \<open>None\<close> is a call
  that succeeds, \<open>Some k\<close> one that fails, a failing write after \<open>k\<close> bytes.  When the list
  is used up every call succeeds.  A write that succeeded is on the disk: the loss of data that
  was written and not yet synced is not part of the model, so a sync is a call that may fail
  and nothing more.
\<close>

record disk =
  dk_files :: "file_path \<Rightarrow> bytes option"
  dk_faults :: "nat option list"

definition dk_pop :: "disk \<Rightarrow> nat option \<times> disk" where
  "dk_pop d = (case dk_faults d of [] \<Rightarrow> (None, d) | x # xs \<Rightarrow> (x, d\<lparr>dk_faults := xs\<rparr>))"

definition dk_set :: "file_path \<Rightarrow> bytes option \<Rightarrow> disk \<Rightarrow> disk" where
  "dk_set p v d = d\<lparr>dk_files := (dk_files d)(p := v)\<rparr>"

definition dk_call :: "(disk, io_error, unit) prog" where
  "dk_call d = (case dk_pop d of (None, d') \<Rightarrow> (d', Inr ()) | (Some _, d') \<Rightarrow> (d', Inl Other_error))"

text \<open>\<open>Path::exists\<close> answers \<open>false\<close> when the metadata cannot be read.\<close>

definition dk_exists :: "file_path \<Rightarrow> (disk, io_error, bool) prog" where
  "dk_exists p d =
     (case dk_pop d of
        (None, d') \<Rightarrow> (d', Inr (dk_files d' p \<noteq> None))
      | (Some _, d') \<Rightarrow> (d', Inr False))"

definition dk_read :: "file_path \<Rightarrow> (disk, io_error, bytes) prog" where
  "dk_read p = bindp dk_call (\<lambda>_. bindp (getp (\<lambda>d. dk_files d p)) (\<lambda>v. liftp (ok_or Not_found v)))"

definition dk_create :: "file_path \<Rightarrow> (disk, io_error, unit) prog" where
  "dk_create p = bindp dk_call (\<lambda>_ d. (dk_set p (Some []) d, Inr ()))"

definition dk_write :: "file_path \<Rightarrow> bytes \<Rightarrow> (disk, io_error, unit) prog" where
  "dk_write p bs d =
     (let old = (case dk_files d p of None \<Rightarrow> [] | Some b \<Rightarrow> b) in
      case dk_pop d of
        (None, d') \<Rightarrow> (dk_set p (Some (old @ bs)) d', Inr ())
      | (Some k, d') \<Rightarrow> (dk_set p (Some (old @ take k bs)) d', Inl Other_error))"

definition dk_rename :: "file_path \<Rightarrow> file_path \<Rightarrow> (disk, io_error, unit) prog" where
  "dk_rename a b = bindp (dk_read a) (\<lambda>bs d. (dk_set b (Some bs) (dk_set a None d), Inr ()))"

definition dk_remove :: "file_path \<Rightarrow> (disk, io_error, unit) prog" where
  "dk_remove p = bindp (dk_read p) (\<lambda>_ d. (dk_set p None d, Inr ()))"

text \<open>
  \<open>FileWal\<close> on a disk: opening creates the file if it is missing and reads it; an operation of
  the log runs on the file at the path.
\<close>

definition dk_wal_open :: "file_path \<Rightarrow> (disk, transaction_error, file_wal) prog" where
  "dk_wal_open p d =
     (case dk_call d of
        (d', Inl _) \<Rightarrow> (d', Inl Io)
      | (d', Inr _) \<Rightarrow>
          (let bs = (case dk_files d' p of None \<Rightarrow> [] | Some b \<Rightarrow> b) in
           case dk_call (dk_set p (Some bs) d') of
             (d'', Inl _) \<Rightarrow> (d'', Inl Io)
           | (d'', Inr _) \<Rightarrow>
               (case file_open \<lparr>file_bytes = bs, file_faults = dk_faults d''\<rparr> of
                  (f, r) \<Rightarrow> (dk_set p (Some (file_bytes f)) (d''\<lparr>dk_faults := file_faults f\<rparr>), r))))"

definition dk_wal_run ::
  "file_path \<Rightarrow> (file_wal \<Rightarrow> file_wal \<times> (transaction_error, 'a) result) \<Rightarrow> file_wal \<Rightarrow>
     (disk, transaction_error, file_wal \<times> 'a) prog" where
  "dk_wal_run p op w d =
     (case op (w\<lparr>fw_file := (fw_file w)\<lparr>file_faults := dk_faults d\<rparr>\<rparr>) of
        (w', r) \<Rightarrow>
          (dk_set p (Some (file_bytes (fw_file w'))) (d\<lparr>dk_faults := file_faults (fw_file w')\<rparr>),
           bindr r (\<lambda>x. Inr (w', x))))"

section \<open>Recovery\<close>

text \<open>Recovery attempts one after the other, the \<open>i\<close>-th with the outcomes \<open>fss ! i\<close>.\<close>

definition attempts :: "(disk, 'e, 'a) prog \<Rightarrow> nat option list list \<Rightarrow> disk \<Rightarrow> disk" where
  "attempts recover fss d = fold (\<lambda>fs d. fst (recover (d\<lparr>dk_faults := fs\<rparr>))) fss d"

text \<open>
  The contract of a recovery procedure: a relation \<open>holds\<close> says which content the files
  stand for.  Recovery never changes that content, however it ends, and without faults it
  returns and leaves the content settled in its file.
\<close>

locale recoverable =
  fixes holds :: "'v \<Rightarrow> disk \<Rightarrow> bool" and settled :: "'v \<Rightarrow> disk \<Rightarrow> bool"
    and recover :: "(disk, 'e, 'a) prog"
  assumes faults_free: "holds v (d\<lparr>dk_faults := fs\<rparr>) = holds v d"
    and keeps: "holds v d \<Longrightarrow> holds v (fst (recover d))"
    and settles: "holds v d \<Longrightarrow> dk_faults d = [] \<Longrightarrow> \<exists>d' x. recover d = (d', Inr x) \<and> settled v d' \<and> dk_faults d' = []"
begin

lemma attempts_keep: "holds v d \<Longrightarrow> holds v (attempts recover fss d)"
  unfolding attempts_def by (induction fss arbitrary: d) (simp_all add: keeps faults_free)

lemma attempts_settle:
  "holds v d \<Longrightarrow> \<exists>d' x. recover ((attempts recover fss d)\<lparr>dk_faults := []\<rparr>) = (d', Inr x) \<and> settled v d' \<and> dk_faults d' = []"
  by (rule settles) (simp_all add: faults_free attempts_keep)

end

end
