(* ===== verification/Xbf.thy ===== *)
theory Xbf
  imports Rust_Text Json
begin

text \<open>
  The XBF table format, first part: the types of \<^verbatim>\<open>src/src/xbf/mod.rs\<close>, the checksum of
  \<^verbatim>\<open>src/src/xbf/checksum.rs\<close>, the schema section and the key constraints of
  \<^verbatim>\<open>src/src/xbf/schema.rs\<close>, and the record values of \<^verbatim>\<open>src/src/xbf/values.rs\<close>.  Decoding
  moves a cursor over a byte slice; its readers are an instance of the cursor contract,
  and the round-trip lemmas chain one reader after another.
\<close>

section \<open>Types\<close>

datatype xbf_error = Xbf_io io_error | Xbf_invalid string

datatype xbf_type =
    Ty_boolean | Ty_signed32 | Ty_signed64 | Ty_unsigned64 | Ty_float32 | Ty_float64
  | Ty_string | Ty_bytes | Ty_date | Ty_timestamp | Ty_uuid | Ty_json

fun xbf_type_tag :: "xbf_type \<Rightarrow> u8" where
  "xbf_type_tag Ty_boolean = 0x01"
| "xbf_type_tag Ty_signed32 = 0x10"
| "xbf_type_tag Ty_signed64 = 0x11"
| "xbf_type_tag Ty_unsigned64 = 0x12"
| "xbf_type_tag Ty_float32 = 0x20"
| "xbf_type_tag Ty_float64 = 0x21"
| "xbf_type_tag Ty_string = 0x30"
| "xbf_type_tag Ty_bytes = 0x31"
| "xbf_type_tag Ty_date = 0x40"
| "xbf_type_tag Ty_timestamp = 0x41"
| "xbf_type_tag Ty_uuid = 0x60"
| "xbf_type_tag Ty_json = 0x70"

definition xbf_type_from_tag :: "u8 \<Rightarrow> (xbf_error, xbf_type) result" where
  "xbf_type_from_tag tag =
     (if tag = 0x01 then Inr Ty_boolean
      else if tag = 0x10 then Inr Ty_signed32
      else if tag = 0x11 then Inr Ty_signed64
      else if tag = 0x12 then Inr Ty_unsigned64
      else if tag = 0x20 then Inr Ty_float32
      else if tag = 0x21 then Inr Ty_float64
      else if tag = 0x30 then Inr Ty_string
      else if tag = 0x31 then Inr Ty_bytes
      else if tag = 0x40 then Inr Ty_date
      else if tag = 0x41 then Inr Ty_timestamp
      else if tag = 0x60 then Inr Ty_uuid
      else if tag = 0x70 then Inr Ty_json
      else if tag = 0x50 then Inl (Xbf_invalid ''decimal type is reserved in XBF v1'')
      else Inl (Xbf_invalid (''unsupported XBF type tag 0x'' @ bytes_string (hex_bytes [tag]))))"

record xbf_field =
  xf_name :: string
  xf_ty :: xbf_type
  xf_nullable :: bool
  xf_primary_key :: bool
  xf_unique :: bool

text \<open>
  Signed integers are words read with \<open>sint\<close>, floating-point numbers are their bit
  patterns (the codec only moves the bits), a \<open>Uuid\<close> is a list of 16 bytes.
\<close>

datatype xbf_value =
    V_null
  | V_boolean bool
  | V_signed32 u32
  | V_signed64 u64
  | V_unsigned64 u64
  | V_float32 u32
  | V_float64 u64
  | V_string string
  | V_bytes bytes
  | V_date u32
  | V_timestamp u64
  | V_uuid bytes
  | V_json json

record xbf_record =
  xr_deleted :: bool
  xr_values :: "xbf_value list"

record xbf_table =
  xt_generation :: u64
  xt_fields :: "xbf_field list"
  xt_records :: "xbf_record list"

record xbf_limits =
  max_file_size :: nat
  max_section_size :: nat
  max_record_size :: nat
  max_value_size :: nat
  max_field_name :: nat
  max_fields :: nat
  max_records :: nat

definition xbf_limits_default :: xbf_limits where
  "xbf_limits_default = \<lparr>max_file_size = 256 * 1024 * 1024, max_section_size = 256 * 1024 * 1024,
     max_record_size = 16 * 1024 * 1024, max_value_size = 16 * 1024 * 1024, max_field_name = 255,
     max_fields = 4096, max_records = 1000000\<rparr>"

section \<open>Checksum\<close>

fun crc_bits :: "nat \<Rightarrow> u32 \<Rightarrow> u32" where
  "crc_bits 0 crc = crc"
| "crc_bits (Suc n) crc =
     crc_bits n (if and crc 1 = 0 then drop_bit 1 crc else xor (drop_bit 1 crc) 0x82f63b78)"

definition crc_byte :: "u32 \<Rightarrow> u8 \<Rightarrow> u32" where
  "crc_byte crc b = crc_bits 8 (xor crc (ucast b))"

definition crc32c :: "bytes \<Rightarrow> u32" where
  "crc32c bs = not (foldl crc_byte (- 1) bs)"

fun crc_zeroed :: "nat \<Rightarrow> nat \<Rightarrow> nat \<Rightarrow> u32 \<Rightarrow> bytes \<Rightarrow> u32" where
  "crc_zeroed i from_i to_i crc [] = crc"
| "crc_zeroed i from_i to_i crc (b # bs) =
     crc_zeroed (i + 1) from_i to_i (crc_byte crc (if from_i \<le> i \<and> i < to_i then 0 else b)) bs"

definition crc32c_with_zeroed_range :: "bytes \<Rightarrow> nat \<Rightarrow> nat \<Rightarrow> u32" where
  "crc32c_with_zeroed_range bs from_i to_i = not (crc_zeroed 0 from_i to_i (- 1) bs)"

section \<open>Cursor\<close>

definition check_section_size :: "nat \<Rightarrow> xbf_limits \<Rightarrow> string \<Rightarrow> (xbf_error, unit) result" where
  "check_section_size len limits label =
     ensure (len \<le> max_section_size limits)
       (Xbf_invalid (label @ '' section exceeds the configured limit''))"

definition xtake :: "bytes \<Rightarrow> nat \<Rightarrow> nat \<Rightarrow> (xbf_error, bytes \<times> nat) result" where
  "xtake bs cursor len =
     bindr (ok_or (Xbf_invalid ''XBF payload length overflows'') (checked_add cursor len)) (\<lambda>stop.
     bindr (ok_or (Xbf_invalid ''XBF payload is truncated'') (get_range bs cursor stop)) (\<lambda>v.
     Inr (v, stop)))"

definition take_u8 :: "bytes \<Rightarrow> nat \<Rightarrow> (xbf_error, u8 \<times> nat) result" where
  "take_u8 bs cursor = bindr (xtake bs cursor 1) (\<lambda>(v, c). Inr (v ! 0, c))"

definition take_u16 :: "bytes \<Rightarrow> nat \<Rightarrow> (xbf_error, u16 \<times> nat) result" where
  "take_u16 bs cursor = bindr (xtake bs cursor 2) (\<lambda>(v, c). Inr (u16_from_le v, c))"

definition take_u32 :: "bytes \<Rightarrow> nat \<Rightarrow> (xbf_error, u32 \<times> nat) result" where
  "take_u32 bs cursor = bindr (xtake bs cursor 4) (\<lambda>(v, c). Inr (u32_from_le v, c))"

section \<open>Schema\<close>

definition MIN_FIELD_DESCRIPTOR_SIZE :: nat where "MIN_FIELD_DESCRIPTOR_SIZE = 7"

definition field_flags :: "xbf_field \<Rightarrow> u8" where
  "field_flags f =
     or (or (if xf_nullable f then 0x01 else 0) (if xf_primary_key f then 0x02 else 0))
        (if xf_unique f \<or> xf_primary_key f then 0x04 else 0)"

fun encode_fields ::
  "xbf_limits \<Rightarrow> bytes \<Rightarrow> string list \<Rightarrow> nat \<Rightarrow> xbf_field list \<Rightarrow> (xbf_error, bytes \<times> nat) result" where
  "encode_fields limits bs names pk [] = Inr (bs, pk)"
| "encode_fields limits bs names pk (f # fs) =
     (let name = string_bytes (xf_name f) in
      if name = [] \<or> 255 < length name \<or> max_field_name limits < length name
      then Inl (Xbf_invalid (''field name '' @ xf_name f @ '' is outside the supported length''))
      else if xf_name f \<in> set names
      then Inl (Xbf_invalid (''duplicate XBF field name '' @ xf_name f))
      else if xf_primary_key f \<and> xf_nullable f
      then Inl (Xbf_invalid (''primary-key field '' @ xf_name f @ '' cannot be nullable''))
      else encode_fields limits
        (bs @ u16_to_le (word_of_nat (length name)) @ name @ [xbf_type_tag (xf_ty f), field_flags f] @
         u16_to_le 0)
        (xf_name f # names) (if xf_primary_key f then pk + 1 else pk) fs)"

definition encode_schema :: "xbf_field list \<Rightarrow> xbf_limits \<Rightarrow> (xbf_error, bytes) result" where
  "encode_schema fds limits =
     bindr (ok_or (Xbf_invalid ''field count overflows u32'') (u32_try_from (length fds))) (\<lambda>count.
     bindr (encode_fields limits (u32_to_le count) [] 0 fds) (\<lambda>(bs, pk).
     bindr (ensure (pk \<le> 1) (Xbf_invalid ''XBF v1 supports at most one primary-key field'')) (\<lambda>_.
     bindr (check_section_size (length bs) limits ''schema'') (\<lambda>_.
     Inr bs))))"

definition decode_field ::
  "bytes \<Rightarrow> nat \<Rightarrow> xbf_limits \<Rightarrow> string list \<Rightarrow> (xbf_error, xbf_field \<times> nat) result" where
  "decode_field bs cursor limits names =
     bindr (take_u16 bs cursor) (\<lambda>(len, c1).
     bindr (ensure (\<not> (unat len = 0 \<or> 255 < unat len \<or> max_field_name limits < unat len))
       (Xbf_invalid ''XBF field name length is outside 1..=255'')) (\<lambda>_.
     bindr (xtake bs c1 (unat len)) (\<lambda>(name_bytes, c2).
     bindr (ok_or (Xbf_invalid ''XBF field name is not UTF-8'') (from_utf8 name_bytes)) (\<lambda>name.
     bindr (ensure (name \<notin> set names) (Xbf_invalid (''duplicate XBF field name '' @ name))) (\<lambda>_.
     bindr (take_u8 bs c2) (\<lambda>(tag, c3).
     bindr (xbf_type_from_tag tag) (\<lambda>ty.
     bindr (take_u8 bs c3) (\<lambda>(flags, c4).
     bindr (ensure (and flags (not 0x07) = 0)
       (Xbf_invalid ''XBF schema contains unknown constraint flags'')) (\<lambda>_.
     bindr (take_u16 bs c4) (\<lambda>(reserved, c5).
     bindr (ensure (reserved = 0) (Xbf_invalid ''XBF schema reserved field is non-zero'')) (\<lambda>_.
     let nullable = (and flags 0x01 \<noteq> 0); primary_key = (and flags 0x02 \<noteq> 0);
         unique = (and flags 0x04 \<noteq> 0 \<or> primary_key) in
     bindr (ensure (\<not> (primary_key \<and> nullable))
       (Xbf_invalid ''XBF primary-key field must be non-null'')) (\<lambda>_.
     Inr (\<lparr>xf_name = name, xf_ty = ty, xf_nullable = nullable, xf_primary_key = primary_key,
           xf_unique = unique\<rparr>, c5)))))))))))))"

fun decode_fields ::
  "nat \<Rightarrow> bytes \<Rightarrow> nat \<Rightarrow> xbf_limits \<Rightarrow> string list \<Rightarrow> nat \<Rightarrow>
     (xbf_error, xbf_field list \<times> nat \<times> nat) result" where
  "decode_fields 0 bs cursor limits names pk = Inr ([], pk, cursor)"
| "decode_fields (Suc n) bs cursor limits names pk =
     bindr (decode_field bs cursor limits names) (\<lambda>(f, c).
     bindr (decode_fields n bs c limits (xf_name f # names) (if xf_primary_key f then pk + 1 else pk))
       (\<lambda>(fs, pk', c'). Inr (f # fs, pk', c')))"

definition decode_schema :: "bytes \<Rightarrow> xbf_limits \<Rightarrow> (xbf_error, xbf_field list) result" where
  "decode_schema bs limits =
     bindr (take_u32 bs 0) (\<lambda>(count, c).
     bindr (ensure (unat count \<le> max_fields limits)
       (Xbf_invalid ''field count exceeds the configured limit'')) (\<lambda>_.
     bindr (ensure (unat count \<le> (length bs - c) div MIN_FIELD_DESCRIPTOR_SIZE)
       (Xbf_invalid ''field count exceeds the schema section bounds'')) (\<lambda>_.
     bindr (decode_fields (unat count) bs c limits [] 0) (\<lambda>(fds, pk, c').
     bindr (ensure (pk \<le> 1) (Xbf_invalid ''XBF v1 supports at most one primary-key field'')) (\<lambda>_.
     bindr (ensure (c' = length bs) (Xbf_invalid ''XBF schema has trailing bytes'')) (\<lambda>_.
     Inr fds))))))"

definition invalid_type :: "xbf_field \<Rightarrow> xbf_error" where
  "invalid_type f = Xbf_invalid (''value does not match XBF field '' @ xf_name f)"

definition i32_try_from :: "u64 \<Rightarrow> u32 option" where
  "i32_try_from v = (if - (2 ^ 31) \<le> sint v \<and> sint v < 2 ^ 31 then Some (ucast v) else None)"

definition i64_from :: "u32 \<Rightarrow> u64" where
  "i64_from v = scast v"

text \<open>\<open>to_vec\<close> and \<open>from_slice\<close> stand for \<open>serde_json::to_vec\<close> and \<open>serde_json::from_slice\<close>.\<close>

definition unique_key ::
  "(json \<Rightarrow> (string, bytes) result) \<Rightarrow> xbf_field \<Rightarrow> xbf_value \<Rightarrow> (xbf_error, bytes option) result" where
  "unique_key to_vec f v =
     (case v of
        V_null \<Rightarrow> Inr None
      | V_boolean b \<Rightarrow> if xf_ty f = Ty_boolean then Inr (Some [if b then 1 else 0]) else Inl (invalid_type f)
      | V_signed32 w \<Rightarrow>
          if xf_ty f = Ty_signed32 then Inr (Some (u32_to_le w))
          else if xf_ty f = Ty_signed64 then Inr (Some (u64_to_le (i64_from w)))
          else Inl (invalid_type f)
      | V_signed64 w \<Rightarrow>
          if xf_ty f = Ty_signed32
          then bindr (ok_or (invalid_type f) (i32_try_from w)) (\<lambda>n. Inr (Some (u32_to_le n)))
          else if xf_ty f = Ty_signed64 then Inr (Some (u64_to_le w))
          else Inl (invalid_type f)
      | V_unsigned64 w \<Rightarrow> if xf_ty f = Ty_unsigned64 then Inr (Some (u64_to_le w)) else Inl (invalid_type f)
      | V_float32 w \<Rightarrow> if xf_ty f = Ty_float32 then Inr (Some (u32_to_le w)) else Inl (invalid_type f)
      | V_float64 w \<Rightarrow> if xf_ty f = Ty_float64 then Inr (Some (u64_to_le w)) else Inl (invalid_type f)
      | V_string s \<Rightarrow> if xf_ty f = Ty_string then Inr (Some (string_bytes s)) else Inl (invalid_type f)
      | V_bytes bs \<Rightarrow> if xf_ty f = Ty_bytes then Inr (Some bs) else Inl (invalid_type f)
      | V_date w \<Rightarrow> if xf_ty f = Ty_date then Inr (Some (u32_to_le w)) else Inl (invalid_type f)
      | V_timestamp w \<Rightarrow> if xf_ty f = Ty_timestamp then Inr (Some (u64_to_le w)) else Inl (invalid_type f)
      | V_uuid bs \<Rightarrow> if xf_ty f = Ty_uuid then Inr (Some bs) else Inl (invalid_type f)
      | V_json j \<Rightarrow>
          if xf_ty f = Ty_json then
            (case to_vec j of
               Inl e \<Rightarrow> Inl (Xbf_invalid (''JSON value cannot be compared: '' @ e))
             | Inr bs \<Rightarrow> Inr (Some bs))
          else Inl (invalid_type f))"

fun validate_keys ::
  "(json \<Rightarrow> (string, bytes) result) \<Rightarrow> xbf_field \<Rightarrow> nat \<Rightarrow> xbf_record list \<Rightarrow> bytes list \<Rightarrow>
     (xbf_error, unit) result" where
  "validate_keys to_vec f i [] keys = Inr ()"
| "validate_keys to_vec f i (r # rs) keys =
     (if length (xr_values r) \<le> i
      then Inl (Xbf_invalid ''XBF record value count does not match schema'')
      else
        bindr (unique_key to_vec f (xr_values r ! i)) (\<lambda>k.
        case k of
          None \<Rightarrow>
            if xf_primary_key f
            then Inl (Xbf_invalid (''primary-key field '' @ xf_name f @ '' contains NULL''))
            else validate_keys to_vec f i rs keys
        | Some key \<Rightarrow>
            if key \<in> set keys
            then Inl (Xbf_invalid (''unique field '' @ xf_name f @ '' contains duplicate values''))
            else validate_keys to_vec f i rs (key # keys)))"

fun validate_fields ::
  "(json \<Rightarrow> (string, bytes) result) \<Rightarrow> nat \<Rightarrow> xbf_field list \<Rightarrow> xbf_record list \<Rightarrow> nat \<Rightarrow>
     (xbf_error, nat) result" where
  "validate_fields to_vec i [] records pk = Inr pk"
| "validate_fields to_vec i (f # fs) records pk =
     (if xf_primary_key f \<and> xf_nullable f
      then Inl (Xbf_invalid (''primary-key field '' @ xf_name f @ '' cannot be nullable''))
      else
        let pk' = (if xf_primary_key f then pk + 1 else pk) in
        if \<not> xf_unique f \<and> \<not> xf_primary_key f then validate_fields to_vec (i + 1) fs records pk'
        else
          bindr (validate_keys to_vec f i records []) (\<lambda>_.
          validate_fields to_vec (i + 1) fs records pk'))"

definition validate_constraints ::
  "(json \<Rightarrow> (string, bytes) result) \<Rightarrow> xbf_field list \<Rightarrow> xbf_record list \<Rightarrow> (xbf_error, unit) result" where
  "validate_constraints to_vec fds records =
     bindr (validate_fields to_vec 0 fds records 0) (\<lambda>pk.
     ensure (pk \<le> 1) (Xbf_invalid ''XBF v1 supports at most one primary-key field''))"

section \<open>Values\<close>

definition encode_value ::
  "(json \<Rightarrow> (string, bytes) result) \<Rightarrow> xbf_field \<Rightarrow> xbf_value \<Rightarrow> (xbf_error, u8 \<times> bytes) result" where
  "encode_value to_vec f v =
     (case v of
        V_null \<Rightarrow>
          if \<not> xf_nullable f \<and> \<not> xf_primary_key f
          then Inl (Xbf_invalid (''non-nullable field '' @ xf_name f @ '' contains NULL''))
          else Inr (0, [])
      | V_boolean b \<Rightarrow> if xf_ty f = Ty_boolean then Inr (0x01, [if b then 1 else 0]) else Inl (invalid_type f)
      | V_signed32 w \<Rightarrow>
          if xf_ty f = Ty_signed32 \<or> xf_ty f = Ty_signed64 then Inr (0x10, u32_to_le w)
          else Inl (invalid_type f)
      | V_signed64 w \<Rightarrow>
          if xf_ty f = Ty_signed32
          then bindr (ok_or (invalid_type f) (i32_try_from w)) (\<lambda>n. Inr (0x10, u32_to_le n))
          else if xf_ty f = Ty_signed64 then Inr (0x11, u64_to_le w)
          else Inl (invalid_type f)
      | V_unsigned64 w \<Rightarrow> if xf_ty f = Ty_unsigned64 then Inr (0x12, u64_to_le w) else Inl (invalid_type f)
      | V_float32 w \<Rightarrow> if xf_ty f = Ty_float32 then Inr (0x20, u32_to_le w) else Inl (invalid_type f)
      | V_float64 w \<Rightarrow> if xf_ty f = Ty_float64 then Inr (0x21, u64_to_le w) else Inl (invalid_type f)
      | V_string s \<Rightarrow> if xf_ty f = Ty_string then Inr (0x30, string_bytes s) else Inl (invalid_type f)
      | V_bytes bs \<Rightarrow> if xf_ty f = Ty_bytes then Inr (0x31, bs) else Inl (invalid_type f)
      | V_date w \<Rightarrow> if xf_ty f = Ty_date then Inr (0x40, u32_to_le w) else Inl (invalid_type f)
      | V_timestamp w \<Rightarrow> if xf_ty f = Ty_timestamp then Inr (0x41, u64_to_le w) else Inl (invalid_type f)
      | V_uuid bs \<Rightarrow> if xf_ty f = Ty_uuid then Inr (0x60, bs) else Inl (invalid_type f)
      | V_json j \<Rightarrow>
          if xf_ty f = Ty_json then
            (case to_vec j of
               Inl e \<Rightarrow> Inl (Xbf_invalid (''JSON value cannot be encoded: '' @ e))
             | Inr bs \<Rightarrow> Inr (0x70, bs))
          else Inl (invalid_type f))"

definition decode_value ::
  "(bytes \<Rightarrow> (string, json) result) \<Rightarrow> xbf_field \<Rightarrow> u8 \<Rightarrow> bytes \<Rightarrow> (xbf_error, xbf_value) result" where
  "decode_value from_slice f tag payload =
     (if tag = 0 then
        if payload \<noteq> [] then Inl (Xbf_invalid (''NULL value for field '' @ xf_name f @ '' has a payload''))
        else if \<not> xf_nullable f \<and> \<not> xf_primary_key f
        then Inl (Xbf_invalid (''non-nullable field '' @ xf_name f @ '' contains NULL''))
        else Inr V_null
      else if xf_ty f = Ty_boolean \<and> tag = 0x01 \<and> length payload = 1 then
        (if payload ! 0 = 0 then Inr (V_boolean False)
         else if payload ! 0 = 1 then Inr (V_boolean True)
         else Inl (Xbf_invalid (''boolean value for field '' @ xf_name f @ '' is not 0 or 1'')))
      else if xf_ty f = Ty_signed32 \<and> tag = 0x10 \<and> length payload = 4 then Inr (V_signed32 (u32_from_le payload))
      else if xf_ty f = Ty_signed64 \<and> tag = 0x10 \<and> length payload = 4 then Inr (V_signed32 (u32_from_le payload))
      else if xf_ty f = Ty_signed64 \<and> tag = 0x11 \<and> length payload = 8 then Inr (V_signed64 (u64_from_le payload))
      else if xf_ty f = Ty_unsigned64 \<and> tag = 0x12 \<and> length payload = 8 then Inr (V_unsigned64 (u64_from_le payload))
      else if xf_ty f = Ty_float32 \<and> tag = 0x20 \<and> length payload = 4 then Inr (V_float32 (u32_from_le payload))
      else if xf_ty f = Ty_float64 \<and> tag = 0x21 \<and> length payload = 8 then Inr (V_float64 (u64_from_le payload))
      else if xf_ty f = Ty_string \<and> tag = 0x30 then
        bindr (ok_or (Xbf_invalid (''string field '' @ xf_name f @ '' is not UTF-8'')) (from_utf8 payload)) (\<lambda>s.
        Inr (V_string s))
      else if xf_ty f = Ty_bytes \<and> tag = 0x31 then Inr (V_bytes payload)
      else if xf_ty f = Ty_date \<and> tag = 0x40 \<and> length payload = 4 then Inr (V_date (u32_from_le payload))
      else if xf_ty f = Ty_timestamp \<and> tag = 0x41 \<and> length payload = 8 then Inr (V_timestamp (u64_from_le payload))
      else if xf_ty f = Ty_uuid \<and> tag = 0x60 \<and> length payload = 16 then Inr (V_uuid payload)
      else if xf_ty f = Ty_json \<and> tag = 0x70 then
        (case from_slice payload of
           Inl e \<Rightarrow> Inl (Xbf_invalid (''JSON field '' @ xf_name f @ '' is invalid: '' @ e))
         | Inr j \<Rightarrow> Inr (V_json j))
      else Inl (invalid_type f))"

fun encode_values ::
  "(json \<Rightarrow> (string, bytes) result) \<Rightarrow> xbf_limits \<Rightarrow> bytes \<Rightarrow> (xbf_field \<times> xbf_value) list \<Rightarrow>
     (xbf_error, bytes) result" where
  "encode_values to_vec limits bs [] = Inr bs"
| "encode_values to_vec limits bs ((f, v) # fvs) =
     bindr (encode_value to_vec f v) (\<lambda>(tag, payload).
     bindr (ensure (length payload \<le> max_value_size limits)
       (Xbf_invalid (''value for field '' @ xf_name f @ '' exceeds the configured limit''))) (\<lambda>_.
     bindr (ok_or (Xbf_invalid ''XBF value length overflows u32'') (u32_try_from (length payload))) (\<lambda>len.
     encode_values to_vec limits (bs @ [tag] @ u32_to_le len @ payload) fvs)))"

definition encode_record ::
  "(json \<Rightarrow> (string, bytes) result) \<Rightarrow> xbf_field list \<Rightarrow> xbf_record \<Rightarrow> xbf_limits \<Rightarrow>
     (xbf_error, bytes) result" where
  "encode_record to_vec fds r limits =
     bindr (ensure (length (xr_values r) = length fds)
       (Xbf_invalid ''XBF record value count does not match schema'')) (\<lambda>_.
     bindr (encode_values to_vec limits [] (zip fds (xr_values r))) (\<lambda>bs.
     bindr (ensure (length bs \<le> max_record_size limits)
       (Xbf_invalid ''record payload exceeds the configured limit'')) (\<lambda>_.
     Inr bs)))"

fun decode_values ::
  "(bytes \<Rightarrow> (string, json) result) \<Rightarrow> xbf_limits \<Rightarrow> bytes \<Rightarrow> nat \<Rightarrow> xbf_field list \<Rightarrow>
     (xbf_error, xbf_value list \<times> nat) result" where
  "decode_values from_slice limits bs cursor [] = Inr ([], cursor)"
| "decode_values from_slice limits bs cursor (f # fs) =
     bindr (take_u8 bs cursor) (\<lambda>(tag, c1).
     bindr (take_u32 bs c1) (\<lambda>(len, c2).
     bindr (ensure (unat len \<le> max_value_size limits)
       (Xbf_invalid (''value for field '' @ xf_name f @ '' exceeds the configured limit''))) (\<lambda>_.
     bindr (xtake bs c2 (unat len)) (\<lambda>(payload, c3).
     bindr (decode_value from_slice f tag payload) (\<lambda>v.
     bindr (decode_values from_slice limits bs c3 fs) (\<lambda>(vs, c4).
     Inr (v # vs, c4)))))))"

definition decode_record ::
  "(bytes \<Rightarrow> (string, json) result) \<Rightarrow> bytes \<Rightarrow> xbf_field list \<Rightarrow> xbf_limits \<Rightarrow>
     (xbf_error, xbf_value list) result" where
  "decode_record from_slice bs fds limits =
     bindr (ensure (length bs \<le> max_record_size limits)
       (Xbf_invalid ''record payload exceeds the configured limit'')) (\<lambda>_.
     bindr (decode_values from_slice limits bs 0 fds) (\<lambda>(vs, c).
     bindr (ensure (c = length bs) (Xbf_invalid ''XBF record has trailing bytes'')) (\<lambda>_.
     Inr vs)))"

section \<open>Reading with the cursor\<close>

interpretation xbfc: cursor_reader xtake
  by unfold_locales (auto simp: xtake_def result_simps)

lemma xtake_step:
  assumes "cursor_at bs c (x @ rest)" "length bs < usize_limit" "n = length x"
  shows "\<exists>c'. xtake bs c n = Inr (x, c') \<and> cursor_at bs c' rest"
  using xbfc.take_at [OF assms] cursor_at_skip [OF assms(1)] assms(3) by simp

lemma take_u8_step:
  assumes "cursor_at bs c (b # rest)" "length bs < usize_limit"
  shows "\<exists>c'. take_u8 bs c = Inr (b, c') \<and> cursor_at bs c' rest"
proof -
  have "\<exists>c'. xtake bs c 1 = Inr ([b], c') \<and> cursor_at bs c' rest"
    using assms by (intro xtake_step) auto
  then show ?thesis by (auto simp: take_u8_def)
qed

lemma take_u16_step:
  assumes "cursor_at bs c (u16_to_le w @ rest)" "length bs < usize_limit"
  shows "\<exists>c'. take_u16 bs c = Inr (w, c') \<and> cursor_at bs c' rest"
proof -
  have "\<exists>c'. xtake bs c 2 = Inr (u16_to_le w, c') \<and> cursor_at bs c' rest"
    using assms by (intro xtake_step) auto
  then show ?thesis by (auto simp: take_u16_def)
qed

lemma take_u32_step:
  assumes "cursor_at bs c (u32_to_le w @ rest)" "length bs < usize_limit"
  shows "\<exists>c'. take_u32 bs c = Inr (w, c') \<and> cursor_at bs c' rest"
proof -
  have "\<exists>c'. xtake bs c 4 = Inr (u32_to_le w, c') \<and> cursor_at bs c' rest"
    using assms by (intro xtake_step) auto
  then show ?thesis by (auto simp: take_u32_def)
qed

section \<open>Checksum over a zeroed range\<close>

lemma crc_zeroed_outside:
  "j + length bs \<le> a \<or> b \<le> j \<Longrightarrow> crc_zeroed j a b crc bs = foldl crc_byte crc bs"
  by (induction bs arbitrary: j crc) auto

lemma crc_zeroed_inside:
  "a \<le> j \<Longrightarrow> j + length bs \<le> b \<Longrightarrow>
     crc_zeroed j a b crc bs = foldl crc_byte crc (replicate (length bs) 0)"
  by (induction bs arbitrary: j crc) auto

lemma crc_zeroed_append:
  "crc_zeroed j a b crc (xs @ ys) = crc_zeroed (j + length xs) a b (crc_zeroed j a b crc xs) ys"
  by (induction xs arbitrary: j crc) auto

lemma crc32c_zeroed_range:
  assumes "length p = a" "length x = b - a" "a \<le> b"
  shows "crc32c_with_zeroed_range (p @ x @ q) a b = crc32c (p @ replicate (b - a) 0 @ q)"
  using assms
  by (simp add: crc32c_with_zeroed_range_def crc32c_def crc_zeroed_append crc_zeroed_outside
      crc_zeroed_inside)

section \<open>Schema round trip\<close>

definition norm_field :: "xbf_field \<Rightarrow> xbf_field" where
  "norm_field f = f\<lparr>xf_unique := xf_unique f \<or> xf_primary_key f\<rparr>"

definition field_bytes :: "xbf_field \<Rightarrow> bytes" where
  "field_bytes f = u16_to_le (word_of_nat (length (xf_name f))) @ string_bytes (xf_name f) @
     [xbf_type_tag (xf_ty f), field_flags f] @ u16_to_le 0"

definition field_ok :: "xbf_limits \<Rightarrow> xbf_field \<Rightarrow> bool" where
  "field_ok limits f \<longleftrightarrow> xf_name f \<noteq> [] \<and> length (xf_name f) \<le> 255 \<and>
     length (xf_name f) \<le> max_field_name limits \<and> \<not> (xf_primary_key f \<and> xf_nullable f)"

definition pk_count :: "xbf_field list \<Rightarrow> nat" where
  "pk_count fds = length (filter xf_primary_key fds)"

lemma string_bytes_Nil [simp]: "string_bytes s = [] \<longleftrightarrow> s = []"
  by (simp add: string_bytes_def)

lemma encode_fields_Inr:
  "encode_fields limits bs names pk fds = Inr (bs', pk') \<Longrightarrow>
     bs' = bs @ concat (map field_bytes fds) \<and> list_all (field_ok limits) fds \<and>
     distinct (map xf_name fds) \<and> set (map xf_name fds) \<inter> set names = {} \<and>
     pk' = pk + pk_count fds"
proof (induction limits bs names pk fds rule: encode_fields.induct)
  case (1 limits bs names pk)
  then show ?case by (simp add: pk_count_def)
next
  case (2 limits bs names pk f fs)
  then show ?case
    by (auto simp: Let_def field_bytes_def field_ok_def pk_count_def split: if_splits)
qed

lemma xbf_type_from_tag [simp]: "xbf_type_from_tag (xbf_type_tag ty) = Inr ty"
  by (cases ty) (simp_all add: xbf_type_from_tag_def)

lemma field_flags_bits:
  "and (field_flags f) (- 8) = 0"
  "and (field_flags f) 1 = 0 \<longleftrightarrow> \<not> xf_nullable f"
  "and (field_flags f) 2 = 0 \<longleftrightarrow> \<not> xf_primary_key f"
  "and (field_flags f) 4 = 0 \<longleftrightarrow> \<not> xf_unique f \<and> \<not> xf_primary_key f"
  by (simp_all add: field_flags_def)

lemma decode_field_at:
  assumes at: "cursor_at bs c (field_bytes f @ rest)" and len: "length bs < usize_limit"
    and ok: "field_ok limits f" "valid_utf8 (string_bytes (xf_name f))" "xf_name f \<notin> set names"
  shows "\<exists>c'. decode_field bs c limits names = Inr (norm_field f, c') \<and> cursor_at bs c' rest"
proof -
  let ?n = "word_of_nat (length (xf_name f)) :: u16"
  have n: "unat ?n = length (xf_name f)" using ok(1) by (simp add: field_ok_def unat_of_nat)
  have at: "cursor_at bs c (u16_to_le ?n @ string_bytes (xf_name f) @
      xbf_type_tag (xf_ty f) # field_flags f # u16_to_le 0 @ rest)"
    using at by (simp add: field_bytes_def [of f])
  obtain c1 where c1: "take_u16 bs c = Inr (?n, c1)"
    "cursor_at bs c1 (string_bytes (xf_name f) @ xbf_type_tag (xf_ty f) # field_flags f # u16_to_le 0 @ rest)"
    using take_u16_step [OF at len] by blast
  obtain c2 where c2: "xtake bs c1 (length (xf_name f)) = Inr (string_bytes (xf_name f), c2)"
    "cursor_at bs c2 (xbf_type_tag (xf_ty f) # field_flags f # u16_to_le 0 @ rest)"
    using xtake_step [OF c1(2) len, of "length (xf_name f)"] by auto
  obtain c3 where c3: "take_u8 bs c2 = Inr (xbf_type_tag (xf_ty f), c3)"
    "cursor_at bs c3 (field_flags f # u16_to_le 0 @ rest)"
    using take_u8_step [OF c2(2) len] by blast
  obtain c4 where c4: "take_u8 bs c3 = Inr (field_flags f, c4)" "cursor_at bs c4 (u16_to_le 0 @ rest)"
    using take_u8_step [OF c3(2) len] by blast
  obtain c5 where c5: "take_u16 bs c4 = Inr (0, c5)" "cursor_at bs c5 rest"
    using take_u16_step [OF c4(2) len] by blast
  have "decode_field bs c limits names = Inr (norm_field f, c5)"
    using ok n by (simp add: decode_field_def c1(1) c2(1) c3(1) c4(1) c5(1) field_ok_def from_utf8_def
        field_flags_bits norm_field_def Let_def)
  with c5(2) show ?thesis by blast
qed

lemma norm_field_simps [simp]:
  "xf_name (norm_field f) = xf_name f" "xf_ty (norm_field f) = xf_ty f"
  "xf_nullable (norm_field f) = xf_nullable f" "xf_primary_key (norm_field f) = xf_primary_key f"
  "xf_unique (norm_field f) = (xf_unique f \<or> xf_primary_key f)"
  by (simp_all add: norm_field_def)

lemma decode_fields_at:
  assumes "cursor_at bs c (concat (map field_bytes fds) @ rest)" "length bs < usize_limit"
    and "list_all (field_ok limits) fds" "list_all (\<lambda>f. valid_utf8 (string_bytes (xf_name f))) fds"
    and "distinct (map xf_name fds)" "set (map xf_name fds) \<inter> set names = {}"
  shows "\<exists>c'. decode_fields (length fds) bs c limits names pk = Inr (map norm_field fds, pk + pk_count fds, c') \<and>
    cursor_at bs c' rest"
  using assms
proof (induction fds arbitrary: c names pk)
  case Nil
  then show ?case by (simp add: pk_count_def)
next
  case (Cons f fds)
  let ?tl = "concat (map field_bytes fds) @ rest"
  obtain c1 where c1: "decode_field bs c limits names = Inr (norm_field f, c1)" "cursor_at bs c1 ?tl"
    using decode_field_at [of bs c f ?tl limits names] Cons.prems by auto
  obtain c2 where c2: "decode_fields (length fds) bs c1 limits (xf_name f # names)
      (if xf_primary_key f then pk + 1 else pk) =
      Inr (map norm_field fds, (if xf_primary_key f then pk + 1 else pk) + pk_count fds, c2)"
    "cursor_at bs c2 rest"
    using Cons.IH [OF c1(2) Cons.prems(2), of "xf_name f # names"
        "if xf_primary_key f then pk + 1 else pk"] Cons.prems(3-6) by auto
  then show ?case by (auto simp: c1(1) pk_count_def)
qed

lemma concat_field_bytes_length:
  "list_all (field_ok limits) fds \<Longrightarrow> 7 * length fds \<le> length (concat (map field_bytes fds))"
proof (induction fds)
  case Nil
  show ?case by simp
next
  case (Cons f fds)
  then have "1 \<le> length (xf_name f)" by (cases "xf_name f") (auto simp: field_ok_def)
  moreover have "length (field_bytes f) = 6 + length (xf_name f)" by (simp add: field_bytes_def)
  moreover have "7 * length fds \<le> length (concat (map field_bytes fds))" using Cons by simp
  ultimately show ?case by simp
qed

lemma encode_schema_Inr:
  assumes "encode_schema fds limits = Inr bs"
  shows "bs = u32_to_le (word_of_nat (length fds)) @ concat (map field_bytes fds) \<and>
    length fds < 2 ^ 32 \<and> list_all (field_ok limits) fds \<and> distinct (map xf_name fds) \<and>
    pk_count fds \<le> 1 \<and> length bs \<le> max_section_size limits"
  using assms
  by (auto simp: encode_schema_def check_section_size_def result_simps dest!: encode_fields_Inr)

lemma schema_roundtrip:
  assumes enc: "encode_schema fds limits = Inr bs" and len: "length bs < usize_limit"
    and lim: "length fds \<le> max_fields limits"
    and utf8: "list_all (\<lambda>f. valid_utf8 (string_bytes (xf_name f))) fds"
  shows "decode_schema bs limits = Inr (map norm_field fds)"
proof -
  let ?n = "word_of_nat (length fds) :: u32"
  have bs: "bs = u32_to_le ?n @ concat (map field_bytes fds)"
    and e: "length fds < 2 ^ 32" "list_all (field_ok limits) fds" "distinct (map xf_name fds)"
      "pk_count fds \<le> 1"
    using encode_schema_Inr [OF enc] by auto
  have at: "cursor_at bs 0 (u32_to_le ?n @ concat (map field_bytes fds) @ [])"
    using cursor_at_start [of bs] by (simp add: bs)
  obtain c where c: "take_u32 bs 0 = Inr (?n, c)" "cursor_at bs c (concat (map field_bytes fds) @ [])"
    using take_u32_step [OF at len] by blast
  have n: "unat ?n = length fds" using e by (simp add: unat_u32_of_nat)
  have "length fds \<le> (length bs - c) div 7"
    using cursor_at_length [OF c(2)] concat_field_bytes_length [of limits fds] e by simp
  moreover have "decode_fields (length fds) bs c limits [] 0 = Inr (map norm_field fds, pk_count fds, length bs)"
    using decode_fields_at [OF c(2) len, of limits "[]" 0] e utf8 by (auto simp: cursor_at_end)
  ultimately show ?thesis
    using e lim n by (simp add: decode_schema_def c(1) MIN_FIELD_DESCRIPTOR_SIZE_def)
qed

section \<open>Value and record round trip\<close>

definition norm_value :: "xbf_field \<Rightarrow> xbf_value \<Rightarrow> xbf_value" where
  "norm_value f v =
     (case v of
        V_signed64 w \<Rightarrow>
          if xf_ty f = Ty_signed32
          then (case i32_try_from w of Some n \<Rightarrow> V_signed32 n | None \<Rightarrow> v) else v
      | _ \<Rightarrow> v)"

definition norm_record :: "xbf_field list \<Rightarrow> xbf_record \<Rightarrow> xbf_record" where
  "norm_record fds r = r\<lparr>xr_values := map2 norm_value fds (xr_values r)\<rparr>"

definition norm_table :: "xbf_table \<Rightarrow> xbf_table" where
  "norm_table t = t\<lparr>xt_fields := map norm_field (xt_fields t),
     xt_records := map (norm_record (xt_fields t)) (xt_records t)\<rparr>"

fun wf_value ::
  "(json \<Rightarrow> (string, bytes) result) \<Rightarrow> (bytes \<Rightarrow> (string, json) result) \<Rightarrow> xbf_value \<Rightarrow> bool" where
  "wf_value to_vec from_slice (V_string s) = valid_utf8 (string_bytes s)"
| "wf_value to_vec from_slice (V_uuid bs) = (length bs = 16)"
| "wf_value to_vec from_slice (V_json j) =
     (case to_vec j of Inl _ \<Rightarrow> True | Inr bs \<Rightarrow> from_slice bs = Inr j)"
| "wf_value to_vec from_slice _ = True"

definition wf_table ::
  "(json \<Rightarrow> (string, bytes) result) \<Rightarrow> (bytes \<Rightarrow> (string, json) result) \<Rightarrow> xbf_table \<Rightarrow> bool" where
  "wf_table to_vec from_slice t \<longleftrightarrow>
     list_all (\<lambda>f. valid_utf8 (string_bytes (xf_name f))) (xt_fields t) \<and>
     list_all (\<lambda>r. list_all (wf_value to_vec from_slice) (xr_values r)) (xt_records t)"

lemma value_roundtrip:
  assumes "encode_value to_vec f v = Inr (tag, payload)" "wf_value to_vec from_slice v"
  shows "decode_value from_slice (norm_field f) tag payload = Inr (norm_value f v)"
  using assms
  by (cases v)
    (auto simp: encode_value_def decode_value_def norm_value_def from_utf8_def bindr_Inr_iff bytes_string_def [of "[]"]
      ok_or_Inr_iff split: if_splits sum.splits)

lemma values_roundtrip:
  assumes "encode_values to_vec limits pre fvs = Inr out"
    and "list_all (\<lambda>fv. wf_value to_vec from_slice (snd fv)) fvs"
  shows "\<exists>enc. out = pre @ enc \<and>
    (\<forall>bs c rest. cursor_at bs c (enc @ rest) \<longrightarrow> length bs < usize_limit \<longrightarrow>
      (\<exists>c'. decode_values from_slice limits bs c (map (\<lambda>fv. norm_field (fst fv)) fvs) =
          Inr (map (\<lambda>fv. norm_value (fst fv) (snd fv)) fvs, c') \<and> cursor_at bs c' rest))"
  using assms
proof (induction fvs arbitrary: pre)
  case Nil
  then show ?case by auto
next
  case (Cons fv fvs)
  obtain f v where fv: "fv = (f, v)" by (cases fv)
  from Cons.prems(1) fv obtain tag payload where ev: "encode_value to_vec f v = Inr (tag, payload)"
    and le: "length payload \<le> max_value_size limits" "length payload < 2 ^ 32"
    and rest: "encode_values to_vec limits (pre @ [tag] @ u32_to_le (word_of_nat (length payload)) @ payload) fvs
      = Inr out"
    by (auto simp: bindr_Inr_iff ok_or_Inr_iff ensure_Inr_iff u32_try_from_Some_iff)
  let ?h = "tag # u32_to_le (word_of_nat (length payload)) @ payload"
  from Cons.IH [OF rest] Cons.prems(2) obtain enc where out: "out = pre @ ?h @ enc"
    and dec: "\<And>bs c rest. cursor_at bs c (enc @ rest) \<Longrightarrow> length bs < usize_limit \<Longrightarrow>
      \<exists>c'. decode_values from_slice limits bs c (map (\<lambda>fv. norm_field (fst fv)) fvs) =
          Inr (map (\<lambda>fv. norm_value (fst fv) (snd fv)) fvs, c') \<and> cursor_at bs c' rest"
    by auto
  have "\<exists>c'. decode_values from_slice limits bs c (map (\<lambda>fv. norm_field (fst fv)) (fv # fvs)) =
      Inr (map (\<lambda>fv. norm_value (fst fv) (snd fv)) (fv # fvs), c') \<and> cursor_at bs c' rest"
    if at: "cursor_at bs c ((?h @ enc) @ rest)" and len: "length bs < usize_limit" for bs c rest
  proof -
    have at0: "cursor_at bs c (tag # u32_to_le (word_of_nat (length payload)) @ payload @ enc @ rest)"
      using at by simp
    obtain c1 where c1: "take_u8 bs c = Inr (tag, c1)"
      "cursor_at bs c1 (u32_to_le (word_of_nat (length payload)) @ payload @ enc @ rest)"
      using take_u8_step [OF at0 len] by blast
    obtain c2 where c2: "take_u32 bs c1 = Inr (word_of_nat (length payload), c2)"
      "cursor_at bs c2 (payload @ enc @ rest)"
      using take_u32_step [OF c1(2) len] by blast
    obtain c3 where c3: "xtake bs c2 (length payload) = Inr (payload, c3)" "cursor_at bs c3 (enc @ rest)"
      using xtake_step [OF c2(2) len] by blast
    obtain c4 where c4: "decode_values from_slice limits bs c3 (map (\<lambda>fv. norm_field (fst fv)) fvs) =
          Inr (map (\<lambda>fv. norm_value (fst fv) (snd fv)) fvs, c4)" "cursor_at bs c4 rest"
      using dec [OF c3(2) len] by blast
    have "decode_value from_slice (norm_field f) tag payload = Inr (norm_value f v)"
      using value_roundtrip [OF ev] Cons.prems(2) fv by simp
    then show ?thesis
      using le c4(2) by (simp add: fv c1(1) c2(1) c3(1) c4(1) unat_u32_of_nat)
  qed
  with out show ?case by (intro exI [of _ "?h @ enc"]) auto
qed

lemma record_roundtrip:
  assumes enc: "encode_record to_vec fds r limits = Inr bs"
    and wf: "list_all (wf_value to_vec from_slice) (xr_values r)" and len: "length bs < usize_limit"
  shows "decode_record from_slice bs (map norm_field fds) limits = Inr (map2 norm_value fds (xr_values r)) \<and>
    length bs \<le> max_record_size limits \<and> length (xr_values r) = length fds"
proof -
  let ?fvs = "zip fds (xr_values r)"
  have e: "encode_values to_vec limits [] ?fvs = Inr bs" "length bs \<le> max_record_size limits"
    "length (xr_values r) = length fds"
    using enc by (auto simp: encode_record_def bindr_Inr_iff ensure_Inr_iff)
  have "list_all (\<lambda>fv. wf_value to_vec from_slice (snd fv)) ?fvs"
    using wf by (auto simp: list_all_iff dest: set_zip_rightD)
  from values_roundtrip [OF e(1) this] have dec: "cursor_at bs 0 (bs @ []) \<longrightarrow> length bs < usize_limit \<longrightarrow>
      (\<exists>c'. decode_values from_slice limits bs 0 (map (\<lambda>fv. norm_field (fst fv)) ?fvs) =
        Inr (map (\<lambda>fv. norm_value (fst fv) (snd fv)) ?fvs, c') \<and> cursor_at bs c' [])"
    by fastforce
  have "cursor_at bs 0 (bs @ [])" using cursor_at_start by simp
  with dec len obtain c' where
    "decode_values from_slice limits bs 0 (map (\<lambda>fv. norm_field (fst fv)) ?fvs) =
      Inr (map (\<lambda>fv. norm_value (fst fv) (snd fv)) ?fvs, c')" "cursor_at bs c' []" by blast
  moreover have "map (\<lambda>fv. norm_field (fst fv)) ?fvs = map norm_field fds"
  proof -
    have "map (\<lambda>fv. norm_field (fst fv)) ?fvs = map norm_field (map fst ?fvs)" by simp
    then show ?thesis using e(3) by (simp del: map_map)
  qed
  moreover have "map (\<lambda>fv. norm_value (fst fv) (snd fv)) ?fvs = map2 norm_value fds (xr_values r)"
    by (simp add: case_prod_beta)
  ultimately show ?thesis using e by (simp add: decode_record_def cursor_at_end)
qed

section \<open>Constraints do not change under normalisation\<close>

lemma unique_key_norm: "unique_key to_vec (norm_field f) (norm_value f v) = unique_key to_vec f v"
proof (cases v)
  case (V_signed64 w)
  then show ?thesis
    by (cases "i32_try_from w") (simp_all add: unique_key_def norm_value_def invalid_type_def)
qed (simp_all add: unique_key_def norm_value_def invalid_type_def)

lemma validate_keys_norm:
  assumes "i < length fds" "\<And>r. r \<in> set rs \<Longrightarrow> length (xr_values r) = length fds"
  shows "validate_keys to_vec (norm_field (fds ! i)) i (map (norm_record fds) rs) keys =
    validate_keys to_vec (fds ! i) i rs keys"
  using assms
proof (induction rs arbitrary: keys)
  case Nil
  show ?case by simp
next
  case (Cons r rs)
  have "xr_values (norm_record fds r) ! i = norm_value (fds ! i) (xr_values r ! i)"
    "length (xr_values (norm_record fds r)) = length (xr_values r)"
    using Cons.prems by (auto simp: norm_record_def)
  with Cons show ?case
    by (auto simp: unique_key_norm intro!: bindr_cong split: option.splits)
qed

lemma validate_fields_norm:
  assumes "\<And>r. r \<in> set rs \<Longrightarrow> length (xr_values r) = length fds" "suf = drop i fds"
  shows "validate_fields to_vec i (map norm_field suf) (map (norm_record fds) rs) pk =
    validate_fields to_vec i suf rs pk"
  using assms(2)
proof (induction suf arbitrary: i pk)
  case Nil
  show ?case by simp
next
  case (Cons f suf)
  then have i: "i < length fds" "fds ! i = f" "suf = drop (i + 1) fds"
    by (metis drop_eq_Nil list.distinct(1) not_le, metis nth_via_drop, metis drop_Suc Suc_eq_plus1 list.sel(3) tl_drop)
  then have k: "validate_keys to_vec (norm_field f) i (map (norm_record fds) rs) [] = validate_keys to_vec f i rs []"
    using validate_keys_norm [OF i(1)] assms(1) by auto
  show ?case using Cons.IH [OF i(3)] by (simp add: k Let_def)
qed

lemma validate_constraints_norm:
  assumes "\<And>r. r \<in> set rs \<Longrightarrow> length (xr_values r) = length fds"
  shows "validate_constraints to_vec (map norm_field fds) (map (norm_record fds) rs) =
    validate_constraints to_vec fds rs"
  using validate_fields_norm [of rs fds fds 0] assms by (simp add: validate_constraints_def)

end
