(* ===== verification/Xbf_Codec.thy ===== *)
theory Xbf_Codec
  imports Xbf
begin

text \<open>
  The XBF table format, second part: the file with its header, sections and record
  directory (\<^verbatim>\<open>src/src/xbf/codec/\<close>).  The lemmas follow the layout: the header that is
  written reads back field by field with its checksum, the directory entries are found
  and do not overlap, each section is where the header says, and so the whole file reads
  back; and what any accepted file guarantees about the table it decodes to.
\<close>

section \<open>Layout of the header\<close>

definition XBF_HEADER_SIZE :: nat where "XBF_HEADER_SIZE = 100"
definition XBF_MAGIC :: bytes where "XBF_MAGIC = [0x54, 0x58, 0x42, 0x46]"
definition VERSION_MAJOR :: u16 where "VERSION_MAJOR = 1"
definition VERSION_MINOR :: u16 where "VERSION_MINOR = 0"
definition HEADER_FLAGS :: u32 where "HEADER_FLAGS = 0"
definition DIRECTORY_ENTRY_SIZE :: nat where "DIRECTORY_ENTRY_SIZE = 24"
definition HEADER_LENGTH_OFFSET :: nat where "HEADER_LENGTH_OFFSET = 12"
definition SCHEMA_OFFSET :: nat where "SCHEMA_OFFSET = 16"
definition SCHEMA_LENGTH :: nat where "SCHEMA_LENGTH = 24"
definition SCHEMA_CRC :: nat where "SCHEMA_CRC = 32"
definition DIRECTORY_OFFSET :: nat where "DIRECTORY_OFFSET = 36"
definition DIRECTORY_LENGTH :: nat where "DIRECTORY_LENGTH = 44"
definition DIRECTORY_CRC :: nat where "DIRECTORY_CRC = 52"
definition DATA_OFFSET :: nat where "DATA_OFFSET = 56"
definition DATA_LENGTH :: nat where "DATA_LENGTH = 64"
definition DATA_CRC :: nat where "DATA_CRC = 72"
definition RECORD_COUNT :: nat where "RECORD_COUNT = 76"
definition GENERATION :: nat where "GENERATION = 84"
definition HEADER_CRC :: nat where "HEADER_CRC = 92"
definition RESERVED :: nat where "RESERVED = 96"
definition ENTRY_SIZE :: nat where "ENTRY_SIZE = 28"
definition OPTIONAL_FLAG :: u32 where "OPTIONAL_FLAG = 0x01"

lemmas layout_defs = XBF_HEADER_SIZE_def XBF_MAGIC_def VERSION_MAJOR_def VERSION_MINOR_def
  HEADER_FLAGS_def DIRECTORY_ENTRY_SIZE_def HEADER_LENGTH_OFFSET_def SCHEMA_OFFSET_def
  SCHEMA_LENGTH_def SCHEMA_CRC_def DIRECTORY_OFFSET_def DIRECTORY_LENGTH_def DIRECTORY_CRC_def
  DATA_OFFSET_def DATA_LENGTH_def DATA_CRC_def RECORD_COUNT_def GENERATION_def HEADER_CRC_def
  RESERVED_def ENTRY_SIZE_def

definition validate_limits :: "xbf_limits \<Rightarrow> (xbf_error, unit) result" where
  "validate_limits limits =
     ensure (\<not> (max_file_size limits < XBF_HEADER_SIZE \<or> max_section_size limits = 0 \<or>
       max_record_size limits = 0 \<or> max_value_size limits = 0 \<or> max_field_name limits = 0 \<or>
       max_fields limits = 0 \<or> max_records limits = 0))
       (Xbf_invalid ''XBF limits contain a zero or undersized bound'')"

section \<open>Encoding\<close>

definition xchecked_add :: "nat \<Rightarrow> nat \<Rightarrow> string \<Rightarrow> (xbf_error, nat) result" where
  "xchecked_add left right label =
     ok_or (Xbf_invalid (label @ '' length overflows'')) (checked_add left right)"

definition u64_from_usize :: "nat \<Rightarrow> string \<Rightarrow> (xbf_error, u64) result" where
  "u64_from_usize v label = ok_or (Xbf_invalid (label @ '' overflows u64'')) (u64_try_from v)"

definition put_u16 :: "bytes \<Rightarrow> nat \<Rightarrow> u16 \<Rightarrow> bytes" where
  "put_u16 bs offset v = copy_slice bs offset (u16_to_le v)"

definition put_u32 :: "bytes \<Rightarrow> nat \<Rightarrow> u32 \<Rightarrow> bytes" where
  "put_u32 bs offset v = copy_slice bs offset (u32_to_le v)"

definition put_u64 :: "bytes \<Rightarrow> nat \<Rightarrow> u64 \<Rightarrow> bytes" where
  "put_u64 bs offset v = copy_slice bs offset (u64_to_le v)"

fun encode_entries ::
  "(json \<Rightarrow> (string, bytes) result) \<Rightarrow> xbf_limits \<Rightarrow> xbf_field list \<Rightarrow> nat \<Rightarrow> bytes \<Rightarrow> bytes \<Rightarrow>
     xbf_record list \<Rightarrow> (xbf_error, bytes \<times> bytes) result" where
  "encode_entries to_vec limits fds data_offset directory data [] = Inr (directory, data)"
| "encode_entries to_vec limits fds data_offset directory data (r # rs) =
     bindr (encode_record to_vec fds r limits) (\<lambda>payload.
     bindr (xchecked_add (length data) (length payload) ''record data'') (\<lambda>next_data_length.
     bindr (check_section_size next_data_length limits ''record data'') (\<lambda>_.
     bindr (xchecked_add data_offset next_data_length ''XBF file'') (\<lambda>next_file_size.
     bindr (ensure (next_file_size \<le> max_file_size limits)
       (Xbf_invalid ''encoded XBF file exceeds the configured limit'')) (\<lambda>_.
     bindr (xchecked_add data_offset (length data) ''record data'') (\<lambda>offset.
     bindr (u64_from_usize offset ''record offset'') (\<lambda>o64.
     bindr (u64_from_usize (length payload) ''record payload length'') (\<lambda>l64.
     encode_entries to_vec limits fds data_offset
       (directory @ u64_to_le o64 @ u64_to_le l64 @ u32_to_le (if xr_deleted r then 1 else 0) @ u32_to_le 0)
       (data @ payload) rs))))))))"

definition encode_header ::
  "u64 \<Rightarrow> nat \<Rightarrow> nat \<Rightarrow> nat \<Rightarrow> nat \<Rightarrow> bytes \<Rightarrow> bytes \<Rightarrow> bytes \<Rightarrow> (xbf_error, bytes) result" where
  "encode_header generation record_count schema_offset directory_offset data_offset schema directory data =
     (let h = copy_slice (replicate XBF_HEADER_SIZE 0) 0 XBF_MAGIC;
          h = put_u16 h 4 VERSION_MAJOR;
          h = put_u16 h 6 VERSION_MINOR;
          h = put_u32 h 8 HEADER_FLAGS;
          h = put_u32 h HEADER_LENGTH_OFFSET (word_of_nat XBF_HEADER_SIZE)
      in bindr (u64_from_usize schema_offset ''schema offset'') (\<lambda>so.
         bindr (u64_from_usize (length schema) ''schema length'') (\<lambda>sl.
         bindr (u64_from_usize directory_offset ''record directory offset'') (\<lambda>dio.
         bindr (u64_from_usize (length directory) ''record directory length'') (\<lambda>dil.
         bindr (u64_from_usize data_offset ''record data offset'') (\<lambda>dao.
         bindr (u64_from_usize (length data) ''record data length'') (\<lambda>dal.
         bindr (u64_from_usize record_count ''record count'') (\<lambda>rc.
         let h = put_u64 h SCHEMA_OFFSET so;
             h = put_u64 h SCHEMA_LENGTH sl;
             h = put_u32 h SCHEMA_CRC (crc32c schema);
             h = put_u64 h DIRECTORY_OFFSET dio;
             h = put_u64 h DIRECTORY_LENGTH dil;
             h = put_u32 h DIRECTORY_CRC (crc32c directory);
             h = put_u64 h DATA_OFFSET dao;
             h = put_u64 h DATA_LENGTH dal;
             h = put_u32 h DATA_CRC (crc32c data);
             h = put_u64 h RECORD_COUNT rc;
             h = put_u64 h GENERATION generation;
             h = put_u32 h HEADER_CRC 0;
             h = put_u32 h RESERVED 0
         in Inr (put_u32 h HEADER_CRC (crc32c h))))))))))"

definition encode_with_limits ::
  "(json \<Rightarrow> (string, bytes) result) \<Rightarrow> xbf_table \<Rightarrow> xbf_limits \<Rightarrow> (xbf_error, bytes) result" where
  "encode_with_limits to_vec t limits =
     bindr (validate_limits limits) (\<lambda>_.
     bindr (ensure (length (xt_fields t) \<le> max_fields limits)
       (Xbf_invalid ''field count exceeds the configured limit'')) (\<lambda>_.
     bindr (ensure (length (xt_records t) \<le> max_records limits)
       (Xbf_invalid ''record count exceeds the configured limit'')) (\<lambda>_.
     bindr (encode_schema (xt_fields t) limits) (\<lambda>schema.
     bindr (ok_or (Xbf_invalid ''record directory length overflows'')
       (checked_mul (length (xt_records t)) DIRECTORY_ENTRY_SIZE)) (\<lambda>directory_length.
     bindr (check_section_size directory_length limits ''record directory'') (\<lambda>_.
     let schema_offset = XBF_HEADER_SIZE in
     bindr (xchecked_add schema_offset (length schema) ''schema section'') (\<lambda>directory_offset.
     bindr (xchecked_add directory_offset directory_length ''record directory'') (\<lambda>data_offset.
     bindr (ensure (data_offset \<le> max_file_size limits)
       (Xbf_invalid ''encoded XBF file exceeds the configured limit'')) (\<lambda>_.
     bindr (encode_entries to_vec limits (xt_fields t) data_offset [] [] (xt_records t)) (\<lambda>(directory, data).
     bindr (validate_constraints to_vec (xt_fields t) (xt_records t)) (\<lambda>_.
     bindr (check_section_size (length schema) limits ''schema'') (\<lambda>_.
     bindr (check_section_size (length directory) limits ''record directory'') (\<lambda>_.
     bindr (check_section_size (length data) limits ''record data'') (\<lambda>_.
     bindr (encode_header (xt_generation t) (length (xt_records t)) schema_offset directory_offset
       data_offset schema directory data) (\<lambda>header.
     bindr (xchecked_add XBF_HEADER_SIZE (length schema) ''XBF file'') (\<lambda>s1.
     bindr (xchecked_add s1 (length directory) ''XBF file'') (\<lambda>s2.
     bindr (xchecked_add s2 (length data) ''XBF file'') (\<lambda>total_size.
     bindr (ensure (total_size \<le> max_file_size limits)
       (Xbf_invalid ''encoded XBF file exceeds the configured limit'')) (\<lambda>_.
     Inr (header @ schema @ directory @ data))))))))))))))))))))"

definition encode :: "(json \<Rightarrow> (string, bytes) result) \<Rightarrow> xbf_table \<Rightarrow> (xbf_error, bytes) result" where
  "encode to_vec t = encode_with_limits to_vec t xbf_limits_default"

section \<open>Decoding\<close>

definition get_u16 :: "bytes \<Rightarrow> nat \<Rightarrow> (xbf_error, u16) result" where
  "get_u16 bs offset =
     bindr (ok_or (Xbf_invalid ''XBF integer is truncated'') (get_range bs offset (offset + 2))) (\<lambda>raw.
     Inr (u16_from_le raw))"

definition get_u32 :: "bytes \<Rightarrow> nat \<Rightarrow> (xbf_error, u32) result" where
  "get_u32 bs offset =
     bindr (ok_or (Xbf_invalid ''XBF integer is truncated'') (get_range bs offset (offset + 4))) (\<lambda>raw.
     Inr (u32_from_le raw))"

definition get_u64 :: "bytes \<Rightarrow> nat \<Rightarrow> (xbf_error, u64) result" where
  "get_u64 bs offset =
     bindr (ok_or (Xbf_invalid ''XBF integer is truncated'') (get_range bs offset (offset + 8))) (\<lambda>raw.
     Inr (u64_from_le raw))"

definition xsection ::
  "bytes \<Rightarrow> u64 \<Rightarrow> u64 \<Rightarrow> xbf_limits \<Rightarrow> string \<Rightarrow> (xbf_error, bytes) result" where
  "xsection bs offset len limits label =
     bindr (ensure (unat len \<le> max_section_size limits)
       (Xbf_invalid (label @ '' section exceeds the configured limit''))) (\<lambda>_.
     bindr (ok_or (Xbf_invalid (label @ '' section bounds overflow''))
       (checked_add (unat offset) (unat len))) (\<lambda>stop.
     ok_or (Xbf_invalid (label @ '' section is outside the XBF file'')) (get_range bs (unat offset) stop)))"

function chunks_exact :: "nat \<Rightarrow> 'a list \<Rightarrow> 'a list list" where
  "chunks_exact n xs =
     (if n = 0 \<or> length xs < n then [] else take n xs # chunks_exact n (drop n xs))"
  by pat_completeness auto
termination by (relation "measure (\<lambda>(n, xs). length xs)") auto

declare chunks_exact.simps [simp del]

fun extension_entries ::
  "bytes \<Rightarrow> xbf_limits \<Rightarrow> u32 \<Rightarrow> u64 \<Rightarrow> bytes list \<Rightarrow> (xbf_error, u64) result" where
  "extension_entries bs limits previous_type expected_offset [] = Inr expected_offset"
| "extension_entries bs limits previous_type expected_offset (entry # es) =
     bindr (get_u32 entry 0) (\<lambda>section_type.
     bindr (ensure (\<not> (section_type = 0 \<or> section_type \<le> previous_type))
       (Xbf_invalid ''XBF extension types are zero, duplicated, or unordered'')) (\<lambda>_.
     bindr (get_u32 entry 4) (\<lambda>flags.
     bindr (ensure (and flags (not OPTIONAL_FLAG) = 0)
       (Xbf_invalid ''XBF extension contains unsupported flags'')) (\<lambda>_.
     bindr (ensure (and flags OPTIONAL_FLAG \<noteq> 0)
       (Xbf_invalid ''XBF contains an unknown required extension section'')) (\<lambda>_.
     bindr (get_u64 entry 8) (\<lambda>offset.
     bindr (get_u64 entry 16) (\<lambda>len.
     bindr (ensure (unat len \<le> max_section_size limits)
       (Xbf_invalid ''XBF extension section exceeds the configured limit'')) (\<lambda>_.
     bindr (ensure (offset = expected_offset)
       (Xbf_invalid ''XBF extension sections are unordered, overlapping, or have gaps'')) (\<lambda>_.
     bindr (ok_or (Xbf_invalid ''XBF extension bounds overflow'') (checked_add_u64 offset len)) (\<lambda>stop.
     bindr (ok_or (Xbf_invalid ''XBF extension is outside the file'')
       (get_range bs (unat offset) (unat stop))) (\<lambda>payload.
     bindr (get_u32 entry 24) (\<lambda>crc.
     bindr (ensure (crc = crc32c payload) (Xbf_invalid ''XBF extension checksum does not match'')) (\<lambda>_.
     extension_entries bs limits section_type stop es)))))))))))))"

definition validate_extensions ::
  "bytes \<Rightarrow> bytes \<Rightarrow> u64 \<Rightarrow> xbf_limits \<Rightarrow> (xbf_error, unit) result" where
  "validate_extensions bs header data_end limits =
     bindr (extension_entries bs limits 0 data_end
       (chunks_exact ENTRY_SIZE (drop XBF_HEADER_SIZE header))) (\<lambda>expected_offset.
     ensure (unat expected_offset = length bs)
       (Xbf_invalid ''XBF sections are unordered, overlapping, or have trailing bytes''))"

fun decode_entries ::
  "nat \<Rightarrow> bytes \<Rightarrow> nat \<Rightarrow> u64 \<Rightarrow> u64 \<Rightarrow> xbf_limits \<Rightarrow> (xbf_error, (u64 \<times> u64 \<times> bool) list) result" where
  "decode_entries 0 directory cursor data_offset data_end limits = Inr []"
| "decode_entries (Suc n) directory cursor data_offset data_end limits =
     bindr (get_u64 directory cursor) (\<lambda>offset.
     bindr (get_u64 directory (cursor + 8)) (\<lambda>len.
     bindr (get_u32 directory (cursor + 16)) (\<lambda>flags.
     bindr (if and flags (not 0x01) \<noteq> 0 then Inr True
            else bindr (get_u32 directory (cursor + 20)) (\<lambda>r. Inr (r \<noteq> 0))) (\<lambda>bad.
     bindr (ensure (\<not> bad)
       (Xbf_invalid ''XBF record directory contains unknown flags or reserved data'')) (\<lambda>_.
     bindr (ok_or (Xbf_invalid ''record directory entry overflows'') (checked_add_u64 offset len)) (\<lambda>stop.
     bindr (ensure (\<not> (offset < data_offset \<or> data_end < stop))
       (Xbf_invalid ''record directory entry is outside record data'')) (\<lambda>_.
     bindr (ensure (unat len \<le> max_record_size limits)
       (Xbf_invalid ''record payload exceeds the configured limit'')) (\<lambda>_.
     bindr (decode_entries n directory (cursor + DIRECTORY_ENTRY_SIZE) data_offset data_end limits) (\<lambda>es.
     Inr ((offset, len, and flags 0x01 \<noteq> 0) # es))))))))))"

fun entries_overlap :: "(u64 \<times> u64 \<times> bool) list \<Rightarrow> bool" where
  "entries_overlap ((o1, l1, d1) # (o2, l2, d2) # es) =
     ((case checked_add_u64 o1 l1 of None \<Rightarrow> False | Some stop \<Rightarrow> o2 < stop) \<or>
      entries_overlap ((o2, l2, d2) # es))"
| "entries_overlap _ = False"

fun decode_entry_records ::
  "(bytes \<Rightarrow> (string, json) result) \<Rightarrow> bytes \<Rightarrow> xbf_field list \<Rightarrow> xbf_limits \<Rightarrow>
     (u64 \<times> u64 \<times> bool) list \<Rightarrow> (xbf_error, xbf_record list) result" where
  "decode_entry_records from_slice bs fds limits [] = Inr []"
| "decode_entry_records from_slice bs fds limits ((offset, len, deleted) # es) =
     bindr (ok_or (Xbf_invalid ''record range overflows'') (checked_add_u64 offset len)) (\<lambda>stop.
     bindr (ok_or (Xbf_invalid ''record range is outside the XBF file'')
       (get_range bs (unat offset) (unat stop))) (\<lambda>payload.
     bindr (decode_record from_slice payload fds limits) (\<lambda>vs.
     bindr (decode_entry_records from_slice bs fds limits es) (\<lambda>rs.
     Inr (\<lparr>xr_deleted = deleted, xr_values = vs\<rparr> # rs)))))"

text \<open>
  The checks of the fixed header, in the order of the source; the result is the header
  with its extension directory.
\<close>

definition decode_header :: "bytes \<Rightarrow> xbf_limits \<Rightarrow> (xbf_error, bytes) result" where
  "decode_header bs limits =
     bindr (validate_limits limits) (\<lambda>_.
     bindr (ensure (length bs \<le> max_file_size limits)
       (Xbf_invalid ''XBF file exceeds the configured limit'')) (\<lambda>_.
     bindr (ensure (XBF_HEADER_SIZE \<le> length bs) (Xbf_invalid ''XBF header is truncated'')) (\<lambda>_.
     let fixed_header = take XBF_HEADER_SIZE bs in
     bindr (ensure (take (length XBF_MAGIC) fixed_header = XBF_MAGIC)
       (Xbf_invalid ''XBF magic is invalid'')) (\<lambda>_.
     bindr (get_u16 fixed_header 4) (\<lambda>major.
     bindr (ensure (major = VERSION_MAJOR)
       (Xbf_invalid (''unsupported XBF major version '' @ show_nat (unat major)))) (\<lambda>_.
     bindr (get_u16 fixed_header 6) (\<lambda>minor.
     bindr (get_u32 fixed_header 8) (\<lambda>flags.
     bindr (ensure (flags = HEADER_FLAGS)
       (Xbf_invalid ''XBF header contains unknown feature flags'')) (\<lambda>_.
     bindr (get_u32 fixed_header HEADER_LENGTH_OFFSET) (\<lambda>hl.
     let header_length = unat hl in
     bindr (ensure (\<not> (minor = VERSION_MINOR \<and> header_length \<noteq> XBF_HEADER_SIZE))
       (Xbf_invalid ''XBF header length is not 100'')) (\<lambda>_.
     bindr (ensure (\<not> (header_length < XBF_HEADER_SIZE \<or> length bs < header_length))
       (Xbf_invalid (''XBF header length '' @ show_nat header_length @ '' is outside the file''))) (\<lambda>_.
     let header = take header_length bs in
     bindr (ensure (header_length - XBF_HEADER_SIZE \<le> max_section_size limits)
       (Xbf_invalid ''XBF extension directory exceeds the configured limit'')) (\<lambda>_.
     bindr (ensure ((header_length - XBF_HEADER_SIZE) mod ENTRY_SIZE = 0)
       (Xbf_invalid ''XBF extension directory length is invalid'')) (\<lambda>_.
     bindr (get_u32 header RESERVED) (\<lambda>reserved.
     bindr (ensure (reserved = 0) (Xbf_invalid ''XBF header reserved field is non-zero'')) (\<lambda>_.
     bindr (get_u32 header HEADER_CRC) (\<lambda>crc.
     bindr (ensure (crc = crc32c_with_zeroed_range header HEADER_CRC (HEADER_CRC + 4))
       (Xbf_invalid ''XBF header checksum does not match'')) (\<lambda>_.
     Inr header))))))))))))))))))"

definition decode_with_limits ::
  "(json \<Rightarrow> (string, bytes) result) \<Rightarrow> (bytes \<Rightarrow> (string, json) result) \<Rightarrow> bytes \<Rightarrow> xbf_limits \<Rightarrow>
     (xbf_error, xbf_table) result" where
  "decode_with_limits to_vec from_slice bs limits =
     bindr (decode_header bs limits) (\<lambda>header.
     bindr (get_u64 header SCHEMA_OFFSET) (\<lambda>schema_offset.
     bindr (get_u64 header SCHEMA_LENGTH) (\<lambda>schema_length.
     bindr (get_u64 header DIRECTORY_OFFSET) (\<lambda>directory_offset.
     bindr (get_u64 header DIRECTORY_LENGTH) (\<lambda>directory_length.
     bindr (get_u64 header DATA_OFFSET) (\<lambda>data_offset.
     bindr (get_u64 header DATA_LENGTH) (\<lambda>data_length.
     bindr (xsection bs schema_offset schema_length limits ''schema'') (\<lambda>schema.
     bindr (xsection bs directory_offset directory_length limits ''record directory'') (\<lambda>directory.
     bindr (xsection bs data_offset data_length limits ''record data'') (\<lambda>data.
     bindr (ok_or (Xbf_invalid ''schema section bounds overflow'')
       (checked_add_u64 schema_offset schema_length)) (\<lambda>schema_end.
     bindr (ok_or (Xbf_invalid ''record directory bounds overflow'')
       (checked_add_u64 directory_offset directory_length)) (\<lambda>directory_end.
     bindr (ok_or (Xbf_invalid ''record data bounds overflow'')
       (checked_add_u64 data_offset data_length)) (\<lambda>data_end.
     bindr (ensure (\<not> (unat schema_offset < length header \<or> directory_offset < schema_end \<or>
         unat directory_offset < length header \<or> data_offset < directory_end \<or>
         unat data_offset < length header \<or> length bs < unat data_end))
       (Xbf_invalid ''XBF sections are unordered, overlapping, or have trailing bytes'')) (\<lambda>_.
     bindr (validate_extensions bs header data_end limits) (\<lambda>_.
     bindr (get_u32 header SCHEMA_CRC) (\<lambda>schema_crc.
     bindr (ensure (schema_crc = crc32c schema) (Xbf_invalid ''XBF schema checksum does not match'')) (\<lambda>_.
     bindr (decode_schema schema limits) (\<lambda>fds.
     bindr (get_u32 header DIRECTORY_CRC) (\<lambda>directory_crc.
     bindr (ensure (directory_crc = crc32c directory)
       (Xbf_invalid ''XBF record-directory checksum does not match'')) (\<lambda>_.
     bindr (get_u64 header RECORD_COUNT) (\<lambda>rc.
     let record_count = unat rc in
     bindr (ensure (record_count \<le> max_records limits)
       (Xbf_invalid ''record count exceeds the configured limit'')) (\<lambda>_.
     bindr (ok_or (Xbf_invalid ''record directory length overflows'')
       (checked_mul record_count DIRECTORY_ENTRY_SIZE)) (\<lambda>expected.
     bindr (ensure (length directory = expected)
       (Xbf_invalid ''record directory length does not match record count'')) (\<lambda>_.
     bindr (decode_entries record_count directory 0 data_offset data_end limits) (\<lambda>entries.
     bindr (ensure (\<not> entries_overlap (sort_key fst entries))
       (Xbf_invalid ''XBF record directory entries overlap'')) (\<lambda>_.
     bindr (get_u32 header DATA_CRC) (\<lambda>data_crc.
     bindr (ensure (data_crc = crc32c data) (Xbf_invalid ''XBF record-data checksum does not match'')) (\<lambda>_.
     bindr (decode_entry_records from_slice bs fds limits entries) (\<lambda>rs.
     bindr (validate_constraints to_vec fds rs) (\<lambda>_.
     bindr (get_u64 header GENERATION) (\<lambda>generation.
     Inr \<lparr>xt_generation = generation, xt_fields = fds, xt_records = rs\<rparr>)))))))))))))))))))))))))))))))"

definition decode ::
  "(json \<Rightarrow> (string, bytes) result) \<Rightarrow> (bytes \<Rightarrow> (string, json) result) \<Rightarrow> bytes \<Rightarrow>
     (xbf_error, xbf_table) result" where
  "decode to_vec from_slice bs = decode_with_limits to_vec from_slice bs xbf_limits_default"

section \<open>The header that is written is the header that is read\<close>

definition header_bytes ::
  "u64 \<Rightarrow> u64 \<Rightarrow> u32 \<Rightarrow> u64 \<Rightarrow> u64 \<Rightarrow> u32 \<Rightarrow> u64 \<Rightarrow> u64 \<Rightarrow> u32 \<Rightarrow> u64 \<Rightarrow> u64 \<Rightarrow> u32 \<Rightarrow> bytes" where
  "header_bytes so sl sc dio dil dic dao dal dac rc gen crc =
     XBF_MAGIC @ u16_to_le VERSION_MAJOR @ u16_to_le VERSION_MINOR @ u32_to_le HEADER_FLAGS @
     u32_to_le (word_of_nat XBF_HEADER_SIZE) @ u64_to_le so @ u64_to_le sl @ u32_to_le sc @
     u64_to_le dio @ u64_to_le dil @ u32_to_le dic @ u64_to_le dao @ u64_to_le dal @ u32_to_le dac @
     u64_to_le rc @ u64_to_le gen @ u32_to_le crc @ u32_to_le 0"

lemma length_XBF_MAGIC [simp]: "length XBF_MAGIC = 4"
  by (simp add: XBF_MAGIC_def)

lemma length_header_bytes [simp]:
  "length (header_bytes so sl sc dio dil dic dao dal dac rc gen crc) = 100"
  by (simp add: header_bytes_def)

lemma put_tail:
  assumes "length p = i" "length x \<le> n"
  shows "copy_slice (p @ replicate n 0) i x = (p @ x) @ replicate (n - length x) 0"
  using assms by (simp add: copy_slice_def)

lemma encode_header_Inr:
  assumes "encode_header gen rcn so dio dao schema directory data = Inr h"
  shows "h = header_bytes (word_of_nat so) (word_of_nat (length schema)) (crc32c schema)
      (word_of_nat dio) (word_of_nat (length directory)) (crc32c directory)
      (word_of_nat dao) (word_of_nat (length data)) (crc32c data) (word_of_nat rcn) gen
      (crc32c (header_bytes (word_of_nat so) (word_of_nat (length schema)) (crc32c schema)
        (word_of_nat dio) (word_of_nat (length directory)) (crc32c directory)
        (word_of_nat dao) (word_of_nat (length data)) (crc32c data) (word_of_nat rcn) gen 0))"
  using assms unfolding encode_header_def Let_def u64_from_usize_def bindr_Inr_iff ok_or_Inr_iff
    u64_try_from_Some_iff put_u16_def put_u32_def put_u64_def header_bytes_def
  by (auto simp: layout_defs copy_slice_def)

lemma get_at:
  "cursor_at bs c (u16_to_le a @ rest) \<Longrightarrow> get_u16 bs c = Inr a"
  "cursor_at bs c (u32_to_le b @ rest) \<Longrightarrow> get_u32 bs c = Inr b"
  "cursor_at bs c (u64_to_le d @ rest) \<Longrightarrow> get_u64 bs c = Inr d"
  using cursor_at_subslice [of bs c "u16_to_le a" rest] cursor_at_subslice [of bs c "u32_to_le b" rest]
    cursor_at_subslice [of bs c "u64_to_le d" rest] cursor_at_length [of bs c]
  by (auto simp: get_u16_def get_u32_def get_u64_def get_range_def)

lemma header_reads:
  fixes so sl sc dio dil dic dao dal dac rc gen crc
  defines "h \<equiv> header_bytes so sl sc dio dil dic dao dal dac rc gen crc"
  shows "take 4 h = XBF_MAGIC" "get_u16 h 4 = Inr VERSION_MAJOR"
    "get_u16 h 6 = Inr VERSION_MINOR" "get_u32 h 8 = Inr HEADER_FLAGS"
    "get_u32 h HEADER_LENGTH_OFFSET = Inr (word_of_nat XBF_HEADER_SIZE)"
    "get_u64 h SCHEMA_OFFSET = Inr so" "get_u64 h SCHEMA_LENGTH = Inr sl" "get_u32 h SCHEMA_CRC = Inr sc"
    "get_u64 h DIRECTORY_OFFSET = Inr dio" "get_u64 h DIRECTORY_LENGTH = Inr dil"
    "get_u32 h DIRECTORY_CRC = Inr dic" "get_u64 h DATA_OFFSET = Inr dao"
    "get_u64 h DATA_LENGTH = Inr dal" "get_u32 h DATA_CRC = Inr dac"
    "get_u64 h RECORD_COUNT = Inr rc" "get_u64 h GENERATION = Inr gen"
    "get_u32 h HEADER_CRC = Inr crc" "get_u32 h RESERVED = Inr 0"
  unfolding h_def header_bytes_def
  by (simp_all add: get_u16_def get_u32_def get_u64_def get_range_def subslice_def layout_defs)

lemma header_checksum:
  "crc32c_with_zeroed_range (header_bytes so sl sc dio dil dic dao dal dac rc gen crc) HEADER_CRC (HEADER_CRC + 4)
   = crc32c (header_bytes so sl sc dio dil dic dao dal dac rc gen 0)"
proof -
  have "replicate 4 (0 :: u8) = [0, 0, 0, 0]" by (simp add: eval_nat_numeral)
  then have z: "u32_to_le 0 = replicate 4 0" by (simp add: u32_to_le_def)
  show ?thesis
    using crc32c_zeroed_range [of "XBF_MAGIC @ u16_to_le VERSION_MAJOR @ u16_to_le VERSION_MINOR @ u32_to_le HEADER_FLAGS @
     u32_to_le (word_of_nat XBF_HEADER_SIZE) @ u64_to_le so @ u64_to_le sl @ u32_to_le sc @
     u64_to_le dio @ u64_to_le dil @ u32_to_le dic @ u64_to_le dao @ u64_to_le dal @ u32_to_le dac @
     u64_to_le rc @ u64_to_le gen" 92 "u32_to_le crc" 96 "u32_to_le 0"]
    by (simp add: header_bytes_def HEADER_CRC_def z)
qed

lemma decode_header_written:
  assumes bs: "bs = header_bytes so sl sc dio dil dic dao dal dac rc gen
      (crc32c (header_bytes so sl sc dio dil dic dao dal dac rc gen 0)) @ rest"
    and lim: "validate_limits limits = Inr ()" "length bs \<le> max_file_size limits"
  shows "decode_header bs limits = Inr (header_bytes so sl sc dio dil dic dao dal dac rc gen
      (crc32c (header_bytes so sl sc dio dil dic dao dal dac rc gen 0)))"
proof -
  let ?h = "header_bytes so sl sc dio dil dic dao dal dac rc gen
      (crc32c (header_bytes so sl sc dio dil dic dao dal dac rc gen 0))"
  have t: "take XBF_HEADER_SIZE bs = ?h" by (simp add: bs XBF_HEADER_SIZE_def)
  have len: "XBF_HEADER_SIZE \<le> length bs" by (simp add: bs XBF_HEADER_SIZE_def)
  have u: "unat (word_of_nat XBF_HEADER_SIZE :: u32) = XBF_HEADER_SIZE"
    by (simp add: XBF_HEADER_SIZE_def unat_of_nat)
  show ?thesis
    unfolding decode_header_def Let_def
    using lim len by (simp add: t header_reads header_checksum u not_less)
qed

section \<open>The record directory\<close>

fun entry_list :: "nat \<Rightarrow> bytes list \<Rightarrow> xbf_record list \<Rightarrow> (u64 \<times> u64 \<times> bool) list" where
  "entry_list off (p # ps) (r # rs) =
     (word_of_nat off, word_of_nat (length p), xr_deleted r) # entry_list (off + length p) ps rs"
| "entry_list off _ _ = []"

fun entry_bytes :: "u64 \<times> u64 \<times> bool \<Rightarrow> bytes" where
  "entry_bytes (off, len, d) = u64_to_le off @ u64_to_le len @ u32_to_le (if d then 1 else 0) @ u32_to_le 0"

lemma length_entry_bytes [simp]: "length (entry_bytes e) = 24"
  by (cases e) simp

lemma length_concat_entry_bytes [simp]: "length (concat (map entry_bytes es)) = 24 * length es"
  by (induction es) simp_all

lemma encode_entries_Inr:
  assumes "encode_entries to_vec limits fds dao dir data rs = Inr (dir', data')"
  shows "\<exists>ps. list_all2 (\<lambda>r p. encode_record to_vec fds r limits = Inr p) rs ps \<and>
    data' = data @ concat ps \<and>
    dir' = dir @ concat (map entry_bytes (entry_list (dao + length data) ps rs)) \<and>
    (rs \<noteq> [] \<longrightarrow> dao + length data' < usize_limit)"
  using assms
proof (induction rs arbitrary: dir data)
  case Nil
  then show ?case by auto
next
  case (Cons r rs)
  then obtain p where p: "encode_record to_vec fds r limits = Inr p"
    and b: "dao + (length data + length p) < usize_limit"
    and rest: "encode_entries to_vec limits fds dao
      (dir @ u64_to_le (word_of_nat (dao + length data)) @ u64_to_le (word_of_nat (length p)) @
        u32_to_le (if xr_deleted r then 1 else 0) @ u32_to_le 0) (data @ p) rs = Inr (dir', data')"
    by (auto simp: bindr_Inr_iff xchecked_add_def u64_from_usize_def ok_or_Inr_iff checked_add_Some_iff
        u64_try_from_Some_iff)
  from Cons.IH [OF rest] obtain ps where
    ps: "list_all2 (\<lambda>r p. encode_record to_vec fds r limits = Inr p) rs ps"
    "data' = data @ p @ concat ps"
    "dir' = dir @ entry_bytes (word_of_nat (dao + length data), word_of_nat (length p), xr_deleted r) @
      concat (map entry_bytes (entry_list (dao + length (data @ p)) ps rs))"
    "rs \<noteq> [] \<longrightarrow> dao + length data' < usize_limit"
    by auto
  have "rs = [] \<Longrightarrow> ps = []" using ps(1) by simp
  with p ps b show ?case by (intro exI [of _ "p # ps"]) (auto simp: add.assoc)
qed

lemma length_entry_list: "length ps = length rs \<Longrightarrow> length (entry_list off ps rs) = length rs"
  by (induction off ps rs rule: entry_list.induct) auto

definition entry_ok :: "nat \<Rightarrow> nat \<Rightarrow> nat \<Rightarrow> u64 \<times> u64 \<times> bool \<Rightarrow> bool" where
  "entry_ok lo hi m e \<longleftrightarrow> lo \<le> unat (fst e) \<and> unat (fst e) + unat (fst (snd e)) \<le> hi \<and>
     unat (fst (snd e)) \<le> m"

lemma entry_list_ok:
  assumes "off + length (concat ps) \<le> hi" "hi < usize_limit" "lo \<le> off"
    and "\<And>p. p \<in> set ps \<Longrightarrow> length p \<le> m"
  shows "list_all (entry_ok lo hi m) (entry_list off ps rs)"
  using assms
proof (induction off ps rs rule: entry_list.induct)
  case (1 off p ps r rs)
  then have "entry_ok lo hi m (word_of_nat off, word_of_nat (length p), xr_deleted r)"
    by (simp add: entry_ok_def unat_u64_of_nat)
  with 1 show ?case by simp
qed auto

lemma checked_add_u64_ok:
  "unat a + unat b < usize_limit \<Longrightarrow> checked_add_u64 a b = Some (a + b) \<and> unat (a + b) = unat a + unat b"
  using checked_add_u64_Some [of a b "a + b"] by (simp add: checked_add_u64_def usize_limit_def)

lemma decode_entries_at:
  assumes "cursor_at directory c (concat (map entry_bytes es) @ rest)"
    and "list_all (entry_ok (unat data_offset) (unat data_end) (max_record_size limits)) es"
  shows "decode_entries (length es) directory c data_offset data_end limits = Inr es"
  using assms
proof (induction es arbitrary: c)
  case Nil
  show ?case by simp
next
  case (Cons e es)
  obtain off len d where e: "e = (off, len, d)" by (cases e)
  let ?tl = "concat (map entry_bytes es) @ rest"
  have at0: "cursor_at directory c (u64_to_le off @ u64_to_le len @ u32_to_le (if d then 1 else 0) @
      u32_to_le 0 @ ?tl)"
    using Cons.prems(1) by (simp add: e)
  have at1: "cursor_at directory (c + 8) (u64_to_le len @ u32_to_le (if d then 1 else 0) @ u32_to_le 0 @ ?tl)"
    using cursor_at_skip [OF at0] by simp
  have at2: "cursor_at directory (c + 16) (u32_to_le (if d then 1 else 0) @ u32_to_le 0 @ ?tl)"
    using cursor_at_skip [OF at1] by (simp add: add.commute)
  have at3: "cursor_at directory (c + 20) (u32_to_le 0 @ ?tl)"
    using cursor_at_skip [OF at2] by (simp add: add.commute)
  have at4: "cursor_at directory (c + DIRECTORY_ENTRY_SIZE) ?tl"
    using cursor_at_skip [OF at3] by (simp add: add.commute DIRECTORY_ENTRY_SIZE_def)
  have ok: "unat data_offset \<le> unat off" "unat off + unat len \<le> unat data_end"
    "unat len \<le> max_record_size limits"
    using Cons.prems(2) by (auto simp: e entry_ok_def)
  have sum: "checked_add_u64 off len = Some (off + len)" "unat (off + len) = unat off + unat len"
    using checked_add_u64_ok [of off len] ok(2) unat_u64_less [of data_end] by auto
  have "decode_entries (length es) directory (c + DIRECTORY_ENTRY_SIZE) data_offset data_end limits = Inr es"
    using Cons.IH [OF at4] Cons.prems(2) by simp
  then show ?case
    using ok sum
    by (simp add: e get_at(3) [OF at0] get_at(3) [OF at1] get_at(2) [OF at2] get_at(2) [OF at3]
        word_less_nat_alt)
qed

lemma entry_list_sorted:
  assumes "off + length (concat ps) < usize_limit"
  shows "sorted (map fst (entry_list off ps rs)) \<and>
    (\<forall>e \<in> set (entry_list off ps rs). off \<le> unat (fst e)) \<and> \<not> entries_overlap (entry_list off ps rs)"
  using assms
proof (induction off ps rs rule: entry_list.induct)
  case (1 off p ps r rs)
  have ih: "sorted (map fst (entry_list (off + length p) ps rs))"
    "\<forall>e \<in> set (entry_list (off + length p) ps rs). off + length p \<le> unat (fst e)"
    "\<not> entries_overlap (entry_list (off + length p) ps rs)"
    using 1 by simp_all
  have u: "unat (word_of_nat off :: u64) = off" "unat (word_of_nat (length p) :: u64) = length p"
    using "1.prems" by (simp_all add: unat_u64_of_nat)
  have sum: "checked_add_u64 (word_of_nat off) (word_of_nat (length p)) = Some (word_of_nat off + word_of_nat (length p))"
    "unat (word_of_nat off + word_of_nat (length p) :: u64) = off + length p"
    using checked_add_u64_ok [of "word_of_nat off" "word_of_nat (length p)"] u "1.prems" by simp_all
  have "\<not> entries_overlap ((word_of_nat off, word_of_nat (length p), xr_deleted r) # entry_list (off + length p) ps rs)"
  proof (cases "entry_list (off + length p) ps rs")
    case Nil
    then show ?thesis by simp
  next
    case (Cons e es)
    then have "off + length p \<le> unat (fst e)" using ih(2) by simp
    then have "\<not> fst e < word_of_nat off + word_of_nat (length p)"
      by (simp add: word_less_nat_alt sum(2))
    then show ?thesis using ih(3) Cons sum(1) by (cases e) simp
  qed
  moreover have "word_of_nat off \<le> fst e" if "e \<in> set (entry_list (off + length p) ps rs)" for e
    using ih(2) that u(1) by (fastforce simp: word_le_nat_alt)
  ultimately show ?case using ih u by (auto intro: order_trans)
qed auto

lemma decode_records_written:
  assumes "list_all2 (\<lambda>r p. encode_record to_vec fds r limits = Inr p) rs ps"
    and "bs = pre @ concat ps @ post" "length bs < usize_limit"
    and "list_all (\<lambda>r. list_all (wf_value to_vec from_slice) (xr_values r)) rs"
  shows "decode_entry_records from_slice bs (map norm_field fds) limits (entry_list (length pre) ps rs) =
    Inr (map (norm_record fds) rs)"
  using assms
proof (induction rs ps arbitrary: pre rule: list_all2_induct)
  case Nil
  show ?case by simp
next
  case (Cons r rs p ps)
  have len: "length pre + length p < usize_limit" using Cons.prems(1,2) by simp
  then have u: "unat (word_of_nat (length pre) :: u64) = length pre"
    "unat (word_of_nat (length p) :: u64) = length p" by (simp_all add: unat_u64_of_nat)
  have sum: "checked_add_u64 (word_of_nat (length pre)) (word_of_nat (length p)) =
      Some (word_of_nat (length pre) + word_of_nat (length p))"
    "unat (word_of_nat (length pre) + word_of_nat (length p) :: u64) = length pre + length p"
    using checked_add_u64_ok [of "word_of_nat (length pre)" "word_of_nat (length p)"] u len by simp_all
  have g: "get_range bs (length pre) (length pre + length p) = Some p"
    using get_range_append_mid [of pre p "concat ps @ post"] Cons.prems(1) by simp
  have "decode_record from_slice p (map norm_field fds) limits = Inr (map2 norm_value fds (xr_values r))"
    using record_roundtrip [OF Cons.hyps(1)] Cons.prems len by simp
  moreover have "decode_entry_records from_slice bs (map norm_field fds) limits
      (entry_list (length (pre @ p)) ps rs) = Inr (map (norm_record fds) rs)"
    using Cons.IH [of "pre @ p"] Cons.prems by simp
  ultimately show ?case by (simp add: sum u g norm_record_def)
qed

section \<open>Files\<close>

lemma xsection_written:
  assumes "bs = pre @ x @ post" "length bs < usize_limit" "length x \<le> max_section_size limits"
    and "i = length pre"
  shows "xsection bs (word_of_nat i) (word_of_nat (length x)) limits label = Inr x"
  using assms get_range_append_mid [of pre x post]
  by (simp add: xsection_def unat_u64_of_nat checked_add_def)

lemma encode_with_limits_Inr:
  assumes "encode_with_limits to_vec t limits = Inr bs"
  obtains schema directory data header where
    "bs = header @ schema @ directory @ data" "validate_limits limits = Inr ()"
    "length (xt_fields t) \<le> max_fields limits" "length (xt_records t) \<le> max_records limits"
    "encode_schema (xt_fields t) limits = Inr schema"
    "encode_entries to_vec limits (xt_fields t) (100 + length schema + length (xt_records t) * 24) [] []
      (xt_records t) = Inr (directory, data)"
    "validate_constraints to_vec (xt_fields t) (xt_records t) = Inr ()"
    "length schema \<le> max_section_size limits" "length directory \<le> max_section_size limits"
    "length data \<le> max_section_size limits"
    "encode_header (xt_generation t) (length (xt_records t)) 100 (100 + length schema)
      (100 + length schema + length (xt_records t) * 24) schema directory data = Inr header"
    "100 + length schema + length directory + length data \<le> max_file_size limits"
  using assms that unfolding encode_with_limits_def Let_def XBF_HEADER_SIZE_def DIRECTORY_ENTRY_SIZE_def
    xchecked_add_def check_section_size_def
  by (auto simp: bindr_Inr_iff ok_or_Inr_iff ensure_Inr_iff checked_add_Some_iff checked_mul_Some_iff
      split: prod.splits)

lemma list_all2_partner1: "list_all2 P xs ys \<Longrightarrow> x \<in> set xs \<Longrightarrow> \<exists>y \<in> set ys. P x y"
  by (induction rule: list_all2_induct) auto

lemma list_all2_partner2: "list_all2 P xs ys \<Longrightarrow> y \<in> set ys \<Longrightarrow> \<exists>x \<in> set xs. P x y"
  by (induction rule: list_all2_induct) auto

lemma decode_written:
  assumes enc: "encode_schema fds limits = Inr schema"
    and ent: "encode_entries to_vec limits fds dao [] [] rs = Inr (directory, data)"
    and dao: "dao = 100 + length schema + length rs * 24"
    and hdr: "encode_header gen (length rs) 100 (100 + length schema) dao schema directory data = Inr header"
    and bs: "bs = header @ schema @ directory @ data"
    and lim: "validate_limits limits = Inr ()" "length fds \<le> max_fields limits" "length rs \<le> max_records limits"
      "length schema \<le> max_section_size limits" "length directory \<le> max_section_size limits"
      "length data \<le> max_section_size limits"
      "100 + length schema + length directory + length data \<le> max_file_size limits"
      "max_file_size limits < usize_limit"
    and con: "validate_constraints to_vec fds rs = Inr ()"
    and utf8: "list_all (\<lambda>f. valid_utf8 (string_bytes (xf_name f))) fds"
    and wf: "list_all (\<lambda>r. list_all (wf_value to_vec from_slice) (xr_values r)) rs"
  shows "decode_with_limits to_vec from_slice bs limits =
    Inr \<lparr>xt_generation = gen, xt_fields = map norm_field fds, xt_records = map (norm_record fds) rs\<rparr>"
proof -
  obtain ps where ps: "list_all2 (\<lambda>r p. encode_record to_vec fds r limits = Inr p) rs ps"
    "data = concat ps" "directory = concat (map entry_bytes (entry_list dao ps rs))"
    using encode_entries_Inr [OF ent] by auto
  let ?es = "entry_list dao ps rs"
  have n: "length ?es = length rs" using ps(1) list_all2_lengthD length_entry_list by metis
  then have dl: "length directory = 24 * length rs" by (simp add: ps(3))
  have hl: "length header = 100" using encode_header_Inr [OF hdr] by simp
  have len: "length bs < usize_limit" "length bs \<le> max_file_size limits"
    "100 + length schema + length directory + length data < usize_limit"
    using lim hl by (simp_all add: bs)
  obtain so sl dio dil dao' dal rc :: u64 where w: "so = word_of_nat 100" "sl = word_of_nat (length schema)"
    "dio = word_of_nat (100 + length schema)" "dil = word_of_nat (length directory)"
    "dao' = word_of_nat dao" "dal = word_of_nat (length data)" "rc = word_of_nat (length rs)" by blast
  have ub: "100 < usize_limit" "length schema < usize_limit" "100 + length schema < usize_limit"
    "length directory < usize_limit" "dao < usize_limit" "length data < usize_limit" "length rs < usize_limit"
    using len(3) dl dao by simp_all
  have u: "unat so = 100" "unat sl = length schema" "unat dio = 100 + length schema"
    "unat dil = length directory" "unat dao' = dao" "unat dal = length data" "unat rc = length rs"
    using ub by (simp_all only: w unat_u64_of_nat)
  have db: "dao + length data = length bs" by (simp add: bs hl dl dao)
  have sum: "checked_add_u64 so sl = Some (so + sl)" "unat (so + sl) = 100 + length schema"
    "checked_add_u64 dio dil = Some (dio + dil)" "unat (dio + dil) = dao"
    "checked_add_u64 dao' dal = Some (dao' + dal)" "unat (dao' + dal) = length bs"
    using checked_add_u64_ok [of so sl] checked_add_u64_ok [of dio dil] checked_add_u64_ok [of dao' dal]
      len(1,3) u db dl dao by simp_all
  have sec1: "xsection bs so sl limits ''schema'' = Inr schema"
    unfolding w by (rule xsection_written [OF _ len(1) lim(4), of header "directory @ data"])
      (simp_all add: bs hl)
  have sec2: "xsection bs dio dil limits ''record directory'' = Inr directory"
    unfolding w by (rule xsection_written [OF _ len(1) lim(5), of "header @ schema" data])
      (simp_all add: bs hl)
  have sec3: "xsection bs dao' dal limits ''record data'' = Inr data"
    unfolding w by (rule xsection_written [OF _ len(1) lim(6), of "header @ schema @ directory" "[]"])
      (simp_all add: bs hl dl dao)
  let ?h = "header_bytes so sl (crc32c schema) dio dil (crc32c directory) dao' dal (crc32c data) rc gen"
  have h: "header = ?h (crc32c (?h 0))" unfolding w by (rule encode_header_Inr [OF hdr])
  have dh: "decode_header bs limits = Inr header"
    using decode_header_written [OF _ lim(1) len(2)] bs unfolding h by blast
  note reads = header_reads [of so sl "crc32c schema" dio dil "crc32c directory" dao' dal "crc32c data"
      rc gen "crc32c (?h 0)", folded h]
  have ext: "validate_extensions bs header (dao' + dal) limits = Inr ()"
    by (simp add: validate_extensions_def hl XBF_HEADER_SIZE_def ENTRY_SIZE_def chunks_exact.simps sum)
  have sch: "decode_schema schema limits = Inr (map norm_field fds)"
    using schema_roundtrip [OF enc _ lim(2) utf8] len(3) by simp
  have pl: "length p \<le> max_record_size limits" if p: "p \<in> set ps" for p
  proof -
    obtain r where "encode_record to_vec fds r limits = Inr p"
      using list_all2_partner2 [OF ps(1) p] by blast
    then show ?thesis by (auto simp: encode_record_def bindr_Inr_iff ensure_Inr_iff)
  qed
  have "list_all (entry_ok dao (length bs) (max_record_size limits)) ?es"
    using entry_list_ok [of dao ps "length bs" dao "max_record_size limits" rs] pl len(1) db ps(2) by simp
  then have des: "decode_entries (length rs) directory 0 dao' (dao' + dal) limits = Inr ?es"
    using decode_entries_at [of directory 0 ?es "[]" dao' "dao' + dal" limits] n u sum ps(3)
      cursor_at_start [of directory] by simp
  have srt: "\<not> entries_overlap (sort_key fst ?es)"
    using entry_list_sorted [of dao ps rs] db len(1) ps(2) by (simp add: sort_key_id_if_sorted)
  have recs: "decode_entry_records from_slice bs (map norm_field fds) limits ?es = Inr (map (norm_record fds) rs)"
    using decode_records_written [OF ps(1) _ len(1) wf, of "header @ schema @ directory" "[]"] ps(2)
    by (simp add: bs hl dl dao add.assoc mult.commute)
  have vals: "length (xr_values r) = length fds" if r: "r \<in> set rs" for r
  proof -
    obtain p where "encode_record to_vec fds r limits = Inr p"
      using list_all2_partner1 [OF ps(1) r] by blast
    then show ?thesis by (auto simp: encode_record_def bindr_Inr_iff ensure_Inr_iff)
  qed
  then have cons': "validate_constraints to_vec (map norm_field fds) (map (norm_record fds) rs) = Inr ()"
    using validate_constraints_norm con by simp
  have mul: "checked_mul (length rs) DIRECTORY_ENTRY_SIZE = Some (length directory)"
    using len(3) dl by (simp add: checked_mul_def DIRECTORY_ENTRY_SIZE_def)
  show ?thesis
    unfolding decode_with_limits_def Let_def
    by (simp only: dh reads sec1 sec2 sec3 sum ext sch des recs cons' mul u bindr_simps ok_or_simps ensure_simps
        srt not_False_eq_True lim(3) word_less_nat_alt hl simp_thms)
      (simp add: dao)
qed

section \<open>What decoding guarantees\<close>

definition column_keys ::
  "(json \<Rightarrow> (string, bytes) result) \<Rightarrow> xbf_field \<Rightarrow> nat \<Rightarrow> xbf_record list \<Rightarrow> (xbf_error, bytes option) result list" where
  "column_keys to_vec f i rs = map (\<lambda>r. unique_key to_vec f (xr_values r ! i)) rs"

definition keys_ok :: "xbf_field \<Rightarrow> (xbf_error, bytes option) result list \<Rightarrow> bool" where
  "keys_ok f ks \<longleftrightarrow>
     (\<exists>os. ks = map Inr os \<and> distinct (filter (\<lambda>k. k \<noteq> None) os) \<and> (xf_primary_key f \<longrightarrow> None \<notin> set os))"

lemma validate_keys_Inr:
  "validate_keys to_vec f i rs keys = Inr () \<Longrightarrow>
     \<exists>os. column_keys to_vec f i rs = map Inr os \<and> distinct (filter (\<lambda>k. k \<noteq> None) os) \<and>
       (xf_primary_key f \<longrightarrow> None \<notin> set os) \<and> (\<forall>k \<in> set keys. Some k \<notin> set os)"
proof (induction rs arbitrary: keys)
  case Nil
  show ?case by (simp add: column_keys_def)
next
  case (Cons r rs)
  then obtain ko where ko: "unique_key to_vec f (xr_values r ! i) = Inr ko"
    by (auto simp: bindr_Inr_iff split: if_splits)
  show ?case
  proof (cases ko)
    case None
    then have "validate_keys to_vec f i rs keys = Inr ()" "\<not> xf_primary_key f"
      using Cons.prems ko by (auto split: if_splits)
    from Cons.IH [OF this(1)] obtain os where
      "column_keys to_vec f i rs = map Inr os" "distinct (filter (\<lambda>k. k \<noteq> None) os)"
      "\<forall>k \<in> set keys. Some k \<notin> set os" by blast
    with \<open>\<not> xf_primary_key f\<close> ko None show ?thesis
      by (intro exI [of _ "None # os"]) (auto simp: column_keys_def)
  next
    case (Some k)
    then have v: "validate_keys to_vec f i rs (k # keys) = Inr ()" "k \<notin> set keys"
      using Cons.prems ko by (auto split: if_splits)
    from Cons.IH [OF v(1)] obtain os where
      "column_keys to_vec f i rs = map Inr os" "distinct (filter (\<lambda>k. k \<noteq> None) os)"
      "xf_primary_key f \<longrightarrow> None \<notin> set os" "\<forall>k \<in> set (k # keys). Some k \<notin> set os" by blast
    with v(2) ko Some show ?thesis by (intro exI [of _ "ko # os"]) (auto simp: column_keys_def)
  qed
qed

lemma validate_fields_Inr:
  assumes "validate_fields to_vec i suf rs pk = Inr n" "suf = drop i fds" "i \<le> j" "j < length fds"
    and "xf_unique (fds ! j) \<or> xf_primary_key (fds ! j)"
  shows "keys_ok (fds ! j) (column_keys to_vec (fds ! j) j rs)"
  using assms
proof (induction suf arbitrary: i pk)
  case Nil
  then show ?case by simp
next
  case (Cons f suf)
  have f: "fds ! i = f" "suf = drop (i + 1) fds" "i < length fds"
    using Cons.prems(2-4) by (metis nth_via_drop, metis drop_Suc Suc_eq_plus1 list.sel(3) tl_drop, simp)
  show ?case
  proof (cases "i = j")
    case True
    then have "validate_keys to_vec f i rs [] = Inr ()"
      using Cons.prems(1,5) f(1) by (auto simp: bindr_Inr_iff Let_def split: if_splits)
    from validate_keys_Inr [OF this] f(1) True show ?thesis by (auto simp: keys_ok_def)
  next
    case False
    moreover have "\<exists>pk'. validate_fields to_vec (i + 1) suf rs pk' = Inr n"
      using Cons.prems(1) by (auto simp: bindr_Inr_iff Let_def split: if_splits)
    ultimately show ?thesis using Cons.IH [OF _ f(2)] Cons.prems(3-5) by auto
  qed
qed

lemma validate_constraints_Inr:
  assumes "validate_constraints to_vec fds rs = Inr ()" "j < length fds"
    and "xf_unique (fds ! j) \<or> xf_primary_key (fds ! j)"
  shows "keys_ok (fds ! j) (column_keys to_vec (fds ! j) j rs)"
  using assms validate_fields_Inr [of to_vec 0 fds rs 0 _ fds j]
  by (auto simp: validate_constraints_def bindr_Inr_iff)

lemma decode_field_Inr:
  "decode_field bs c limits names = Inr (f, c') \<Longrightarrow>
     xf_name f \<notin> set names \<and> (xf_primary_key f \<longrightarrow> xf_unique f \<and> \<not> xf_nullable f)"
  by (auto simp: decode_field_def bindr_Inr_iff ensure_Inr_iff Let_def)

lemma decode_fields_Inr:
  "decode_fields n bs c limits names pk = Inr (fds, pk', c') \<Longrightarrow>
     length fds = n \<and> distinct (map xf_name fds) \<and> set (map xf_name fds) \<inter> set names = {} \<and>
     pk' = pk + pk_count fds \<and> list_all (\<lambda>f. xf_primary_key f \<longrightarrow> xf_unique f \<and> \<not> xf_nullable f) fds"
proof (induction n arbitrary: c names pk fds pk' c')
  case 0
  then show ?case by (simp add: pk_count_def)
next
  case (Suc n)
  then obtain f c1 fs where f: "decode_field bs c limits names = Inr (f, c1)" "fds = f # fs"
    and fs: "decode_fields n bs c1 limits (xf_name f # names) (if xf_primary_key f then pk + 1 else pk) =
      Inr (fs, pk', c')"
    by (auto simp: bindr_Inr_iff)
  from Suc.IH [OF fs] decode_field_Inr [OF f(1)] show ?case by (auto simp: f(2) pk_count_def)
qed

lemma decode_schema_Inr:
  assumes "decode_schema bs limits = Inr fds"
  shows "length fds \<le> max_fields limits \<and> distinct (map xf_name fds) \<and> pk_count fds \<le> 1 \<and>
    list_all (\<lambda>f. xf_primary_key f \<longrightarrow> xf_unique f \<and> \<not> xf_nullable f) fds"
  using assms by (auto simp: decode_schema_def bindr_Inr_iff ensure_Inr_iff dest!: decode_fields_Inr)

lemma decode_values_length:
  "decode_values from_slice limits bs c fds = Inr (vs, c') \<Longrightarrow> length vs = length fds"
  by (induction fds arbitrary: c vs c') (auto simp: bindr_Inr_iff)

lemma decode_record_width:
  "decode_record from_slice bs fds limits = Inr vs \<Longrightarrow> length vs = length fds"
  by (auto simp: decode_record_def bindr_Inr_iff dest!: decode_values_length)

lemma decode_entry_records_length:
  "decode_entry_records from_slice bs fds limits es = Inr rs \<Longrightarrow>
     length rs = length es \<and> (\<forall>r \<in> set rs. length (xr_values r) = length fds)"
  by (induction es arbitrary: rs) (auto simp: bindr_Inr_iff dest!: decode_record_width)

lemma decode_entries_length: "decode_entries n directory c lo hi limits = Inr es \<Longrightarrow> length es = n"
  by (induction n arbitrary: c es) (auto simp: bindr_Inr_iff)

section \<open>Properties\<close>

text \<open>The types a decoded value may have in a field.\<close>

fun value_typed :: "xbf_field \<Rightarrow> xbf_value \<Rightarrow> bool" where
  "value_typed f V_null = xf_nullable f"
| "value_typed f (V_boolean _) = (xf_ty f = Ty_boolean)"
| "value_typed f (V_signed32 _) = (xf_ty f = Ty_signed32 \<or> xf_ty f = Ty_signed64)"
| "value_typed f (V_signed64 _) = (xf_ty f = Ty_signed64)"
| "value_typed f (V_unsigned64 _) = (xf_ty f = Ty_unsigned64)"
| "value_typed f (V_float32 _) = (xf_ty f = Ty_float32)"
| "value_typed f (V_float64 _) = (xf_ty f = Ty_float64)"
| "value_typed f (V_string s) = (xf_ty f = Ty_string \<and> valid_utf8 (string_bytes s))"
| "value_typed f (V_bytes _) = (xf_ty f = Ty_bytes)"
| "value_typed f (V_date _) = (xf_ty f = Ty_date)"
| "value_typed f (V_timestamp _) = (xf_ty f = Ty_timestamp)"
| "value_typed f (V_uuid u) = (xf_ty f = Ty_uuid \<and> length u = 16)"
| "value_typed f (V_json _) = (xf_ty f = Ty_json)"

lemma decode_value_typed:
  "decode_value from_slice f tag payload = Inr v \<Longrightarrow>
     value_typed f v \<or> v = V_null \<and> xf_primary_key f"
  by (auto simp: decode_value_def ok_or_Inr_iff from_utf8_def bindr_Inr_iff
      split: if_splits sum.splits xbf_type.splits)

lemma decode_values_typed:
  "decode_values from_slice limits bs c fds = Inr (vs, c') \<Longrightarrow>
     list_all2 (\<lambda>f v. value_typed f v \<or> v = V_null \<and> xf_primary_key f) fds vs"
  by (induction fds arbitrary: c vs c') (auto simp: bindr_Inr_iff dest: decode_value_typed)

lemma decode_record_typed:
  "decode_record from_slice bs fds limits = Inr vs \<Longrightarrow>
     list_all2 (\<lambda>f v. value_typed f v \<or> v = V_null \<and> xf_primary_key f) fds vs"
  by (auto simp: decode_record_def bindr_Inr_iff dest!: decode_values_typed)

lemma decode_entry_records_typed:
  "decode_entry_records from_slice bs fds limits es = Inr rs \<Longrightarrow> r \<in> set rs \<Longrightarrow>
     list_all2 (\<lambda>f v. value_typed f v \<or> v = V_null \<and> xf_primary_key f) fds (xr_values r)"
  by (induction es arbitrary: rs) (auto simp: bindr_Inr_iff dest!: decode_record_typed)

lemma decode_with_limits_Inr:
  assumes "decode_with_limits to_vec from_slice bs limits = Inr t"
  shows "(\<exists>schema. decode_schema schema limits = Inr (xt_fields t)) \<and>
    (\<exists>es. decode_entry_records from_slice bs (xt_fields t) limits es = Inr (xt_records t) \<and>
      length es \<le> max_records limits) \<and>
    validate_constraints to_vec (xt_fields t) (xt_records t) = Inr ()"
  using assms
  by (auto simp: decode_with_limits_def bindr_Inr_iff ensure_Inr_iff Let_def dest!: decode_entries_length)

lemma null_has_no_key [simp]: "unique_key to_vec f V_null = Inr None"
  by (simp add: unique_key_def)

lemma primary_key_not_null:
  assumes "keys_ok f (column_keys to_vec f j rs)" "xf_primary_key f" "r \<in> set rs"
  shows "xr_values r ! j \<noteq> V_null"
proof
  assume null: "xr_values r ! j = V_null"
  obtain os where os: "map (\<lambda>r. unique_key to_vec f (xr_values r ! j)) rs = map Inr os" "None \<notin> set os"
    using assms(1,2) by (auto simp: keys_ok_def column_keys_def)
  from assms(3) null have "Inr None \<in> set (map (\<lambda>r. unique_key to_vec f (xr_values r ! j)) rs)" by force
  with os show False by auto
qed

lemma decode_encoded:
  assumes "encode_with_limits to_vec t limits = Inr bs" "wf_table to_vec from_slice t"
    and "max_file_size limits < usize_limit"
  shows "decode_with_limits to_vec from_slice bs limits = Inr (norm_table t)"
proof -
  from encode_with_limits_Inr [OF assms(1)] obtain schema directory data header where e:
    "bs = header @ schema @ directory @ data" "validate_limits limits = Inr ()"
    "length (xt_fields t) \<le> max_fields limits" "length (xt_records t) \<le> max_records limits"
    "encode_schema (xt_fields t) limits = Inr schema"
    "encode_entries to_vec limits (xt_fields t) (100 + length schema + length (xt_records t) * 24) [] []
      (xt_records t) = Inr (directory, data)"
    "validate_constraints to_vec (xt_fields t) (xt_records t) = Inr ()"
    "length schema \<le> max_section_size limits" "length directory \<le> max_section_size limits"
    "length data \<le> max_section_size limits"
    "encode_header (xt_generation t) (length (xt_records t)) 100 (100 + length schema)
      (100 + length schema + length (xt_records t) * 24) schema directory data = Inr header"
    "100 + length schema + length directory + length data \<le> max_file_size limits" .
  have "decode_with_limits to_vec from_slice bs limits =
    Inr \<lparr>xt_generation = xt_generation t, xt_fields = map norm_field (xt_fields t),
      xt_records = map (norm_record (xt_fields t)) (xt_records t)\<rparr>"
    using assms(2) by (intro decode_written [OF e(5,6) refl e(11,1-4,8-10,12) assms(3) e(7)])
      (simp_all add: wf_table_def)
  then show ?thesis by (simp add: norm_table_def)
qed

definition sample_table :: xbf_table where
  "sample_table = \<lparr>xt_generation = 3,
     xt_fields = [\<lparr>xf_name = ''id'', xf_ty = Ty_signed32, xf_nullable = False, xf_primary_key = True,
         xf_unique = False\<rparr>,
       \<lparr>xf_name = ''doc'', xf_ty = Ty_json, xf_nullable = True, xf_primary_key = False, xf_unique = False\<rparr>],
     xt_records = [\<lparr>xr_deleted = False, xr_values = [V_signed64 7, V_json JNull]\<rparr>,
       \<lparr>xr_deleted = True, xr_values = [V_signed32 8, V_null]\<rparr>]\<rparr>"

definition sample_to_vec :: "json \<Rightarrow> (string, bytes) result" where
  "sample_to_vec j = (if j = JNull then Inr (string_bytes ''null'') else Inl ''unsupported'')"

definition sample_from_slice :: "bytes \<Rightarrow> (string, json) result" where
  "sample_from_slice bs = (if bs = string_bytes ''null'' then Inr JNull else Inl ''expected value'')"

lemma sample_wf: "wf_table sample_to_vec sample_from_slice sample_table"
  by (simp add: wf_table_def sample_table_def sample_to_vec_def sample_from_slice_def string_bytes_def utf8_width_def)

lemma i32_7: "i32_try_from 7 = Some 7" by (simp add: i32_try_from_def)
lemma sample_constraints:
  "validate_constraints sample_to_vec (xt_fields sample_table) (xt_records sample_table) = Inr ()"
  by (simp add: validate_constraints_def sample_table_def unique_key_def i32_7 Let_def)
lemma sample_schema: "\<exists>s. encode_schema (xt_fields sample_table) xbf_limits_default = Inr s \<and> length s = 21"
  by (simp add: encode_schema_def sample_table_def xbf_limits_default_def u32_try_from_def Let_def check_section_size_def string_bytes_def)

lemma sample_records:
  "encode_record sample_to_vec (xt_fields sample_table) (xt_records sample_table ! 0) xbf_limits_default =
     Inr (0x10 # u32_to_le 4 @ u32_to_le 7 @ 0x70 # u32_to_le 4 @ string_bytes ''null'')"
  "encode_record sample_to_vec (xt_fields sample_table) (xt_records sample_table ! 1) xbf_limits_default =
     Inr (0x10 # u32_to_le 4 @ u32_to_le 8 @ 0 # u32_to_le 0)"
  by (simp_all add: encode_record_def sample_table_def xbf_limits_default_def encode_value_def i32_7 u32_try_from_def string_bytes_def sample_to_vec_def)

lemma encode_header_total:
  assumes "list_all (\<lambda>n. n < usize_limit) [so, length s, dio, length di, dao, length d, n]"
  shows "\<exists>h. encode_header g n so dio dao s di d = Inr h"
  using assms by (simp add: encode_header_def u64_from_usize_def u64_try_from_def Let_def usize_limit_def)

lemma xbf_limits_default_simps [simp]:
  "max_file_size xbf_limits_default = 268435456" "max_section_size xbf_limits_default = 268435456"
  "max_record_size xbf_limits_default = 16777216" "max_value_size xbf_limits_default = 16777216"
  "max_field_name xbf_limits_default = 255" "max_fields xbf_limits_default = 4096"
  "max_records xbf_limits_default = 1000000"
  by (simp_all add: xbf_limits_default_def)

lemma sample_entries:
  "\<exists>di d. encode_entries sample_to_vec xbf_limits_default (xt_fields sample_table) 169 [] []
      [xt_records sample_table ! 0, xt_records sample_table ! 1] = Inr (di, d) \<and> length di = 48 \<and> length d = 32"
  by (simp add: sample_records check_section_size_def xchecked_add_def u64_from_usize_def
        u64_try_from_def checked_add_def string_bytes_def usize_limit_def del: One_nat_def)

lemma sample_encodes_at:
  "\<exists>bs. encode_with_limits sample_to_vec (sample_table\<lparr>xt_generation := g\<rparr>) xbf_limits_default = Inr bs \<and> length bs = 201"
proof -
  let ?l = xbf_limits_default and ?t = sample_table
  obtain s where s: "encode_schema (xt_fields ?t) ?l = Inr s" "length s = 21" using sample_schema by blast
  have rs: "xt_records ?t = [xt_records ?t ! 0, xt_records ?t ! 1]" by (simp add: sample_table_def)
  obtain di d where e: "encode_entries sample_to_vec ?l (xt_fields ?t) 169 [] [] (xt_records ?t) = Inr (di, d)"
    "length di = 48" "length d = 32"
    using sample_entries rs by metis
  obtain h where h: "encode_header g 2 100 121 169 s di d = Inr h"
    using encode_header_total [of 100 s 121 di 169 d 2 g] s(2) e(2,3) by (auto simp: usize_limit_def)
  have lh: "length h = 100" using encode_header_Inr [OF h] by (simp add: header_bytes_def XBF_MAGIC_def)
  have t: "length (xt_fields ?t) = 2" "length (xt_records ?t) = 2" by (simp_all add: sample_table_def)
  show ?thesis
    by (simp add: encode_with_limits_def validate_limits_def t s e h lh sample_constraints check_section_size_def
        XBF_HEADER_SIZE_def DIRECTORY_ENTRY_SIZE_def xchecked_add_def checked_add_def checked_mul_def usize_limit_def)
qed

lemma sample_encodes: "\<exists>bs. encode_with_limits sample_to_vec sample_table xbf_limits_default = Inr bs"
  using sample_encodes_at [of 3] by (auto simp: sample_table_def)

lemma sample_decodes:
  "\<exists>bs. decode_with_limits sample_to_vec sample_from_slice bs xbf_limits_default = Inr (norm_table sample_table)"
proof -
  obtain bs where "encode_with_limits sample_to_vec sample_table xbf_limits_default = Inr bs"
    using sample_encodes by blast
  from decode_encoded [OF this sample_wf] show ?thesis by (auto simp: usize_limit_def)
qed

text \<open>
  C19. A table that decoding accepts has at most \<open>max_fields\<close> fields with distinct names and
  at most one primary key, which is never nullable; it has at most \<open>max_records\<close> records.
\<close>

theorem xbf_decoded_schema:
  assumes "decode_with_limits to_vec from_slice bs limits = Inr t"
  shows "distinct (map xf_name (xt_fields t)) \<and> pk_count (xt_fields t) \<le> 1 \<and>
    list_all (\<lambda>f. \<not> (xf_primary_key f \<and> xf_nullable f)) (xt_fields t) \<and>
    length (xt_fields t) \<le> max_fields limits \<and> length (xt_records t) \<le> max_records limits"
  using decode_with_limits_Inr [OF assms]
  by (auto simp: list_all_iff dest!: decode_schema_Inr decode_entry_records_length)

theorem xbf_decoded_schema_witness:
  "\<exists>bs. decode_with_limits sample_to_vec sample_from_slice bs xbf_limits_default = Inr (norm_table sample_table) \<and>
     distinct (map xf_name (xt_fields (norm_table sample_table))) \<and> pk_count (xt_fields (norm_table sample_table)) \<le> 1"
  using sample_decodes xbf_decoded_schema by blast

text \<open>
  C17. Every record of a table that decoding accepts has one value per field, and each value
  has the type of its field; a value is NULL only if its field is nullable.
\<close>

theorem xbf_decoded_typed:
  assumes "decode_with_limits to_vec from_slice bs limits = Inr t" "r \<in> set (xt_records t)"
  shows "list_all2 value_typed (xt_fields t) (xr_values r)"
proof -
  let ?fds = "xt_fields t"
  have ty: "list_all2 (\<lambda>f v. value_typed f v \<or> v = V_null \<and> xf_primary_key f) ?fds (xr_values r)"
    and v: "validate_constraints to_vec ?fds (xt_records t) = Inr ()"
    using decode_with_limits_Inr [OF assms(1)] assms(2) by (auto dest: decode_entry_records_typed)
  have "xr_values r ! j \<noteq> V_null" if "j < length ?fds" "xf_primary_key (?fds ! j)" for j
    using primary_key_not_null [OF validate_constraints_Inr [OF v that(1)] that(2) assms(2)] that(2) by blast
  with ty show ?thesis by (auto simp: list_all2_conv_all_nth)
qed

theorem xbf_decoded_typed_witness:
  "list_all2 value_typed (xt_fields (norm_table sample_table)) (xr_values (xt_records (norm_table sample_table) ! 1))"
proof -
  obtain bs where "decode_with_limits sample_to_vec sample_from_slice bs xbf_limits_default = Inr (norm_table sample_table)"
    using sample_decodes by blast
  from xbf_decoded_typed [OF this] show ?thesis by (simp add: norm_table_def sample_table_def)
qed

text \<open>
  C18. In a table that decoding accepts, the records hold pairwise different keys in every
  unique or primary-key field, NULL apart, and no NULL in the primary key.
\<close>

theorem xbf_decoded_unique:
  assumes "decode_with_limits to_vec from_slice bs limits = Inr t" "j < length (xt_fields t)"
    and "xf_unique (xt_fields t ! j) \<or> xf_primary_key (xt_fields t ! j)"
  shows "keys_ok (xt_fields t ! j) (column_keys to_vec (xt_fields t ! j) j (xt_records t))"
  using validate_constraints_Inr [OF _ assms(2,3)] decode_with_limits_Inr [OF assms(1)] by blast

theorem xbf_decoded_unique_witness:
  "keys_ok (xt_fields (norm_table sample_table) ! 0)
     (column_keys sample_to_vec (xt_fields (norm_table sample_table) ! 0) 0 (xt_records (norm_table sample_table)))"
proof -
  obtain bs where "decode_with_limits sample_to_vec sample_from_slice bs xbf_limits_default = Inr (norm_table sample_table)"
    using sample_decodes by blast
  from xbf_decoded_unique [OF this, of 0] show ?thesis by (simp add: norm_table_def sample_table_def norm_field_def)
qed

text \<open>
  C8. Whatever table \<open>encode_with_limits\<close> accepts, \<open>decode_with_limits\<close> reads back from the
  bytes written, up to the normal form of the format: a primary key is also marked unique,
  and a 64-bit value in a 32-bit field is stored with 32 bits.  The names and texts of the table
  are UTF-8, and the JSON reader reads back what the JSON writer wrote for each JSON value of
  the table.
\<close>

theorem xbf_roundtrip:
  assumes "encode_with_limits to_vec t limits = Inr bs" "wf_table to_vec from_slice t"
    and "max_file_size limits < usize_limit"
  shows "decode_with_limits to_vec from_slice bs limits = Inr (norm_table t)"
  using assms by (rule decode_encoded)

theorem xbf_roundtrip_witness:
  "\<exists>bs. encode_with_limits sample_to_vec sample_table xbf_limits_default = Inr bs \<and>
     decode_with_limits sample_to_vec sample_from_slice bs xbf_limits_default = Inr (norm_table sample_table)"
proof -
  obtain bs where "encode_with_limits sample_to_vec sample_table xbf_limits_default = Inr bs"
    using sample_encodes by blast
  with xbf_roundtrip [OF this sample_wf] show ?thesis by (auto simp: usize_limit_def)
qed

text \<open>
  C38. The checksum with a range read as zero, computed in one pass over the header, is the
  checksum of the header with that range overwritten by zeros.
\<close>

theorem crc32c_zeroed_range_correct:
  assumes "a \<le> b" "b \<le> length bs"
  shows "crc32c_with_zeroed_range bs a b = crc32c (take a bs @ replicate (b - a) 0 @ drop b bs)"
proof -
  have "bs = take a bs @ take (b - a) (drop a bs) @ drop b bs"
    using assms by (simp flip: take_add add: append_assoc [symmetric])
  moreover have "crc32c_with_zeroed_range (take a bs @ take (b - a) (drop a bs) @ drop b bs) a b =
      crc32c (take a bs @ replicate (b - a) 0 @ drop b bs)"
    using assms by (intro crc32c_zeroed_range) auto
  ultimately show ?thesis by simp
qed

theorem crc32c_zeroed_range_correct_witness:
  "crc32c_with_zeroed_range [1, 2, 3, 4, 5, 6] 1 4 = crc32c [1, 0, 0, 0, 5, 6]"
  using crc32c_zeroed_range_correct [of 1 4 "[1, 2, 3, 4, 5, 6]"] by (simp add: eval_nat_numeral)

end
