(* ===== verification/Xbf_Store.thy ===== *)
theory Xbf_Store
  imports Disk Xbf_Codec
begin

text \<open>
  XBF tables on disk: \<^verbatim>\<open>src/src/xbf/wal.rs\<close> and \<^verbatim>\<open>src/src/xbf/persistence.rs\<close>.  A save logs the new
  snapshot, replaces the table file through a temporary file and removes the log; recovery
  redoes or drops what the log holds.
\<close>

section \<open>Log records\<close>

definition XWL_MAGIC :: bytes where "XWL_MAGIC = [0x58, 0x57, 0x4C, 0x53]"
definition RECORD_VERSION :: u16 where "RECORD_VERSION = 1"
definition RECORD_HEADER_SIZE :: nat where "RECORD_HEADER_SIZE = 40"

definition xwl_encode_record :: "u64 \<Rightarrow> u64 \<Rightarrow> bytes \<Rightarrow> (xbf_error, bytes) result" where
  "xwl_encode_record base_generation target_generation snapshot =
     bindr (ok_or (Xbf_invalid ''XBF WAL snapshot length overflows u64'') (u64_try_from (length snapshot))) (\<lambda>len.
     Inr (XWL_MAGIC @ u16_to_le RECORD_VERSION @ u16_to_le 0 @ u64_to_le base_generation @
       u64_to_le target_generation @ u64_to_le len @ u32_to_le (crc32c snapshot) @ u32_to_le 0 @ snapshot))"

definition xwl_decode_record :: "bytes \<Rightarrow> xbf_limits \<Rightarrow> (xbf_error, u64 \<times> u64 \<times> bytes) result" where
  "xwl_decode_record payload limits =
     bindr (ensure (\<not> (length payload < RECORD_HEADER_SIZE \<or> take 4 payload \<noteq> XWL_MAGIC))
       (Xbf_invalid ''XBF WAL record header is invalid'')) (\<lambda>_.
     bindr (ensure (u16_from_le (subslice 4 6 payload) = RECORD_VERSION)
       (Xbf_invalid ''unsupported XBF WAL record version'')) (\<lambda>_.
     bindr (ensure (u16_from_le (subslice 6 8 payload) = 0 \<and> u32_from_le (subslice 36 40 payload) = 0)
       (Xbf_invalid ''XBF WAL record contains unknown flags or reserved data'')) (\<lambda>_.
     let base_generation = u64_from_le (subslice 8 16 payload);
         target_generation = u64_from_le (subslice 16 24 payload);
         len = unat (u64_from_le (subslice 24 32 payload)) in
     bindr (ok_or (Xbf_invalid ''XBF WAL snapshot range overflows'') (checked_add RECORD_HEADER_SIZE len)) (\<lambda>stop.
     bindr (ensure (stop = length payload)
       (Xbf_invalid ''XBF WAL snapshot length does not match the record'')) (\<lambda>_.
     bindr (ensure (len \<le> max_file_size limits)
       (Xbf_invalid ''XBF WAL snapshot exceeds the configured file limit'')) (\<lambda>_.
     let snapshot = drop RECORD_HEADER_SIZE payload in
     bindr (ensure (u32_from_le (subslice 32 36 payload) = crc32c snapshot)
       (Xbf_invalid ''XBF WAL snapshot checksum does not match'')) (\<lambda>_.
     Inr (base_generation, target_generation, snapshot))))))))"

definition xwl_validate_record_size :: "nat \<Rightarrow> (xbf_error, unit) result" where
  "xwl_validate_record_size len =
     ensure (len \<le> MAX_WAL_RECORD_SIZE)
       (Xbf_invalid (''XBF WAL record exceeds the txBASE WAL limit of '' @ show_nat MAX_WAL_RECORD_SIZE @ '' bytes''))"

fun xwl_decode_all :: "wal_record list \<Rightarrow> xbf_limits \<Rightarrow> (u64 \<times> u64 \<times> bytes) option \<Rightarrow>
     (xbf_error, (u64 \<times> u64 \<times> bytes) option) result" where
  "xwl_decode_all [] limits pending = Inr pending"
| "xwl_decode_all ((_, payload) # rs) limits pending =
     bindr (xwl_decode_record payload limits) (\<lambda>r. xwl_decode_all rs limits (Some r))"

section \<open>Files\<close>

text \<open>
  The message of the operating system in an I/O error is left out of the text of a log
  error.
\<close>

fun transaction_error_text :: "transaction_error \<Rightarrow> string" where
  "transaction_error_text Io = ''transaction I/O error''"
| "transaction_error_text Record_exceeds_limit = ''invalid transaction: WAL record exceeds the configured size limit''"
| "transaction_error_text Record_length_overflows = ''invalid transaction: WAL record length overflows''"
| "transaction_error_text Lsn_overflows = ''invalid transaction: WAL LSN overflows''"
| "transaction_error_text Invalid_magic = ''invalid transaction: WAL record has an invalid magic''"
| "transaction_error_text (Unexpected_lsn lsn expected) = ''invalid transaction: WAL LSN '' @ show_nat (unat lsn) @
     '' is not the expected '' @ show_nat (unat expected)"
| "transaction_error_text Transaction_not_active = ''invalid transaction: transaction is not active''"
| "transaction_error_text Transaction_id_overflows = ''invalid transaction: transaction ID overflows''"

definition wal_error :: "transaction_error \<Rightarrow> xbf_error" where
  "wal_error e = Xbf_invalid (''XBF WAL error: '' @ transaction_error_text e)"

definition wal_path :: "file_path \<Rightarrow> file_path" where
  "wal_path p = with_extension p ''xwl''"

definition temporary_path :: "file_path \<Rightarrow> file_path" where
  "temporary_path p = with_extension p ''txbase.xbf.tmp''"

abbreviation xio :: "(disk, io_error, 'a) prog \<Rightarrow> (disk, xbf_error, 'a) prog" where
  "xio \<equiv> map_errp Xbf_io"

abbreviation xwal :: "(disk, transaction_error, 'a) prog \<Rightarrow> (disk, xbf_error, 'a) prog" where
  "xwal \<equiv> map_errp wal_error"

text \<open>\<open>TableLock::acquire\<close> opens the lock file and locks it; nothing reads that file.\<close>

definition table_lock :: "(disk, xbf_error, unit) prog" where
  "table_lock = xio dk_call"

definition write_encoded_path :: "file_path \<Rightarrow> bytes \<Rightarrow> (disk, xbf_error, unit) prog" where
  "write_encoded_path p bs =
     bindp (xio (dk_create (temporary_path p))) (\<lambda>_.
     bindp (xio (dk_write (temporary_path p) bs)) (\<lambda>_.
     bindp (xio dk_call) (\<lambda>_.
     bindp (xio (dk_rename (temporary_path p) p)) (\<lambda>_.
     xio dk_call))))"

type_synonym json_codec = "(json \<Rightarrow> (string, bytes) result) \<times> (bytes \<Rightarrow> (string, json) result)"

abbreviation decode_with :: "json_codec \<Rightarrow> bytes \<Rightarrow> xbf_limits \<Rightarrow> (xbf_error, xbf_table) result" where
  "decode_with c \<equiv> decode_with_limits (fst c) (snd c)"

definition read_path_without_recovery_with_limits ::
  "json_codec \<Rightarrow> file_path \<Rightarrow> xbf_limits \<Rightarrow> (disk, xbf_error, xbf_table) prog" where
  "read_path_without_recovery_with_limits c p limits =
     bindp (xio (dk_read p)) (\<lambda>meta.
     bindp (liftp (ensure (length meta \<le> max_file_size limits)
       (Xbf_invalid ''XBF file exceeds the configured limit''))) (\<lambda>_.
     bindp (xio (dk_read p)) (\<lambda>bs. liftp (decode_with c bs limits))))"

definition current_generation :: "json_codec \<Rightarrow> file_path \<Rightarrow> xbf_limits \<Rightarrow> (disk, xbf_error, u64) prog" where
  "current_generation c p limits d =
     (case read_path_without_recovery_with_limits c p limits d of
        (d', Inr t) \<Rightarrow> (d', Inr (xt_generation t))
      | (d', Inl e) \<Rightarrow> (d', if e = Xbf_io Not_found then Inr 0 else Inl e))"

definition remove_wal :: "file_path \<Rightarrow> (disk, xbf_error, unit) prog" where
  "remove_wal q d =
     (case dk_remove q d of
        (d', Inr _) \<Rightarrow> (d', Inr ())
      | (d', Inl e) \<Rightarrow> (d', if e = Not_found then Inr () else Inl (Xbf_io e)))"

definition remove_wal_after_clear :: "file_wal \<Rightarrow> file_path \<Rightarrow> (disk, xbf_error, unit) prog" where
  "remove_wal_after_clear wal q = bindp (xwal (dk_wal_run q file_clear wal)) (\<lambda>_. remove_wal q)"

text \<open>Recovery in three parts: the last record of the log, an opened log, and the whole.\<close>

definition recover_record ::
  "json_codec \<Rightarrow> file_path \<Rightarrow> xbf_limits \<Rightarrow> file_wal \<Rightarrow> u64 \<Rightarrow> u64 \<times> u64 \<times> bytes \<Rightarrow> (disk, xbf_error, bool) prog" where
  "recover_record c p limits wal generation = (\<lambda>(base_generation, target_generation, snapshot).
     bindp (liftp (decode_with c snapshot limits)) (\<lambda>t.
     bindp (liftp (ensure (xt_generation t = target_generation)
       (Xbf_invalid ''XBF WAL target generation does not match its snapshot''))) (\<lambda>_.
     if generation = target_generation
     then bindp (remove_wal_after_clear wal (wal_path p)) (\<lambda>_. retp False)
     else
       bindp (liftp (ensure (generation = base_generation)
         (Xbf_invalid (''XBF WAL targets base generation '' @ show_nat (unat base_generation) @
           '', current generation is '' @ show_nat (unat generation))))) (\<lambda>_.
       bindp (write_encoded_path p snapshot) (\<lambda>_.
       bindp (remove_wal_after_clear wal (wal_path p)) (\<lambda>_. retp True))))))"

definition recover_opened ::
  "json_codec \<Rightarrow> file_path \<Rightarrow> xbf_limits \<Rightarrow> file_wal \<Rightarrow> (disk, xbf_error, bool) prog" where
  "recover_opened c p limits wal =
     (if fw_records wal = [] then bindp (remove_wal_after_clear wal (wal_path p)) (\<lambda>_. retp False)
      else
        bindp (current_generation c p limits) (\<lambda>generation.
        bindp (liftp (xwl_decode_all (fw_records wal) limits None)) (\<lambda>pending.
        bindp (liftp (ok_or (Xbf_invalid ''non-empty WAL'') pending)) (\<lambda>r.
        recover_record c p limits wal generation r))))"

definition recover_path_with_limits ::
  "json_codec \<Rightarrow> file_path \<Rightarrow> xbf_limits \<Rightarrow> (disk, xbf_error, bool) prog" where
  "recover_path_with_limits c p limits =
     bindp (xio (dk_exists (wal_path p))) (\<lambda>ex.
     if \<not> ex then retp False
     else bindp (xwal (dk_wal_open (wal_path p))) (\<lambda>wal. recover_opened c p limits wal))"

definition recover_path :: "json_codec \<Rightarrow> file_path \<Rightarrow> (disk, xbf_error, bool) prog" where
  "recover_path c p = bindp table_lock (\<lambda>_. recover_path_with_limits c p xbf_limits_default)"

definition save_with_wal :: "json_codec \<Rightarrow> file_path \<Rightarrow> xbf_table \<Rightarrow> (disk, xbf_error, unit) prog" where
  "save_with_wal c p t =
     bindp table_lock (\<lambda>_.
     bindp (recover_path_with_limits c p xbf_limits_default) (\<lambda>_.
     bindp (current_generation c p xbf_limits_default) (\<lambda>base_generation.
     bindp (liftp (ensure (base_generation < xt_generation t)
       (Xbf_invalid (''XBF generation '' @ show_nat (unat (xt_generation t)) @
         '' is not newer than the current generation '' @ show_nat (unat base_generation))))) (\<lambda>_.
     bindp (liftp (encode (fst c) t)) (\<lambda>snapshot.
     bindp (liftp (xwl_encode_record base_generation (xt_generation t) snapshot)) (\<lambda>rec.
     bindp (liftp (xwl_validate_record_size (length rec))) (\<lambda>_.
     bindp (xwal (dk_wal_open (wal_path p))) (\<lambda>wal.
     bindp (xwal (dk_wal_run (wal_path p) (\<lambda>w. file_append w rec) wal)) (\<lambda>(wal, _).
     bindp (xwal (dk_wal_run (wal_path p) file_sync wal)) (\<lambda>(wal, _).
     bindp (write_encoded_path p snapshot) (\<lambda>_.
     bindp (xwal (dk_wal_run (wal_path p) file_clear wal)) (\<lambda>_.
     remove_wal (wal_path p)))))))))))))"

definition read_path_with_limits ::
  "json_codec \<Rightarrow> file_path \<Rightarrow> xbf_limits \<Rightarrow> (disk, xbf_error, xbf_table) prog" where
  "read_path_with_limits c p limits =
     bindp table_lock (\<lambda>_.
     bindp (recover_path_with_limits c p limits) (\<lambda>_.
     read_path_without_recovery_with_limits c p limits))"

definition read_path :: "json_codec \<Rightarrow> file_path \<Rightarrow> (disk, xbf_error, xbf_table) prog" where
  "read_path c p = read_path_with_limits c p xbf_limits_default"

definition write_path_with_limits ::
  "json_codec \<Rightarrow> file_path \<Rightarrow> xbf_table \<Rightarrow> xbf_limits \<Rightarrow> (disk, xbf_error, unit) prog" where
  "write_path_with_limits c p t limits =
     bindp (liftp (encode_with_limits (fst c) t limits)) (\<lambda>bs.
     bindp table_lock (\<lambda>_.
     bindp (recover_path_with_limits c p limits) (\<lambda>_.
     write_encoded_path p bs)))"

definition write_path :: "json_codec \<Rightarrow> file_path \<Rightarrow> xbf_table \<Rightarrow> (disk, xbf_error, unit) prog" where
  "write_path c p t = write_path_with_limits c p t xbf_limits_default"

section \<open>What each file operation does\<close>

text \<open>The table file and the log file; the temporary file never matters.\<close>

definition st :: "file_path \<Rightarrow> bytes option \<Rightarrow> bytes option \<Rightarrow> disk \<Rightarrow> bool" where
  "st p old w d \<longleftrightarrow> dk_files d p = old \<and> dk_files d (wal_path p) = w"

definition table_path :: "file_path \<Rightarrow> bool" where
  "table_path p \<longleftrightarrow> fp_ext p \<noteq> Some ''xwl'' \<and> fp_ext p \<noteq> Some ''txbase.xbf.tmp''"

lemma paths_differ:
  assumes "table_path p"
  shows "temporary_path p \<noteq> p" "temporary_path p \<noteq> wal_path p" "wal_path p \<noteq> p"
    "p \<noteq> temporary_path p" "wal_path p \<noteq> temporary_path p" "p \<noteq> wal_path p"
proof -
  have "fp_ext (temporary_path p) = Some ''txbase.xbf.tmp''" "fp_ext (wal_path p) = Some ''xwl''"
    by (simp_all add: temporary_path_def wal_path_def with_extension_def)
  with assms show "temporary_path p \<noteq> p" "temporary_path p \<noteq> wal_path p" "wal_path p \<noteq> p"
    "p \<noteq> temporary_path p" "wal_path p \<noteq> temporary_path p" "p \<noteq> wal_path p"
    unfolding table_path_def by force+
qed

lemma dk_pop_files: "dk_pop d = (x, d') \<Longrightarrow> dk_files d' = dk_files d"
  by (auto simp: dk_pop_def split: list.splits)

lemma dk_call_files: "dk_call d = (d', r) \<Longrightarrow> dk_files d' = dk_files d"
  by (auto simp: dk_call_def split: prod.splits option.splits dest: dk_pop_files)

lemma dk_read_files: "dk_read q d = (d', r) \<Longrightarrow> dk_files d' = dk_files d \<and> (r = Inl Other_error \<or> r = ok_or Not_found (dk_files d q))"
  by (auto simp: dk_read_def bindp_def getp_def liftp_def dk_call_def split: prod.splits sum.splits option.splits
      dest: dk_pop_files)

lemma call_triple: "triple (st p old w) dk_call (\<lambda>_. st p old w) (st p old w)"
  by (rule tripleI) (auto simp: st_def dest: dk_call_files)

lemma read_triple:
  "triple (st p old w) (dk_read p) (\<lambda>bs d. st p old w d \<and> old = Some bs) (st p old w)"
  by (rule tripleI) (auto simp: st_def ok_or_def split: option.splits dest!: dk_read_files)

definition stt :: "file_path \<Rightarrow> bytes option \<Rightarrow> bytes option \<Rightarrow> bytes \<Rightarrow> disk \<Rightarrow> bool" where
  "stt p old w tmp d \<longleftrightarrow> st p old w d \<and> dk_files d (temporary_path p) = Some tmp"

lemma call_triple_tmp: "triple (stt p old w tmp) dk_call (\<lambda>_. stt p old w tmp) (st p old w)"
  by (rule tripleI) (auto simp: st_def stt_def dest: dk_call_files)

lemma create_triple:
  assumes "table_path p"
  shows "triple (st p old w) (dk_create (temporary_path p)) (\<lambda>_. stt p old w []) (st p old w)"
  using paths_differ [OF assms]
  by (intro tripleI) (auto simp: dk_create_def bindp_Inr bindp_Inl st_def stt_def dk_set_def dest!: dk_call_files)

lemma write_triple:
  assumes "table_path p"
  shows "triple (stt p old w []) (dk_write (temporary_path p) bs) (\<lambda>_. stt p old w bs) (st p old w)"
  using paths_differ [OF assms]
  by (intro tripleI)
    (auto simp: dk_write_def st_def stt_def dk_set_def Let_def split: option.splits prod.splits dest!: dk_pop_files)

lemma rename_triple:
  assumes "table_path p"
  shows "triple (stt p old w bs) (dk_rename (temporary_path p) p) (\<lambda>_. st p (Some bs) w) (st p old w)"
  using paths_differ [OF assms]
  by (intro tripleI)
    (auto simp: dk_rename_def bindp_Inr bindp_Inl st_def stt_def dk_set_def ok_or_def split: option.splits
      dest!: dk_read_files)

lemma write_encoded_triple:
  assumes "table_path p"
  shows "triple (st p old w) (write_encoded_path p bs) (\<lambda>_. st p (Some bs) w)
    (\<lambda>d. st p old w d \<or> st p (Some bs) w d)"
  unfolding write_encoded_path_def
  by (rule triple_seq_err [OF create_triple [OF assms]], blast,
      rule triple_seq_err [OF write_triple [OF assms]], blast,
      rule triple_seq_err [OF call_triple_tmp], blast,
      rule triple_seq_err [OF rename_triple [OF assms]], blast,
      rule triple_map_err, rule triple_err [OF call_triple], blast)

section \<open>The log file\<close>

text \<open>
  A log file holds the payloads \<open>qs\<close> when it consists of their frames and a part of one more
  frame, which a torn append left behind.  \<open>wal_room n\<close> says that \<open>n\<close> more bytes still give a
  length that fits a \<open>usize\<close>.
\<close>

definition MAX_FRAME :: nat where "MAX_FRAME = WAL_HEADER_SIZE + MAX_WAL_RECORD_SIZE"

definition frames :: "bytes list \<Rightarrow> bytes" where
  "frames qs = log_bytes (lsn_records qs)"

definition wal_image :: "bytes list \<Rightarrow> bytes \<Rightarrow> bool" where
  "wal_image qs b \<longleftrightarrow>
     (\<exists>r k. length r \<le> MAX_WAL_RECORD_SIZE \<and> k < length (wal_frame (word_of_nat (length qs)) r) \<and>
        b = frames qs @ take k (wal_frame (word_of_nat (length qs)) r)) \<and>
     list_all (\<lambda>q. length q \<le> MAX_WAL_RECORD_SIZE) qs"

definition wal_file :: "bytes list \<Rightarrow> bytes option \<Rightarrow> bool" where
  "wal_file qs w \<longleftrightarrow> (case w of None \<Rightarrow> qs = [] | Some b \<Rightarrow> wal_image qs b)"

definition wal_room :: "nat \<Rightarrow> bytes option \<Rightarrow> bool" where
  "wal_room n w \<longleftrightarrow> (case w of None \<Rightarrow> n < usize_limit | Some b \<Rightarrow> length b + n < usize_limit)"

definition holds_log :: "nat \<Rightarrow> file_path \<Rightarrow> bytes option \<Rightarrow> bytes list \<Rightarrow> disk \<Rightarrow> bool" where
  "holds_log n p old qs d \<longleftrightarrow> (\<exists>w. st p old w d \<and> wal_file qs w \<and> wal_room n w)"

definition opened_wal :: "bytes list \<Rightarrow> file_wal \<Rightarrow> bool" where
  "opened_wal qs w \<longleftrightarrow> file_bytes (fw_file w) = frames qs \<and> fw_records w = lsn_records qs \<and>
     fw_last_lsn w = last_lsn_of (lsn_records qs)"

lemma lsn_records_snoc: "lsn_records (qs @ [q]) = lsn_records qs @ [(word_of_nat (length qs), q)]"
  by (simp add: lsn_records_def)

lemma lsn_records_Nil [simp]: "lsn_records [] = []"
  by (simp add: lsn_records_def)

lemma frames_Nil [simp]: "frames [] = []"
  by (simp add: frames_def)

lemma frames_snoc: "frames (qs @ [q]) = frames qs @ wal_frame (word_of_nat (length qs)) q"
  by (simp add: frames_def lsn_records_snoc)

lemma wal_image_frames: "list_all (\<lambda>q. length q \<le> MAX_WAL_RECORD_SIZE) qs \<Longrightarrow> wal_image qs (frames qs)"
  unfolding wal_image_def by (auto intro!: exI [of _ "[]"] exI [of _ 0] simp: WAL_HEADER_SIZE_def)

lemma wal_image_length: "wal_image qs b \<Longrightarrow> length (frames qs) \<le> length b"
  by (auto simp: wal_image_def)

lemma wal_image_Nil [simp]: "wal_image [] []"
  using wal_image_frames [of "[]"] by simp

lemma wal_room_mono: "wal_room n w \<Longrightarrow> m \<le> n \<Longrightarrow> wal_room m w"
  by (auto simp: wal_room_def split: option.splits)

lemma lsn_seq_records: "16 * length qs < 2 ^ 64 \<Longrightarrow> lsn_seq (lsn_records qs)"
  by (simp add: lsn_seq_def lsn_records_def)

lemma sizes_ok_records: "list_all (\<lambda>q. length q \<le> MAX_WAL_RECORD_SIZE) qs \<Longrightarrow> sizes_ok (lsn_records qs)"
  by (auto simp: sizes_ok_def lsn_records_def list_all_iff dest: set_zip_rightD)

lemma frames_count: "16 * length qs \<le> length (frames qs)"
  using log_bytes_length [of "lsn_records qs"] by (simp add: frames_def)

lemma parse_image:
  assumes "wal_image qs b" "length b + MAX_FRAME < usize_limit"
  shows "parse_wal b = Inr \<lparr>pw_records = lsn_records qs, pw_valid_bytes = length (frames qs)\<rparr>"
proof -
  obtain r k where r: "length r \<le> MAX_WAL_RECORD_SIZE" "k < WAL_HEADER_SIZE + length r"
    "b = frames qs @ take k (wal_frame (word_of_nat (length qs)) r)" "list_all (\<lambda>q. length q \<le> MAX_WAL_RECORD_SIZE) qs"
    using assms(1) by (auto simp: wal_image_def)
  let ?rs = "lsn_records (qs @ [r])" and ?k = "length (frames qs) + k"
  have len: "length (log_bytes ?rs) < usize_limit"
    using assms(2) r(1,3) by (simp add: lsn_records_snoc MAX_FRAME_def flip: frames_def)
  have "16 * length (qs @ [r]) < 2 ^ 64"
    using frames_count [of "qs @ [r]"] len by (simp add: usize_limit_def flip: frames_def)
  then have "wf_log 0 ?rs"
    using len r(1,4) by (intro wf_log_of_inv lsn_seq_records sizes_ok_records) auto
  from parse_log_bytes [OF this len, of ?k]
  have "parse_wal (take ?k (log_bytes ?rs)) =
      Inr \<lparr>pw_records = whole_records ?k ?rs, pw_valid_bytes = length (log_bytes (whole_records ?k ?rs))\<rparr>" .
  moreover have "take ?k (log_bytes ?rs) = b" using r(3) by (simp add: lsn_records_snoc flip: frames_def)
  moreover have "whole_records ?k ?rs = lsn_records qs"
    using whole_records_append [of "lsn_records qs" ?k] r(2) by (simp add: lsn_records_snoc frames_def)
  ultimately show ?thesis by (simp add: frames_def)
qed

lemma open_image:
  assumes "wal_image qs b" "length b + MAX_FRAME < usize_limit" "file_open \<lparr>file_bytes = b, file_faults = fs\<rparr> = (f, r)"
  shows "(file_bytes f = b \<or> file_bytes f = frames qs) \<and>
    (\<forall>w. r = Inr w \<longrightarrow> file_bytes f = frames qs \<and> opened_wal qs w)"
proof -
  have "take (length (frames qs)) b = frames qs" using assms(1) by (auto simp: wal_image_def)
  moreover have "\<not> length (frames qs) < length b \<Longrightarrow> b = frames qs" using assms(1) by (auto simp: wal_image_def)
  ultimately have t: "take (length (frames qs)) b = frames qs" "\<not> length (frames qs) < length b \<Longrightarrow> b = frames qs"
    by blast+
  note o = assms(3) [unfolded file_open_def, simplified, unfolded parse_image [OF assms(1,2)], simplified]
  show ?thesis
  proof (cases "length (frames qs) < length b")
    case True
    then show ?thesis using o t(1)
      by (simp add: set_len_def sync_all_def seek_def pop_fault_def resize_def opened_wal_def
        split: list.splits option.splits) auto
  next
    case False
    then show ?thesis using o t(2)
      by (simp add: seek_def pop_fault_def opened_wal_def split: list.splits option.splits) auto
  qed
qed

lemma open_quiet:
  assumes "wal_image qs b" "length b + MAX_FRAME < usize_limit"
  shows "\<exists>w. file_open \<lparr>file_bytes = b, file_faults = []\<rparr> = (\<lparr>file_bytes = frames qs, file_faults = []\<rparr>, Inr w)"
proof -
  have "take (length (frames qs)) b = frames qs" using assms(1) by (auto simp: wal_image_def)
  then show ?thesis
    using file_open_no_faults [of "\<lparr>file_bytes = b, file_faults = []\<rparr>"] parse_image [OF assms] wal_image_length [OF assms(1)]
    by (simp add: Let_def)
qed

lemma holds_log_files: "dk_files d = dk_files d' \<Longrightarrow> holds_log n p old qs d = holds_log n p old qs d'"
  by (simp add: holds_log_def st_def)

lemma holds_log_image:
  "st p old (Some b) d \<Longrightarrow> wal_image qs b \<Longrightarrow> length b + n < usize_limit \<Longrightarrow> holds_log n p old qs d"
  by (auto simp: holds_log_def wal_file_def wal_room_def)

lemma wal_open_triple:
  assumes p: "table_path p" and n: "MAX_FRAME \<le> n"
  shows "triple (holds_log n p old qs) (dk_wal_open (wal_path p))
    (\<lambda>w d. st p old (Some (frames qs)) d \<and> opened_wal qs w \<and> holds_log n p old qs d) (holds_log n p old qs)"
proof -
  have "case r of Inl e \<Rightarrow> holds_log n p old qs d'
      | Inr w \<Rightarrow> st p old (Some (frames qs)) d' \<and> opened_wal qs w \<and> holds_log n p old qs d'"
    if i: "holds_log n p old qs d" and o: "dk_wal_open (wal_path p) d = (d', r)" for d d' r
  proof -
    obtain w where w: "st p old w d" "wal_file qs w" "wal_room n w" using i by (auto simp: holds_log_def)
    define b where "b = (case w of None \<Rightarrow> [] | Some b \<Rightarrow> b)"
    have b: "wal_image qs b" "length b + n < usize_limit" "length b + MAX_FRAME < usize_limit"
      using w(2,3) n by (auto simp: b_def wal_file_def wal_room_def split: option.splits)
    obtain d1 x where c: "dk_call d = (d1, x)" by fastforce
    have f: "dk_files d1 = dk_files d" using c by (rule dk_call_files)
    have bs: "(case dk_files d1 (wal_path p) of None \<Rightarrow> [] | Some b \<Rightarrow> b) = b" using w(1) f by (simp add: st_def b_def)
    show ?thesis
    proof (cases x)
      case (Inl e)
      then have "r = Inl Io" "d' = d1" using o c by (simp_all add: dk_wal_open_def)
      then show ?thesis using i holds_log_files [OF f] by simp
    next
      case (Inr u)
      obtain d2 y where c2: "dk_call (dk_set (wal_path p) (Some b) d1) = (d2, y)" by fastforce
      have "dk_files d2 = dk_files (dk_set (wal_path p) (Some b) d1)" using c2 by (rule dk_call_files)
      then have s2: "dk_files d2 p = old" "dk_files d2 (wal_path p) = Some b"
        using w(1) f paths_differ [OF p] by (simp_all add: dk_set_def st_def)
      show ?thesis
      proof (cases y)
        case (Inl e)
        then have "r = Inl Io" "d' = d2" using o c c2 Inr bs by (simp_all add: dk_wal_open_def Let_def)
        then show ?thesis using holds_log_image [of p old b d', OF _ b(1,2)] s2 by (simp add: st_def)
      next
        case (Inr u')
        obtain g t where g: "file_open \<lparr>file_bytes = b, file_faults = dk_faults d2\<rparr> = (g, t)" by fastforce
        have d': "dk_files d' p = old" "dk_files d' (wal_path p) = Some (file_bytes g)" "r = t"
          using o c c2 \<open>x = Inr u\<close> Inr g bs s2 paths_differ [OF p] by (auto simp: dk_wal_open_def Let_def dk_set_def)
        note og = open_image [OF b(1,3) g]
        have "wal_image qs (frames qs)" using b(1) by (intro wal_image_frames) (simp add: wal_image_def)
        then have "holds_log n p old qs d'"
          using og d' b(1,2) wal_image_length [OF b(1)] holds_log_image [of p old _ d' qs n] by (auto simp: st_def)
        then show ?thesis using og d' by (auto simp: st_def split: sum.splits)
      qed
    qed
  qed
  then show ?thesis by (intro tripleI; force)
qed

lemma clear_triple:
  assumes "table_path p"
  shows "triple (\<lambda>d. st p old (Some b) d \<and> file_bytes (fw_file w) = b) (dk_wal_run (wal_path p) file_clear w)
    (\<lambda>_. st p old (Some [])) (\<lambda>d. st p old (Some b) d \<or> st p old (Some []) d)"
  using paths_differ [OF assms]
  by (intro tripleI)
    (auto simp: dk_wal_run_def file_clear_def set_len_def seek_def sync_all_def pop_fault_def st_def dk_set_def resize_def
      bindr_Inr_iff bindr_Inl_iff split: prod.splits sum.splits option.splits list.splits)

lemma remove_triple:
  assumes "table_path p"
  shows "triple (st p old w) (remove_wal (wal_path p)) (\<lambda>_. st p old None) (st p old w)"
  using paths_differ [OF assms]
  by (intro tripleI)
    (auto simp: remove_wal_def dk_remove_def bindp_Inr bindp_Inl st_def dk_set_def ok_or_def
      split: prod.splits sum.splits option.splits if_splits dest!: dk_read_files)

lemma opened_inv: "opened_wal qs w \<Longrightarrow> list_all (\<lambda>q. length q \<le> MAX_WAL_RECORD_SIZE) qs \<Longrightarrow>
    length (frames qs) < usize_limit \<Longrightarrow> file_inv w"
  using frames_count [of qs] lsn_seq_records [of qs] sizes_ok_records [of qs]
  by (simp add: opened_wal_def file_inv_def usize_limit_def)

lemma append_triple:
  assumes p: "table_path p" and q: "length q \<le> MAX_WAL_RECORD_SIZE"
    and qs: "list_all (\<lambda>q. length q \<le> MAX_WAL_RECORD_SIZE) qs" and n: "length (frames qs) + (n + MAX_FRAME) < usize_limit"
  shows "triple (\<lambda>d. st p old (Some (frames qs)) d \<and> opened_wal qs w) (dk_wal_run (wal_path p) (\<lambda>w. file_append w q) w)
    (\<lambda>(w', _) d. st p old (Some (frames (qs @ [q]))) d \<and> opened_wal (qs @ [q]) w')
    (\<lambda>d. holds_log n p old qs d \<or> holds_log n p old (qs @ [q]) d)"
proof -
  let ?l = "word_of_nat (length qs) :: u64"
  have "case r of Inl e \<Rightarrow> holds_log n p old qs d' \<or> holds_log n p old (qs @ [q]) d'
      | Inr (w', _) \<Rightarrow> st p old (Some (frames (qs @ [q]))) d' \<and> opened_wal (qs @ [q]) w'"
    if st: "st p old (Some (frames qs)) d" "opened_wal qs w" and run: "dk_wal_run (wal_path p) (\<lambda>w. file_append w q) w d = (d', r)" for d d' r
  proof -
    let ?w = "w\<lparr>fw_file := (fw_file w)\<lparr>file_faults := dk_faults d\<rparr>\<rparr>"
    have ow: "opened_wal qs ?w" using st(2) by (simp add: opened_wal_def)
    then have inv: "file_inv ?w" using opened_inv qs n by simp
    have e: "fw_records ?w = lsn_records qs" "file_bytes (fw_file ?w) = frames qs" using ow by (simp_all add: opened_wal_def)
    obtain w' res where a: "file_append ?w q = (w', res)" by fastforce
    have d': "dk_files d' p = old" "dk_files d' (wal_path p) = Some (file_bytes (fw_file w'))" "r = bindr res (\<lambda>x. Inr (w', x))"
      using run a st(1) paths_differ [OF p] by (auto simp: dk_wal_run_def dk_set_def st_def)
    have image: "wal_image qs (frames qs)" "wal_image (qs @ [q]) (frames (qs @ [q]))"
      using qs q by (simp_all add: wal_image_frames)
    have len: "length (frames (qs @ [q])) + n < usize_limit" using n q by (simp add: frames_snoc MAX_FRAME_def)
    have log: "st p old (Some b) d' \<Longrightarrow> wal_image rs b \<Longrightarrow> length b \<le> length (frames (qs @ [q])) \<Longrightarrow> holds_log n p old rs d'" for b rs
      using holds_log_image [of p old b d' rs n] len by simp
    from file_append_cases [OF inv a] show ?thesis
    proof (elim disjE exE conjE)
      fix e' assume "res = Inl e'" "w' = ?w"
      then show ?thesis using d' e log [OF _ image(1)] by (simp add: st_def frames_snoc)
    next
      fix k assume k: "res = Inl Io" "file_bytes (fw_file w') =
        file_bytes (fw_file ?w) @ take k (wal_frame (word_of_nat (length (fw_records ?w))) q)"
      then have b: "file_bytes (fw_file w') = frames qs @ take k (wal_frame ?l q)" using e by simp
      show ?thesis
      proof (cases "k < length (wal_frame ?l q)")
        case True
        then have "wal_image qs (file_bytes (fw_file w'))" using q qs by (auto simp: wal_image_def b)
        then show ?thesis using d' k(1) b log by (simp add: st_def frames_snoc)
      next
        case False
        then show ?thesis using d' k(1) b log [OF _ image(2)] by (simp add: st_def frames_snoc)
      qed
    next
      assume a: "res = Inr (word_of_nat (length (fw_records ?w)))" "file_inv w'"
        "fw_records w' = fw_records ?w @ [(word_of_nat (length (fw_records ?w)), q)]"
        "file_bytes (fw_file w') = file_bytes (fw_file ?w) @ wal_frame (word_of_nat (length (fw_records ?w))) q"
      then have "opened_wal (qs @ [q]) w'" using e by (simp add: opened_wal_def lsn_records_snoc frames_snoc file_inv_def)
      then show ?thesis using d' a e by (simp add: st_def frames_snoc)
    qed
  qed
  then show ?thesis by (intro tripleI; force)
qed

lemma sync_triple:
  assumes "table_path p"
  shows "triple (\<lambda>d. st p old (Some (frames qs)) d \<and> opened_wal qs w) (dk_wal_run (wal_path p) file_sync w)
    (\<lambda>(w', _) d. st p old (Some (frames qs)) d \<and> opened_wal qs w') (st p old (Some (frames qs)))"
  using paths_differ [OF assms]
  by (intro tripleI)
    (auto simp: dk_wal_run_def file_sync_def sync_all_def pop_fault_def st_def dk_set_def opened_wal_def
      bindr_Inr_iff bindr_Inl_iff split: prod.splits sum.splits option.splits list.splits)

section \<open>The content a disk represents\<close>

abbreviation decodes :: "json_codec \<Rightarrow> bytes \<Rightarrow> xbf_table \<Rightarrow> bool" where
  "decodes c bs t \<equiv> decode_with c bs xbf_limits_default = Inr t"

definition generation_is :: "json_codec \<Rightarrow> bytes option \<Rightarrow> u64 \<Rightarrow> bool" where
  "generation_is c v g \<longleftrightarrow> (case v of None \<Rightarrow> g = 0 | Some bs \<Rightarrow> \<exists>t. decodes c bs t \<and> xt_generation t = g)"

definition record_for :: "json_codec \<Rightarrow> u64 \<Rightarrow> bytes \<Rightarrow> bytes \<Rightarrow> bool" where
  "record_for c base snapshot q \<longleftrightarrow>
     (\<exists>t. decodes c snapshot t \<and> base < xt_generation t \<and> length q \<le> MAX_WAL_RECORD_SIZE \<and>
       xwl_encode_record base (xt_generation t) snapshot = Inr q)"

definition readable :: "bytes list \<Rightarrow> bool" where
  "readable qs \<longleftrightarrow> list_all (\<lambda>q. \<exists>x. xwl_decode_record q xbf_limits_default = Inr x) qs"

text \<open>
  The files stand for the content \<open>v\<close> of the table: either the log has no whole record and the
  table file has \<open>v\<close>, or the last record of the log is that of \<open>v\<close> and the table file has the
  content before or already \<open>v\<close>.  A log has several records when a save went on although the
  existing log was not seen.
\<close>

definition pending :: "json_codec \<Rightarrow> bytes option \<Rightarrow> bytes option \<Rightarrow> bytes list \<Rightarrow> bool" where
  "pending c v old qs \<longleftrightarrow>
     (if qs = [] then old = v
      else readable qs \<and> (\<exists>snapshot base. v = Some snapshot \<and> record_for c base snapshot (last qs) \<and>
        (generation_is c old base \<or> old = v)))"

definition holds_content :: "nat \<Rightarrow> json_codec \<Rightarrow> file_path \<Rightarrow> bytes option \<Rightarrow> disk \<Rightarrow> bool" where
  "holds_content n c p v d \<longleftrightarrow>
     (\<exists>g. generation_is c v g) \<and> (\<exists>old qs. holds_log n p old qs d \<and> pending c v old qs)"

abbreviation represents :: "json_codec \<Rightarrow> file_path \<Rightarrow> bytes option \<Rightarrow> disk \<Rightarrow> bool" where
  "represents \<equiv> holds_content MAX_FRAME"

abbreviation idle :: "file_path \<Rightarrow> bytes option \<Rightarrow> disk \<Rightarrow> bool" where
  "idle p v \<equiv> holds_log MAX_FRAME p v []"

lemma decode_limit: "decodes c bs t \<Longrightarrow> length bs \<le> max_file_size xbf_limits_default"
  by (auto simp: decode_with_limits_def decode_header_def bindr_Inr_iff ensure_Inr_iff)

lemma generation_triple:
  assumes "generation_is c old g"
  shows "triple (st p old w) (current_generation c p xbf_limits_default) (\<lambda>x d. st p old w d \<and> x = g) (st p old w)"
proof -
  have "case r of Inl e \<Rightarrow> st p old w d' | Inr x \<Rightarrow> st p old w d' \<and> x = g"
    if s: "st p old w d" and run: "current_generation c p xbf_limits_default d = (d', r)" for d d' r
  proof -
    obtain d1 x where rd: "read_path_without_recovery_with_limits c p xbf_limits_default d = (d1, x)" by fastforce
    have "dk_files d1 = dk_files d \<and> (\<forall>t. x = Inr t \<longrightarrow> xt_generation t = g) \<and> (x = Inl (Xbf_io Not_found) \<longrightarrow> g = 0)"
      using rd assms s
      by (cases x)
        (auto simp: read_path_without_recovery_with_limits_def bindp_Inr bindp_Inl map_errp_iff liftp_def ensure_def
          generation_is_def st_def ok_or_def split: option.splits if_splits dest!: dk_read_files)
    then show ?thesis using run rd s by (auto simp: current_generation_def st_def split: sum.splits if_splits)
  qed
  then show ?thesis by (intro tripleI; force)
qed

lemma xwl_roundtrip:
  assumes "xwl_encode_record base target snapshot = Inr q" "length snapshot \<le> max_file_size limits"
    and "length q < usize_limit"
  shows "xwl_decode_record q limits = Inr (base, target, snapshot)"
proof -
  obtain n where n: "u64_try_from (length snapshot) = Some n" and q: "q = XWL_MAGIC @ u16_to_le 1 @ u16_to_le 0 @
      u64_to_le base @ u64_to_le target @ u64_to_le n @ u32_to_le (crc32c snapshot) @ u32_to_le 0 @ snapshot"
    using assms(1) by (auto simp: xwl_encode_record_def bindr_Inr_iff ok_or_Inr_iff RECORD_VERSION_def)
  have len: "unat n = length snapshot" "length XWL_MAGIC = 4"
    using n by (auto simp: u64_try_from_def unat_of_nat XWL_MAGIC_def split: if_splits)
  have lq: "length q = 40 + length snapshot" by (simp add: q len)
  have "take 4 q = XWL_MAGIC" "subslice 4 6 q = u16_to_le 1" "subslice 6 8 q = u16_to_le 0"
    "subslice 8 16 q = u64_to_le base" "subslice 16 24 q = u64_to_le target" "subslice 24 32 q = u64_to_le n"
    "subslice 32 36 q = u32_to_le (crc32c snapshot)" "subslice 36 40 q = u32_to_le 0" "drop 40 q = snapshot"
    by (simp_all add: q subslice_def len)
  then show ?thesis
    using assms(2,3) len lq
    by (simp add: xwl_decode_record_def RECORD_HEADER_SIZE_def RECORD_VERSION_def Let_def checked_add_def)
qed

lemma record_decodes:
  assumes "record_for c base snapshot q"
  obtains t where "decodes c snapshot t" "base < xt_generation t"
    "xwl_decode_record q xbf_limits_default = Inr (base, xt_generation t, snapshot)"
proof -
  obtain t where t: "decodes c snapshot t" "base < xt_generation t" "length q \<le> MAX_WAL_RECORD_SIZE"
    "xwl_encode_record base (xt_generation t) snapshot = Inr q" using assms by (auto simp: record_for_def)
  then show ?thesis
    using that xwl_roundtrip [OF t(4) decode_limit [OF t(1)]] by (simp add: wal_consts usize_limit_def)
qed

lemma decode_all_last:
  "readable (map snd rs) \<Longrightarrow> rs \<noteq> [] \<Longrightarrow> xwl_decode_record (snd (last rs)) xbf_limits_default = Inr x \<Longrightarrow>
     xwl_decode_all rs xbf_limits_default prev = Inr (Some x)"
  by (induction rs arbitrary: prev) (auto simp: readable_def split: if_splits)

lemma map_snd_lsn_records [simp]: "map snd (lsn_records qs) = qs"
  by (simp add: lsn_records_def)

lemma lsn_records_empty [simp]: "lsn_records qs = [] \<longleftrightarrow> qs = []"
  by (metis list.map_disc_iff map_snd_lsn_records)

lemma decode_pending:
  assumes "readable qs" "qs \<noteq> []" "xwl_decode_record (last qs) xbf_limits_default = Inr x"
  shows "xwl_decode_all (lsn_records qs) xbf_limits_default None = Inr (Some x)"
  using assms last_map [of "lsn_records qs" snd] by (intro decode_all_last) simp_all

section \<open>Recovery\<close>

lemma remove_after_clear_triple:
  assumes "table_path p" "file_bytes (fw_file w) = b"
  shows "triple (st p v (Some b)) (remove_wal_after_clear w (wal_path p)) (\<lambda>_. st p v None)
    (\<lambda>d. st p v (Some b) d \<or> st p v (Some []) d)"
  unfolding remove_wal_after_clear_def
  by (rule triple_seq_err [OF triple_pre [OF clear_triple [OF assms(1), of v b w]]])
    (use assms(2) remove_triple [OF assms(1)] in \<open>auto intro: triple_err\<close>)

lemma holds_log_frames:
  "st p old (Some (frames qs)) d \<Longrightarrow> list_all (\<lambda>q. length q \<le> MAX_WAL_RECORD_SIZE) qs \<Longrightarrow>
     length (frames qs) + n < usize_limit \<Longrightarrow> holds_log n p old qs d"
  by (rule holds_log_image [OF _ wal_image_frames])

lemma holds_log_framesD:
  assumes "holds_log n p old qs d" "st p old (Some (frames qs)) d"
  shows "list_all (\<lambda>q. length q \<le> MAX_WAL_RECORD_SIZE) qs" "length (frames qs) + n < usize_limit"
  using assms by (auto simp: holds_log_def st_def wal_file_def wal_room_def wal_image_def)

lemma holds_log_empty:
  "st p v None d \<Longrightarrow> n < usize_limit \<Longrightarrow> holds_log n p v [] d"
  "st p v (Some []) d \<Longrightarrow> n < usize_limit \<Longrightarrow> holds_log n p v [] d"
  by (auto simp: holds_log_def wal_file_def wal_room_def)

lemma holds_contentI: "generation_is c v g \<Longrightarrow> pending c v old qs \<Longrightarrow> holds_log n p old qs d \<Longrightarrow> holds_content n c p v d"
  by (auto simp: holds_content_def)

lemma holds_content_idle: "generation_is c v g \<Longrightarrow> holds_log n p v [] d \<Longrightarrow> holds_content n c p v d"
  by (rule holds_contentI) (simp_all add: pending_def)

lemma pending_old: "pending c v old qs \<Longrightarrow> generation_is c v g \<Longrightarrow> \<exists>g'. generation_is c old g'"
  by (auto simp: pending_def split: if_splits)

lemma pending_done: "pending c v old qs \<Longrightarrow> pending c v v qs"
  by (auto simp: pending_def split: if_splits)

lemma recover_opened_triple:
  assumes p: "table_path p" and g: "generation_is c v g" and pen: "pending c v old qs" and w: "opened_wal qs w"
    and room: "list_all (\<lambda>q. length q \<le> MAX_WAL_RECORD_SIZE) qs" "length (frames qs) + n < usize_limit"
  shows "triple (st p old (Some (frames qs))) (recover_opened c p xbf_limits_default w) (\<lambda>_. st p v None) (holds_content n c p v)"
    (is "triple _ _ ?Q ?E")
proof -
  have E: "st p old (Some (frames qs)) d \<Longrightarrow> ?E d" "st p v (Some (frames qs)) d \<Longrightarrow> ?E d" "st p v (Some []) d \<Longrightarrow> ?E d" for d
    using holds_contentI [OF g pen holds_log_frames [OF _ room]] holds_contentI [OF g pending_done [OF pen] holds_log_frames [OF _ room]]
      holds_content_idle [OF g holds_log_empty(2)] room(2) by simp_all
  have clear: "triple (st p v (Some (frames qs))) (bindp (remove_wal_after_clear w (wal_path p)) (\<lambda>_. retp b)) ?Q ?E" for b
    by (rule triple_seq [OF remove_after_clear_triple [OF p]]) (use w E(2,3) in \<open>auto simp: opened_wal_def intro: triple_ret\<close>)
  have rs: "fw_records w = lsn_records qs" using w by (simp add: opened_wal_def)
  show ?thesis
  proof (cases "qs = []")
    case True
    then show ?thesis using clear [of False] pen by (simp add: recover_opened_def rs pending_def)
  next
    case False
    then obtain snapshot base where s: "v = Some snapshot" "record_for c base snapshot (last qs)"
      "generation_is c old base \<or> old = v" "readable qs" using pen by (auto simp: pending_def)
    obtain t where t: "decodes c snapshot t" "base < xt_generation t"
      "xwl_decode_record (last qs) xbf_limits_default = Inr (base, xt_generation t, snapshot)" by (rule record_decodes [OF s(2)])
    obtain h where h: "generation_is c old h" "h = base \<or> old = v" using pending_old [OF pen g] s(3) by blast
    have finish: "triple (st p old (Some (frames qs))) (recover_record c p xbf_limits_default w h (base, xt_generation t, snapshot)) ?Q ?E"
    proof (cases "h = xt_generation t")
      case True
      then have "old = v" using h t(2) by auto
      then show ?thesis using True clear by (simp add: recover_record_def t(1))
    next
      case False
      then have "h = base" using h s(1) t(1) by (auto simp: generation_is_def)
      then show ?thesis using False E s(1) clear
        by (auto simp: recover_record_def t(1) intro!: triple_seq [OF write_encoded_triple [OF p]])
    qed
    show ?thesis
      unfolding recover_opened_def rs
      by (simp add: False decode_pending [OF s(4) False t(3)] ok_or_def,
          rule triple_seq [OF generation_triple [OF h(1)] E(1)], assumption, rule triple_conj) (simp add: finish)
  qed
qed

text \<open>\<open>call_fails i d\<close>: the call after the next \<open>i\<close> ones fails.\<close>

definition call_fails :: "nat \<Rightarrow> disk \<Rightarrow> bool" where
  "call_fails i d \<longleftrightarrow> i < length (dk_faults d) \<and> dk_faults d ! i \<noteq> None"

lemma exists_cases:
  "dk_exists q d = (d', r) \<Longrightarrow> dk_files d' = dk_files d \<and> r = Inr (\<not> call_fails 0 d \<and> dk_files d q \<noteq> None)"
  by (auto simp: dk_exists_def dk_pop_def call_fails_def split: prod.splits option.splits list.splits)

lemma recover_skipped:
  "call_fails 0 d \<Longrightarrow> recover_path_with_limits c p limits d = (d\<lparr>dk_faults := tl (dk_faults d)\<rparr>, Inr False)"
  by (auto simp: recover_path_with_limits_def dk_exists_def dk_pop_def call_fails_def bindp_def map_errp_def retp_def
      split: list.splits)

lemma holds_content_files: "dk_files d = dk_files d' \<Longrightarrow> holds_content n c p v d = holds_content n c p v d'"
  by (simp add: holds_content_def holds_log_def st_def)

lemma opened_facts:
  "st p old (Some (frames qs)) d \<and> opened_wal qs w \<and> holds_log n p old qs d \<Longrightarrow>
     opened_wal qs w \<and> list_all (\<lambda>q. length q \<le> MAX_WAL_RECORD_SIZE) qs \<and> length (frames qs) + n < usize_limit"
  using holds_log_framesD by blast

lemma holds_content_faults [simp]: "holds_content n c p v (d\<lparr>dk_faults := fs\<rparr>) = holds_content n c p v d"
  by (rule holds_content_files) simp

lemma recover_opens:
  assumes p: "table_path p" and n: "MAX_FRAME \<le> n" and g: "generation_is c v g" and pen: "pending c v old qs"
  shows "triple (holds_log n p old qs) (bindp (xwal (dk_wal_open (wal_path p)))
      (\<lambda>wal. recover_opened c p xbf_limits_default wal)) (\<lambda>_. st p v None) (holds_content n c p v)"
proof (rule triple_seq_err [OF wal_open_triple [OF p n]])
  fix w
  show "triple (\<lambda>d. st p old (Some (frames qs)) d \<and> opened_wal qs w \<and> holds_log n p old qs d)
      (recover_opened c p xbf_limits_default w) (\<lambda>_. st p v None) (holds_content n c p v)"
    by (rule triple_fact [OF opened_facts], assumption, rule triple_pre [OF recover_opened_triple [OF p g pen]]) auto
qed (rule holds_contentI [OF g pen])

lemma recover_seen_triple:
  assumes p: "table_path p" and n: "MAX_FRAME \<le> n"
  shows "triple (\<lambda>d. holds_content n c p v d \<and> \<not> call_fails 0 d) (recover_path_with_limits c p xbf_limits_default)
    (\<lambda>_. st p v None) (holds_content n c p v)"
proof -
  have opens: "triple (holds_content n c p v) (bindp (xwal (dk_wal_open (wal_path p)))
      (\<lambda>wal. recover_opened c p xbf_limits_default wal)) (\<lambda>_. st p v None) (holds_content n c p v)"
  proof (cases "\<exists>g. generation_is c v g")
    case True
    then obtain g where g: "generation_is c v g" by blast
    show ?thesis
      by (rule triple_pre [OF triple_ex [OF triple_ex [OF triple_conj [OF recover_opens [OF p n g]]]]], assumption)
        (use g in \<open>auto simp: holds_content_def\<close>)
  qed (simp add: triple_def holds_content_def)
  have none: "holds_content n c p v d \<Longrightarrow> dk_files d (wal_path p) = None \<Longrightarrow> st p v None d" for d
    by (auto simp: holds_content_def holds_log_def st_def wal_file_def pending_def)
  let ?R = "\<lambda>ex d. holds_content n c p v d \<and> ex = (dk_files d (wal_path p) \<noteq> None)"
  have "triple (\<lambda>d. holds_content n c p v d \<and> \<not> call_fails 0 d) (dk_exists (wal_path p)) ?R (holds_content n c p v)"
  proof (rule tripleI)
    fix d d' x
    assume P: "holds_content n c p v d \<and> \<not> call_fails 0 d" and "dk_exists (wal_path p) d = (d', Inr x)"
    then have "dk_files d' = dk_files d" "x = (dk_files d (wal_path p) \<noteq> None)" using exists_cases by fastforce+
    with P show "?R x d'" using holds_content_files [of d' d] by auto
  qed (use exists_cases in fastforce)
  then show ?thesis
    unfolding recover_path_with_limits_def
  proof (rule triple_seq_err)
    fix ex
    have "triple (?R False) (retp False) (\<lambda>_. st p v None) (holds_content n c p v)"
      using none by (auto simp: triple_def retp_def)
    then show "triple (?R ex) (if \<not> ex then retp False else bindp (xwal (dk_wal_open (wal_path p)))
        (\<lambda>wal. recover_opened c p xbf_limits_default wal)) (\<lambda>_. st p v None) (holds_content n c p v)"
      using triple_pre [OF opens, of "?R True"] by (cases ex) auto
  qed
qed

lemma recover_triple:
  assumes p: "table_path p" and n: "MAX_FRAME \<le> n"
  shows "triple (holds_content n c p v) (recover_path_with_limits c p xbf_limits_default)
    (\<lambda>b d. st p v None d \<or> \<not> b \<and> holds_content n c p v d) (holds_content n c p v)"
proof -
  have skip: "triple (\<lambda>d. holds_content n c p v d \<and> call_fails 0 d) (recover_path_with_limits c p xbf_limits_default)
    (\<lambda>b d. st p v None d \<or> \<not> b \<and> holds_content n c p v d) (holds_content n c p v)"
    by (rule tripleI) (auto simp: recover_skipped)
  have "triple (\<lambda>d. holds_content n c p v d \<and> \<not> call_fails 0 d) (recover_path_with_limits c p xbf_limits_default)
    (\<lambda>b d. st p v None d \<or> \<not> b \<and> holds_content n c p v d) (holds_content n c p v)"
    by (rule triple_weaken [OF recover_seen_triple [OF p n]]) auto
  from triple_pre [OF triple_disj [OF this skip]] show ?thesis by blast
qed

section \<open>Saving\<close>

lemma lock_triple: "triple (holds_content n c p v) table_lock (\<lambda>_. holds_content n c p v) (holds_content n c p v)"
  unfolding table_lock_def
  by (rule triple_map_err, rule tripleI) (metis dk_call_files holds_content_files)+

lemma record_readable: "record_for c base snapshot q \<Longrightarrow> readable [q]"
  by (auto simp: readable_def elim: record_decodes)

lemma record_generation: "record_for c base snapshot q \<Longrightarrow> \<exists>g. generation_is c (Some snapshot) g"
  by (auto simp: record_for_def generation_is_def)

lemma record_size: "record_for c base snapshot q \<Longrightarrow> length q \<le> MAX_WAL_RECORD_SIZE"
  by (auto simp: record_for_def)

lemma holds_log_mono: "holds_log n p old qs d \<Longrightarrow> m \<le> n \<Longrightarrow> holds_log m p old qs d"
  by (auto simp: holds_log_def dest: wal_room_mono)

lemma save_record:
  assumes p: "table_path p" and v: "generation_is c v h" and pen: "pending c v old qs" and g: "generation_is c old g"
    and r: "record_for c g snapshot q" and qs: "readable qs"
  shows "triple (holds_log (n + MAX_FRAME) p old qs)
     (bindp (xwal (dk_wal_open (wal_path p))) (\<lambda>wal.
      bindp (xwal (dk_wal_run (wal_path p) (\<lambda>w. file_append w q) wal)) (\<lambda>(wal, _).
      bindp (xwal (dk_wal_run (wal_path p) file_sync wal)) (\<lambda>(wal, _).
      bindp (write_encoded_path p snapshot) (\<lambda>_.
      bindp (xwal (dk_wal_run (wal_path p) file_clear wal)) (\<lambda>_.
      remove_wal (wal_path p)))))))
    (\<lambda>_. st p (Some snapshot) None) (\<lambda>d. holds_content n c p v d \<or> holds_content n c p (Some snapshot) d)"
  (is "triple _ _ ?Q ?E")
proof (rule triple_seq_err [OF wal_open_triple [OF p]])
  let ?F = "frames (qs @ [q])"
  have pen2: "pending c (Some snapshot) old (qs @ [q])" "pending c (Some snapshot) (Some snapshot) (qs @ [q])"
    using r g qs record_readable [OF r] by (auto simp: pending_def readable_def)
  obtain k where k: "generation_is c (Some snapshot) k" using record_generation [OF r] by blast
  have EL: "holds_log n p old qs d \<Longrightarrow> ?E d" "holds_log n p old (qs @ [q]) d \<Longrightarrow> ?E d"
    "holds_log n p (Some snapshot) (qs @ [q]) d \<Longrightarrow> ?E d" "holds_log n p (Some snapshot) [] d \<Longrightarrow> ?E d" for d
    using holds_contentI [OF v pen] holds_contentI [OF k pen2(1)] holds_contentI [OF k pen2(2)] holds_content_idle [OF k] by auto
  show "holds_log (n + MAX_FRAME) p old qs d \<Longrightarrow> ?E d" for d by (rule EL(1), erule holds_log_mono) simp
  fix w
  have body: "triple (\<lambda>d. st p old (Some (frames qs)) d \<and> opened_wal qs w)
      (bindp (xwal (dk_wal_run (wal_path p) (\<lambda>w. file_append w q) w)) (\<lambda>(wal, _).
      bindp (xwal (dk_wal_run (wal_path p) file_sync wal)) (\<lambda>(wal, _).
      bindp (write_encoded_path p snapshot) (\<lambda>_.
      bindp (xwal (dk_wal_run (wal_path p) file_clear wal)) (\<lambda>_.
      remove_wal (wal_path p)))))) ?Q ?E"
    if s: "list_all (\<lambda>q. length q \<le> MAX_WAL_RECORD_SIZE) qs" and l: "length (frames qs) + (n + MAX_FRAME) < usize_limit"
  proof -
    have lF: "length ?F + n < usize_limit" using l record_size [OF r] by (simp add: frames_snoc MAX_FRAME_def)
    have sF: "list_all (\<lambda>q. length q \<le> MAX_WAL_RECORD_SIZE) (qs @ [q])" using s record_size [OF r] by simp
    have E: "st p old (Some ?F) d \<Longrightarrow> ?E d" "st p (Some snapshot) (Some ?F) d \<Longrightarrow> ?E d" "st p (Some snapshot) (Some []) d \<Longrightarrow> ?E d" for d
      using EL(2) [OF holds_log_frames [OF _ sF lF]] EL(3) [OF holds_log_frames [OF _ sF lF]] EL(4) [OF holds_log_empty(2)] lF
      by simp_all
    have cl: "triple (\<lambda>d. st p (Some snapshot) (Some ?F) d \<and> opened_wal (qs @ [q]) w')
        (bindp (xwal (dk_wal_run (wal_path p) file_clear w')) (\<lambda>_. remove_wal (wal_path p))) ?Q ?E" for w'
    proof (rule triple_seq_err [OF triple_pre [OF clear_triple [OF p, of "Some snapshot" ?F w']]])
      show "triple (st p (Some snapshot) (Some [])) (remove_wal (wal_path p)) ?Q ?E"
        by (rule triple_err [OF remove_triple [OF p]]) (rule E(3))
    qed (use E(2,3) in \<open>auto simp: opened_wal_def\<close>)
    have wr: "triple (\<lambda>d. st p old (Some ?F) d \<and> opened_wal (qs @ [q]) w') (bindp (write_encoded_path p snapshot) (\<lambda>_.
        bindp (xwal (dk_wal_run (wal_path p) file_clear w')) (\<lambda>_. remove_wal (wal_path p)))) ?Q ?E" for w'
      by (rule triple_conj, intro triple_seq [OF write_encoded_triple [OF p]] triple_pre [OF cl]) (use E(1,2) in auto)
    have sy: "triple (\<lambda>d. st p old (Some ?F) d \<and> opened_wal (qs @ [q]) w') (bindp (xwal (dk_wal_run (wal_path p) file_sync w')) (\<lambda>(wal, _).
        bindp (write_encoded_path p snapshot) (\<lambda>_.
        bindp (xwal (dk_wal_run (wal_path p) file_clear wal)) (\<lambda>_. remove_wal (wal_path p))))) ?Q ?E" for w'
      by (rule triple_seq_err [OF sync_triple [OF p]], erule E,
          rule triple_prod [where R = "\<lambda>(w', _) d. st p old (Some ?F) d \<and> opened_wal (qs @ [q]) w'"]) (simp add: wr)
    show ?thesis
      by (rule triple_seq_err [OF append_triple [OF p record_size [OF r] s l]], use EL(1,2) in blast,
          rule triple_prod [where R = "\<lambda>(w', _) d. st p old (Some ?F) d \<and> opened_wal (qs @ [q]) w'"]) (simp add: sy)
  qed
  show "triple (\<lambda>d. st p old (Some (frames qs)) d \<and> opened_wal qs w \<and> holds_log (n + MAX_FRAME) p old qs d)
      (bindp (xwal (dk_wal_run (wal_path p) (\<lambda>w. file_append w q) w)) (\<lambda>(wal, _).
      bindp (xwal (dk_wal_run (wal_path p) file_sync wal)) (\<lambda>(wal, _).
      bindp (write_encoded_path p snapshot) (\<lambda>_.
      bindp (xwal (dk_wal_run (wal_path p) file_clear wal)) (\<lambda>_.
      remove_wal (wal_path p)))))) ?Q ?E"
    by (rule triple_fact [OF opened_facts], assumption, rule triple_pre [OF body]) auto
qed simp

lemma norm_table_generation [simp]: "xt_generation (norm_table t) = xt_generation t"
  by (simp add: norm_table_def)

lemma encode_decodes:
  "encode (fst c) t = Inr snapshot \<Longrightarrow> wf_table (fst c) (snd c) t \<Longrightarrow> decodes c snapshot (norm_table t)"
  using decode_encoded [of "fst c" t xbf_limits_default snapshot "snd c"] by (simp add: encode_def usize_limit_def)

lemma generation_log_triple:
  assumes "generation_is c old g"
  shows "triple (holds_log n p old qs) (current_generation c p xbf_limits_default)
    (\<lambda>x d. holds_log n p old qs d \<and> x = g) (holds_log n p old qs)"
  unfolding holds_log_def
  by (rule triple_ex, rule triple_pre [OF triple_conj [where b = "wal_file qs w \<and> wal_room n w" for w]])
    (auto intro: triple_weaken [OF generation_triple [OF assms]])

lemma pending_readable: "pending c v old qs \<Longrightarrow> readable qs"
  by (auto simp: pending_def readable_def split: if_splits)

lemma save_from:
  assumes p: "table_path p" and wf: "wf_table (fst c) (snd c) t" and v: "generation_is c v h" and pen: "pending c v old qs"
  shows "triple (holds_log (n + MAX_FRAME) p old qs)
     (bindp (current_generation c p xbf_limits_default) (\<lambda>base_generation.
     bindp (liftp (ensure (base_generation < xt_generation t)
       (Xbf_invalid (''XBF generation '' @ show_nat (unat (xt_generation t)) @
         '' is not newer than the current generation '' @ show_nat (unat base_generation))))) (\<lambda>_.
     bindp (liftp (encode (fst c) t)) (\<lambda>snapshot.
     bindp (liftp (xwl_encode_record base_generation (xt_generation t) snapshot)) (\<lambda>rec.
     bindp (liftp (xwl_validate_record_size (length rec))) (\<lambda>_.
     bindp (xwal (dk_wal_open (wal_path p))) (\<lambda>wal.
     bindp (xwal (dk_wal_run (wal_path p) (\<lambda>w. file_append w rec) wal)) (\<lambda>(wal, _).
     bindp (xwal (dk_wal_run (wal_path p) file_sync wal)) (\<lambda>(wal, _).
     bindp (write_encoded_path p snapshot) (\<lambda>_.
     bindp (xwal (dk_wal_run (wal_path p) file_clear wal)) (\<lambda>_.
     remove_wal (wal_path p))))))))))))
    (\<lambda>_ d. \<exists>snapshot. encode (fst c) t = Inr snapshot \<and> st p (Some snapshot) None d)
    (\<lambda>d. holds_content n c p v d \<or> (\<exists>snapshot. encode (fst c) t = Inr snapshot \<and> holds_content n c p (Some snapshot) d))"
  (is "triple _ _ ?Q ?E")
proof -
  obtain g where g: "generation_is c old g" using pending_old [OF pen v] by blast
  have log: "holds_log (n + MAX_FRAME) p old qs d \<Longrightarrow> ?E d" for d
    using holds_contentI [OF v pen holds_log_mono, of "n + MAX_FRAME"] by simp
  show ?thesis
  proof (rule triple_seq [OF generation_log_triple [OF g]], erule log, rule triple_conj, rule triple_lift_bind, erule log,
      rule triple_lift_bind, erule log, rule triple_lift_bind, erule log, rule triple_lift_bind, erule log)
    fix x u snapshot q u'
    assume x: "x = g" and newer: "ensure (x < xt_generation t) (Xbf_invalid (''XBF generation '' @ show_nat (unat (xt_generation t)) @
         '' is not newer than the current generation '' @ show_nat (unat x))) = Inr u"
      and enc: "encode (fst c) t = Inr snapshot" and q: "xwl_encode_record x (xt_generation t) snapshot = Inr q"
      and size: "xwl_validate_record_size (length q) = Inr u'"
    have "record_for c g snapshot q"
      using encode_decodes [OF enc wf] newer q size x
      by (auto simp: record_for_def ensure_Inr_iff xwl_validate_record_size_def intro!: exI [of _ "norm_table t"])
    from save_record [OF p v pen g this pending_readable [OF pen]]
    show "triple (holds_log (n + MAX_FRAME) p old qs)
     (bindp (xwal (dk_wal_open (wal_path p))) (\<lambda>wal.
      bindp (xwal (dk_wal_run (wal_path p) (\<lambda>w. file_append w q) wal)) (\<lambda>(wal, _).
      bindp (xwal (dk_wal_run (wal_path p) file_sync wal)) (\<lambda>(wal, _).
      bindp (write_encoded_path p snapshot) (\<lambda>_.
      bindp (xwal (dk_wal_run (wal_path p) file_clear wal)) (\<lambda>_.
      remove_wal (wal_path p))))))) ?Q ?E"
      by (rule triple_weaken) (use enc in auto)
  qed
qed

lemma holds_content_none: "generation_is c v g \<Longrightarrow> n < usize_limit \<Longrightarrow> st p v None d \<Longrightarrow> holds_content n c p v d"
  by (rule holds_content_idle [OF _ holds_log_empty(1)])

lemma holds_content_mono: "holds_content n c p v d \<Longrightarrow> m \<le> n \<Longrightarrow> holds_content m c p v d"
  by (auto simp: holds_content_def dest: holds_log_mono)

lemma max_frame_limit: "2 * MAX_FRAME < usize_limit"
  by (simp add: MAX_FRAME_def wal_consts usize_limit_def)

lemma save_triple:
  assumes p: "table_path p" and wf: "wf_table (fst c) (snd c) t"
  shows "triple (holds_content (MAX_FRAME + MAX_FRAME) c p v) (save_with_wal c p t)
    (\<lambda>_ d. \<exists>snapshot. encode (fst c) t = Inr snapshot \<and> st p (Some snapshot) None d)
    (\<lambda>d. represents c p v d \<or> (\<exists>snapshot. encode (fst c) t = Inr snapshot \<and> represents c p (Some snapshot) d))"
  (is "triple _ _ ?Q ?E")
proof (cases "\<exists>g. generation_is c v g")
  case True
  then obtain g where g: "generation_is c v g" by blast
  let ?P = "holds_content (MAX_FRAME + MAX_FRAME) c p v"
  have E: "?P d \<Longrightarrow> ?E d" for d using holds_content_mono by fastforce
  have none: "st p v None d \<Longrightarrow> ?P d" for d using holds_content_none [OF g] max_frame_limit by simp
  note save = triple_ex [OF triple_ex [OF triple_conj [OF save_from [OF p wf g]]]]
  show ?thesis
    unfolding save_with_wal_def
  proof (rule triple_seq [OF lock_triple E], assumption, rule triple_seq [OF recover_triple [OF p] E], simp, assumption)
    fix b
    show "triple (\<lambda>d. st p v None d \<or> \<not> b \<and> ?P d)
     (bindp (current_generation c p xbf_limits_default) (\<lambda>base_generation.
     bindp (liftp (ensure (base_generation < xt_generation t)
       (Xbf_invalid (''XBF generation '' @ show_nat (unat (xt_generation t)) @
         '' is not newer than the current generation '' @ show_nat (unat base_generation))))) (\<lambda>_.
     bindp (liftp (encode (fst c) t)) (\<lambda>snapshot.
     bindp (liftp (xwl_encode_record base_generation (xt_generation t) snapshot)) (\<lambda>rec.
     bindp (liftp (xwl_validate_record_size (length rec))) (\<lambda>_.
     bindp (xwal (dk_wal_open (wal_path p))) (\<lambda>wal.
     bindp (xwal (dk_wal_run (wal_path p) (\<lambda>w. file_append w rec) wal)) (\<lambda>(wal, _).
     bindp (xwal (dk_wal_run (wal_path p) file_sync wal)) (\<lambda>(wal, _).
     bindp (write_encoded_path p snapshot) (\<lambda>_.
     bindp (xwal (dk_wal_run (wal_path p) file_clear wal)) (\<lambda>_.
     remove_wal (wal_path p)))))))))))) ?Q ?E"
      by (rule triple_pre [OF save], assumption) (use none in \<open>auto simp: holds_content_def\<close>)
  qed
qed (simp add: triple_def holds_content_def)

section \<open>Runs without faults\<close>

definition completes :: "(disk, 'e, 'a) prog \<Rightarrow> disk \<Rightarrow> bool" where
  "completes p d \<longleftrightarrow> (\<exists>d' x. p d = (d', Inr x) \<and> dk_faults d' = [])"

lemma completes_bind:
  "completes p d \<Longrightarrow> (\<And>x d'. p d = (d', Inr x) \<Longrightarrow> dk_faults d' = [] \<Longrightarrow> completes (f x) d') \<Longrightarrow> completes (bindp p f) d"
  unfolding completes_def by (fastforce simp: bindp_Inr)

lemma completes_map_err [simp]: "completes (map_errp g p) d = completes p d"
  by (simp add: completes_def map_errp_iff)

lemma completes_ret [simp]: "completes (retp x) d \<longleftrightarrow> dk_faults d = []"
  by (simp add: completes_def retp_def)

lemma completes_lift [simp]: "completes (liftp (Inr x)) d \<longleftrightarrow> dk_faults d = []"
  by (simp add: completes_def liftp_def)

lemma dk_call_quiet [simp]: "dk_faults d = [] \<Longrightarrow> dk_call d = (d, Inr ())"
  by (simp add: dk_call_def dk_pop_def)

lemma dk_read_quiet [simp]: "dk_faults d = [] \<Longrightarrow> dk_read q d = (d, ok_or Not_found (dk_files d q))"
  by (simp add: dk_read_def bindp_def getp_def liftp_def)

lemma write_encoded_completes: "dk_faults d = [] \<Longrightarrow> completes (write_encoded_path p bs) d"
  by (simp add: write_encoded_path_def completes_def bindp_def map_errp_def dk_create_def dk_write_def dk_rename_def
      dk_pop_def dk_set_def ok_or_def)

lemma clear_completes: "dk_faults d = [] \<Longrightarrow> completes (remove_wal_after_clear w q) d"
  by (simp add: remove_wal_after_clear_def completes_def bindp_def map_errp_def dk_wal_run_def file_clear_def set_len_def
      seek_def sync_all_def pop_fault_def remove_wal_def dk_remove_def dk_set_def ok_or_def)

lemma generation_completes:
  "generation_is c old g \<Longrightarrow> st p old w d \<Longrightarrow> dk_faults d = [] \<Longrightarrow> completes (current_generation c p xbf_limits_default) d"
  by (auto simp: completes_def current_generation_def read_path_without_recovery_with_limits_def generation_is_def st_def
      bindp_def map_errp_def liftp_def ok_or_def ensure_def split: option.splits dest: decode_limit)

lemma open_completes:
  assumes "holds_log n p old qs d" "MAX_FRAME \<le> n" "dk_faults d = []"
  shows "completes (dk_wal_open (wal_path p)) d"
proof -
  let ?b = "case dk_files d (wal_path p) of None \<Rightarrow> [] | Some b \<Rightarrow> b"
  have "wal_image qs ?b" "length ?b + MAX_FRAME < usize_limit"
    using assms(1,2) by (auto simp: holds_log_def st_def wal_file_def wal_room_def split: option.splits)
  from open_quiet [OF this] show ?thesis
    using assms(3) by (auto simp: completes_def dk_wal_open_def Let_def dk_set_def)
qed

lemma recover_opened_completes:
  assumes g: "generation_is c v g" and pen: "pending c v old qs" and w: "opened_wal qs w"
    and s: "st p old (Some (frames qs)) d" and f: "dk_faults d = []"
  shows "completes (recover_opened c p xbf_limits_default w) d"
proof (cases "qs = []")
  case True
  then show ?thesis using w f by (auto simp: recover_opened_def opened_wal_def intro!: completes_bind clear_completes)
next
  case False
  then obtain snapshot base where r: "v = Some snapshot" "record_for c base snapshot (last qs)"
    "generation_is c old base \<or> old = v" "readable qs" using pen by (auto simp: pending_def)
  obtain t where t: "decodes c snapshot t" "base < xt_generation t"
    "xwl_decode_record (last qs) xbf_limits_default = Inr (base, xt_generation t, snapshot)" by (rule record_decodes [OF r(2)])
  obtain h where h: "generation_is c old h" "h = base \<or> h = xt_generation t"
    using pending_old [OF pen g] r(1,3) t(1) by (auto simp: generation_is_def)
  have rec: "completes (recover_record c p xbf_limits_default w h (base, xt_generation t, snapshot)) d'"
    if "dk_faults d' = []" for d'
    using that h(2) by (auto simp: recover_record_def t(1) intro!: completes_bind clear_completes write_encoded_completes)
  have rs: "fw_records w = lsn_records qs" using w by (simp add: opened_wal_def)
  show ?thesis
    unfolding recover_opened_def rs
    using generation_completes [OF h(1) s f] tripleD(1) [OF generation_triple [OF h(1)] s] rec
    by (auto simp: False decode_pending [OF r(4) False t(3)] ok_or_def intro!: completes_bind)
qed

lemma represents_completes:
  assumes p: "table_path p" and r: "represents c p v d" and f: "dk_faults d = []"
  shows "completes (recover_path_with_limits c p xbf_limits_default) d"
proof -
  obtain g old qs where c: "generation_is c v g" "pending c v old qs" "holds_log MAX_FRAME p old qs d"
    using r by (auto simp: holds_content_def)
  have ex: "dk_exists (wal_path p) d = (d, Inr (dk_files d (wal_path p) \<noteq> None))" using f by (simp add: dk_exists_def dk_pop_def)
  have "completes (recover_opened c p xbf_limits_default w) d'"
    if "dk_wal_open (wal_path p) d = (d', Inr w)" "dk_faults d' = []" for w d'
    using tripleD(1) [OF wal_open_triple [OF p order_refl] c(3) that(1)] recover_opened_completes [OF c(1,2)] that(2) by blast
  then have "completes (bindp (xwal (dk_wal_open (wal_path p))) (\<lambda>wal. recover_opened c p xbf_limits_default wal)) d"
    using open_completes [OF c(3) order_refl f] by (auto intro!: completes_bind simp: map_errp_iff)
  then show ?thesis
    unfolding recover_path_with_limits_def using f
    by (intro completes_bind) (auto simp: map_errp_iff ex, simp add: completes_def ex)
qed

section \<open>Properties of the store\<close>

lemma recover_path_triple:
  "table_path p \<Longrightarrow> triple (represents c p v) (recover_path c p) (\<lambda>b d. st p v None d \<or> \<not> b \<and> represents c p v d) (represents c p v)"
  unfolding recover_path_def by (rule triple_bind [OF lock_triple recover_triple]) simp_all

lemma represents_none: "represents c p v d \<Longrightarrow> st p v None d' \<Longrightarrow> represents c p v d'"
  using holds_content_none [of c v _ MAX_FRAME] max_frame_limit by (auto simp: holds_content_def)

lemma recover_path_represents:
  assumes "table_path p" "represents c p v d"
  shows "represents c p v (fst (recover_path c p d))"
proof (cases "recover_path c p d")
  case (Pair d' r)
  then show ?thesis
    using tripleD [OF recover_path_triple [OF assms(1)] assms(2)] represents_none [OF assms(2)]
    by (cases r) auto
qed

lemma lock_quiet: "dk_faults d = [] \<Longrightarrow> table_lock d = (d, Inr ())"
  by (simp add: table_lock_def map_errp_def)

lemma quiet_no_fail: "dk_faults d = [] \<Longrightarrow> \<not> call_fails i d"
  by (simp add: call_fails_def)

lemma recover_quiet:
  assumes "table_path p" "represents c p v d" "dk_faults d = []"
  obtains d' b where "recover_path_with_limits c p xbf_limits_default d = (d', Inr b)" "st p v None d'" "dk_faults d' = []"
  using represents_completes [OF assms] tripleD(1) [OF recover_seen_triple [OF assms(1) order_refl]]
    assms(2) quiet_no_fail [OF assms(3)]
  unfolding completes_def by blast

interpretation xbf_recovery: recoverable "\<lambda>v d. table_path p \<and> represents c p v d" "\<lambda>v. st p v None" "recover_path c p" for p c
proof
  fix v d fs
  show "(table_path p \<and> represents c p v (d\<lparr>dk_faults := fs\<rparr>)) = (table_path p \<and> represents c p v d)" by simp
next
  fix v d
  assume r: "table_path p \<and> represents c p v d"
  then show "table_path p \<and> represents c p v (fst (recover_path c p d))" by (simp add: recover_path_represents)
  assume "dk_faults d = []"
  with r show "\<exists>d' x. recover_path c p d = (d', Inr x) \<and> st p v None d' \<and> dk_faults d' = []"
    by (auto simp: recover_path_def bindp_def lock_quiet elim: recover_quiet)
qed

lemma read_recovers:
  "dk_faults d = [] \<Longrightarrow> read_path c p d = bindp (recover_path c p) (\<lambda>_. read_path_without_recovery_with_limits c p xbf_limits_default) d"
  by (simp add: read_path_def read_path_with_limits_def recover_path_def bindp_def lock_quiet)

lemma read_settled:
  "st p (Some bs) None d \<Longrightarrow> dk_faults d = [] \<Longrightarrow> decodes c bs t \<Longrightarrow>
     read_path_without_recovery_with_limits c p xbf_limits_default d = (d, Inr t)"
  by (auto simp: bindp_def st_def read_path_without_recovery_with_limits_def
      map_errp_def liftp_def ok_or_def ensure_def dest: decode_limit)

lemma read_attempts:
  assumes "table_path p" "represents c p (Some bs) d"
  shows "\<exists>d' t. read_path c p ((attempts (recover_path c p) fss d)\<lparr>dk_faults := []\<rparr>) = (d', Inr t) \<and> decodes c bs t"
proof -
  obtain t where t: "decodes c bs t" using assms(2) by (auto simp: holds_content_def generation_is_def)
  obtain d' b where r: "recover_path c p ((attempts (recover_path c p) fss d)\<lparr>dk_faults := []\<rparr>) = (d', Inr b)"
    "st p (Some bs) None d'" "dk_faults d' = []"
    using xbf_recovery.attempts_settle [of p c "Some bs" d fss] assms by blast
  with read_settled [OF r(2,3) t] t show ?thesis by (simp add: read_recovers bindp_def)
qed

lemma lock_seen:
  "table_lock d = (d', Inr u) \<Longrightarrow> dk_files d' = dk_files d \<and> call_fails 0 d' = call_fails 1 d"
  by (auto simp: table_lock_def map_errp_iff dk_call_def dk_pop_def call_fails_def split: prod.splits option.splits list.splits)

lemma write_locked:
  assumes p: "table_path p" and r: "represents c p v d" and i: "idle p v d \<or> \<not> call_fails 0 d"
  shows "case bindp (recover_path_with_limits c p xbf_limits_default) (\<lambda>_. write_encoded_path p bs) d of
      (d', Inl _) \<Rightarrow> represents c p v d' \<or> idle p (Some bs) d'
    | (d', Inr _) \<Rightarrow> idle p (Some bs) d' \<and> dk_files d' p = Some bs \<and> (call_fails 0 d \<or> dk_files d' (wal_path p) = None)"
proof -
  obtain g where g: "generation_is c v g" using r by (auto simp: holds_content_def)
  have wr: "case write_encoded_path p bs e of
      (d', Inl _) \<Rightarrow> represents c p v d' \<or> idle p (Some bs) d'
    | (d', Inr _) \<Rightarrow> idle p (Some bs) d' \<and> dk_files d' p = Some bs \<and> dk_files d' (wal_path p) = w"
    if e: "st p v w e" "wal_file [] w" "wal_room MAX_FRAME w" for e w
  proof -
    have log: "st p x w d' \<Longrightarrow> holds_log MAX_FRAME p x [] d'" for x d' using e(2,3) by (auto simp: holds_log_def)
    obtain d' x where r: "write_encoded_path p bs e = (d', x)" by fastforce
    show ?thesis
    proof (cases x)
      case (Inl y)
      then have "st p v w d' \<or> st p (Some bs) w d'" using r tripleD(2) [OF write_encoded_triple [OF p] e(1)] by blast
      then show ?thesis using r Inl log holds_content_idle [OF g] by auto
    next
      case (Inr y)
      then have "st p (Some bs) w d'" using r tripleD(1) [OF write_encoded_triple [OF p] e(1)] by blast
      from this log [OF this] show ?thesis using r Inr by (simp add: st_def)
    qed
  qed
  show ?thesis
  proof (cases "call_fails 0 d")
    case True
    then obtain w where "st p v w d" "wal_file [] w" "wal_room MAX_FRAME w" using i by (auto simp: holds_log_def)
    then have "st p v w (d\<lparr>dk_faults := tl (dk_faults d)\<rparr>)" "wal_file [] w" "wal_room MAX_FRAME w" by (simp_all add: st_def)
    from wr [OF this] True show ?thesis by (auto simp: bindp_def recover_skipped split: prod.splits sum.splits)
  next
    case False
    obtain e x where e: "recover_path_with_limits c p xbf_limits_default d = (e, x)" by fastforce
    have none: "wal_file [] None" "wal_room MAX_FRAME None" using max_frame_limit by (simp_all add: wal_file_def wal_room_def)
    show ?thesis
      using False r e tripleD [OF recover_seen_triple [OF p order_refl], of c v d e] wr [OF _ none, of e]
      by (cases x) (auto simp: bindp_def split: prod.splits sum.splits)
  qed
qed

lemma write_over_log:
  assumes "dk_faults d = [None, Some k]" "encode (fst c) t = Inr bs" "table_path p"
  obtains d' where "write_path c p t d = (d', Inr ())" "st p (Some bs) (dk_files d (wal_path p)) d'" "dk_faults d' = []"
proof -
  have e: "encode_with_limits (fst c) t xbf_limits_default = Inr bs" using assms(2) by (simp add: encode_def)
  let ?d = "d\<lparr>dk_faults := []\<rparr>"
  obtain d' u where w: "write_encoded_path p bs ?d = (d', Inr u)" "dk_faults d' = []"
    using write_encoded_completes [of ?d p bs] by (auto simp: completes_def)
  have "call_fails 0 (d\<lparr>dk_faults := [Some k]\<rparr>)" by (simp add: call_fails_def)
  from recover_skipped [OF this, of c p xbf_limits_default] have "write_path c p t d = (d', Inr ())"
    using assms(1) w(1)
    by (simp add: write_path_def write_path_with_limits_def e bindp_def table_lock_def map_errp_def dk_call_def dk_pop_def)
  moreover have "st p (dk_files d p) (dk_files d (wal_path p)) ?d" by (simp add: st_def)
  from tripleD(1) [OF write_encoded_triple [OF assms(3)] this w(1)] have "st p (Some bs) (dk_files d (wal_path p)) d'" .
  ultimately show ?thesis using that w(2) by blast
qed

lemma recover_refuses:
  assumes p: "table_path p" and g: "generation_is c (Some bs) g" and r: "record_for c base snapshot q" and u: "decodes c snapshot u"
    and ne: "g \<noteq> base" "g \<noteq> xt_generation u" and s: "st p (Some bs) (Some (frames [q])) d" and f: "dk_faults d = []"
  shows "\<exists>d' e. recover_path_with_limits c p xbf_limits_default d = (d', Inl e)"
proof -
  have len: "length (frames [q]) + MAX_FRAME < usize_limit"
    using record_size [OF r] max_frame_limit frames_snoc [of "[]" q] by (simp add: MAX_FRAME_def)
  have log: "holds_log MAX_FRAME p (Some bs) [q] d" using record_size [OF r] len by (intro holds_log_frames [OF s]) auto
  obtain d1 w where o: "dk_wal_open (wal_path p) d = (d1, Inr w)" "dk_faults d1 = []"
    using open_completes [OF log order_refl f] by (auto simp: completes_def)
  have w: "st p (Some bs) (Some (frames [q])) d1" "opened_wal [q] w"
    using tripleD(1) [OF wal_open_triple [OF p order_refl] log o(1)] by auto
  obtain d2 x where c: "current_generation c p xbf_limits_default d1 = (d2, Inr x)" "dk_faults d2 = []"
    using generation_completes [OF g w(1) o(2)] by (auto simp: completes_def)
  have x: "x = g" using tripleD(1) [OF generation_triple [OF g] w(1) c(1)] by simp
  have dec: "xwl_decode_all (fw_records w) xbf_limits_default None = Inr (Some (base, xt_generation u, snapshot))"
  proof -
    obtain t where t: "decodes c snapshot t" "xwl_decode_record q xbf_limits_default = Inr (base, xt_generation t, snapshot)"
      by (rule record_decodes [OF r])
    then have "t = u" using u by simp
    then show ?thesis using decode_pending [OF record_readable [OF r]] t(2) w(2) by (simp add: opened_wal_def)
  qed
  have "fw_records w \<noteq> []" using w(2) by (simp add: opened_wal_def)
  then have "\<exists>d' e. recover_opened c p xbf_limits_default w d1 = (d', Inl e)"
    using ne c x u dec by (simp add: recover_opened_def bindp_def liftp_def ok_or_def recover_record_def ensure_def)
  then show ?thesis
    using o(1) f s by (auto simp: recover_path_with_limits_def bindp_def map_errp_def dk_exists_def dk_pop_def st_def)
qed

lemma more_room:
  "represents c p v d \<Longrightarrow> wal_room (2 * MAX_FRAME) (dk_files d (wal_path p)) \<Longrightarrow> holds_content (MAX_FRAME + MAX_FRAME) c p v d"
  by (auto simp: holds_content_def holds_log_def st_def mult_2)

definition sample_path :: file_path where
  "sample_path = \<lparr>fp_dir = ''data'', fp_stem = ''t'', fp_ext = Some ''xbf''\<rparr>"

definition sample_codec :: json_codec where
  "sample_codec = (sample_to_vec, sample_from_slice)"

definition sample_at :: "u64 \<Rightarrow> xbf_table" where
  "sample_at g = sample_table\<lparr>xt_generation := g\<rparr>"

lemma sample_path_ok: "table_path sample_path"
  by (simp add: table_path_def sample_path_def)

lemma sample_at_wf: "wf_table (fst sample_codec) (snd sample_codec) (sample_at g)"
  using sample_wf by (simp add: wf_table_def sample_codec_def sample_at_def)

lemma sample_at_encodes: "\<exists>bs. encode (fst sample_codec) (sample_at g) = Inr bs \<and> length bs = 201"
  using sample_encodes_at by (simp add: encode_def sample_codec_def sample_at_def)

lemma sample_at_generation: "encode (fst sample_codec) (sample_at g) = Inr bs \<Longrightarrow> generation_is sample_codec (Some bs) g"
  using encode_decodes [OF _ sample_at_wf] by (fastforce simp: generation_is_def sample_at_def)

text \<open>
  A save of generation 4 stopped after the log was written: the table file has generation 3
  and the log the record of generation 4.
\<close>

definition sample_disk :: "bytes \<Rightarrow> bytes \<Rightarrow> nat option list \<Rightarrow> disk" where
  "sample_disk bs q fs = \<lparr>dk_files = [sample_path \<mapsto> bs, wal_path sample_path \<mapsto> wal_frame 0 q], dk_faults = fs\<rparr>"

definition sample_stopped :: "bytes \<Rightarrow> bytes \<Rightarrow> bytes \<Rightarrow> bool" where
  "sample_stopped bs snapshot q \<longleftrightarrow> encode (fst sample_codec) (sample_at 3) = Inr bs \<and>
     encode (fst sample_codec) (sample_at 4) = Inr snapshot \<and> xwl_encode_record 3 4 snapshot = Inr q"

lemma sample_stopped_exists: "\<exists>bs snapshot q. sample_stopped bs snapshot q"
  using sample_at_encodes [of 3] sample_at_encodes [of 4]
  by (auto simp: sample_stopped_def xwl_encode_record_def u64_try_from_def)

lemma sample_record:
  assumes "sample_stopped bs snapshot q"
  shows "record_for sample_codec 3 snapshot q"
proof -
  have "length snapshot = 201" using assms sample_at_encodes [of 4] by (auto simp: sample_stopped_def)
  then have "length q \<le> MAX_WAL_RECORD_SIZE"
    using assms by (auto simp: sample_stopped_def xwl_encode_record_def bindr_Inr_iff ok_or_Inr_iff XWL_MAGIC_def wal_consts)
  then show ?thesis
    using assms encode_decodes [OF _ sample_at_wf, of 4 snapshot]
    by (auto simp: record_for_def sample_stopped_def sample_at_def intro!: exI [of _ "norm_table (sample_at 4)"])
qed

lemma frames_one: "frames [q] = wal_frame 0 q"
  using frames_snoc [of "[]" q] by simp

lemma sample_disk_files: "st sample_path (Some bs) (Some (wal_frame 0 q)) (sample_disk bs q fs)"
  using paths_differ [OF sample_path_ok] by (simp add: st_def sample_disk_def)

lemma sample_disk_room:
  assumes "sample_stopped bs snapshot q"
  shows "wal_room (2 * MAX_FRAME) (Some (wal_frame 0 q))"
  using record_size [OF sample_record [OF assms]] by (simp add: wal_room_def MAX_FRAME_def wal_consts usize_limit_def)

lemma sample_disk_represents:
  assumes "sample_stopped bs snapshot q"
  shows "represents sample_codec sample_path (Some snapshot) (sample_disk bs q fs)"
proof (rule holds_contentI)
  show "generation_is sample_codec (Some snapshot) 4" using assms sample_at_generation by (simp add: sample_stopped_def)
  have "generation_is sample_codec (Some bs) 3" using assms sample_at_generation by (simp add: sample_stopped_def)
  then show "pending sample_codec (Some snapshot) (Some bs) [q]"
    using sample_record [OF assms] record_readable [OF sample_record [OF assms]] by (auto simp: pending_def)
  show "holds_log MAX_FRAME sample_path (Some bs) [q] (sample_disk bs q fs)"
    using record_size [OF sample_record [OF assms]] sample_disk_room [OF assms] sample_disk_files [of bs q fs]
    by (intro holds_log_frames) (auto simp: frames_one wal_room_def)
qed

text \<open>
  C1. Saving is an atomic replacement of the table, whatever calls of the file system fail
  and wherever the process stops: when \<open>save_with_wal\<close> returns, the file holds the new
  snapshot and the log is gone; when it fails or stops, the files still represent the old
  content or already represent the new one.  This includes a failing test for an existing log,
  after which the save appends to a log it did not recover; the log has room for one more
  record below the limit of \<open>usize\<close>.
\<close>

theorem save_with_wal_atomic:
  assumes "table_path p" "wf_table (fst c) (snd c) t" "represents c p v d"
    and "wal_room (2 * MAX_FRAME) (dk_files d (wal_path p))" "save_with_wal c p t d = (d', r)"
  shows "case r of
      Inr _ \<Rightarrow> \<exists>snapshot. encode (fst c) t = Inr snapshot \<and> dk_files d' p = Some snapshot \<and> dk_files d' (wal_path p) = None
    | Inl _ \<Rightarrow> represents c p v d' \<or>
        (\<exists>snapshot. encode (fst c) t = Inr snapshot \<and> represents c p (Some snapshot) d')"
  using tripleD [OF save_triple [OF assms(1,2)] more_room [OF assms(3,4)]] assms(5) by (cases r) (auto simp: st_def)

theorem save_with_wal_atomic_witness:
  "\<exists>bs snapshot q. sample_stopped bs snapshot q \<and>
   (case save_with_wal sample_codec sample_path (sample_at 5) (sample_disk bs q [None, Some 0, None, None, None, None, None, Some 5]) of
     (d', r) \<Rightarrow> (case r of
      Inr _ \<Rightarrow> \<exists>new. encode (fst sample_codec) (sample_at 5) = Inr new \<and> dk_files d' sample_path = Some new \<and>
         dk_files d' (wal_path sample_path) = None
    | Inl _ \<Rightarrow> represents sample_codec sample_path (Some snapshot) d' \<or>
        (\<exists>new. encode (fst sample_codec) (sample_at 5) = Inr new \<and>
           represents sample_codec sample_path (Some new) d')))"
proof -
  let ?fs = "[None, Some 0, None, None, None, None, None, Some 5]"
  obtain bs snapshot q where s: "sample_stopped bs snapshot q" using sample_stopped_exists by blast
  have room: "wal_room (2 * MAX_FRAME) (dk_files (sample_disk bs q ?fs) (wal_path sample_path))"
    using sample_disk_room [OF s] sample_disk_files [of bs q ?fs] by (simp add: st_def)
  obtain d' r where run: "save_with_wal sample_codec sample_path (sample_at 5) (sample_disk bs q ?fs) = (d', r)" by fastforce
  show ?thesis
    using save_with_wal_atomic [OF sample_path_ok sample_at_wf sample_disk_represents [OF s] room run] run s
    by (intro exI [of _ bs] exI [of _ snapshot] exI [of _ q]) (simp split: sum.splits)
qed

text \<open>
  C10. \<open>write_path\<close> replaces the table file atomically as well, when the log has no whole record
  or the test for an existing log does not fail: it leaves the old content or the encoded table,
  and never a part of it.  When it returns, the table file holds the encoded table and no record
  is left that a later recovery could redo.
\<close>

theorem write_path_atomic:
  assumes "table_path p" "represents c p v d" "idle p v d \<or> \<not> call_fails 1 d" "write_path c p t d = (d', r)"
  shows "(represents c p v d' \<or> (\<exists>bs. encode (fst c) t = Inr bs \<and> idle p (Some bs) d')) \<and>
    (r = Inr () \<longrightarrow> (\<exists>bs. encode (fst c) t = Inr bs \<and> dk_files d' p = Some bs \<and> idle p (Some bs) d' \<and>
       (call_fails 1 d \<or> dk_files d' (wal_path p) = None)))"
proof (cases "encode (fst c) t")
  case (Inl e)
  then show ?thesis using assms(2,4) by (auto simp: write_path_def write_path_with_limits_def encode_def bindp_def liftp_def)
next
  case (Inr bs)
  obtain d1 x where l: "table_lock d = (d1, x)" by fastforce
  have w: "write_path c p t d = bindp table_lock (\<lambda>_. bindp (recover_path_with_limits c p xbf_limits_default)
      (\<lambda>_. write_encoded_path p bs)) d"
    using Inr by (simp add: write_path_def write_path_with_limits_def encode_def)
  have f: "dk_files d1 = dk_files d" using l by (cases x) (auto simp: table_lock_def map_errp_iff dest: dk_call_files)
  show ?thesis
  proof (cases x)
    case (Inl e)
    then show ?thesis using assms(2,4) w l holds_content_files [OF f] by (auto simp: bindp_def)
  next
    case x: (Inr u)
    have "represents c p v d1" "idle p v d1 \<or> \<not> call_fails 0 d1"
      using assms(2,3) holds_content_files [OF f] holds_log_files [OF f] lock_seen [of d d1 u] l x by auto
    from write_locked [OF assms(1) this, of bs] show ?thesis
      using assms(4) w l x Inr lock_seen [of d d1 u] by (auto simp: bindp_def [of table_lock] split: prod.splits sum.splits)
  qed
qed

theorem write_path_atomic_witness:
  "\<exists>bs snapshot q. sample_stopped bs snapshot q \<and>
   (case write_path sample_codec sample_path (sample_at 9) (sample_disk bs q [None, None, None, None, None, None, None, Some 5]) of
     (d', r) \<Rightarrow> represents sample_codec sample_path (Some snapshot) d' \<or>
        (\<exists>new. encode (fst sample_codec) (sample_at 9) = Inr new \<and> idle sample_path (Some new) d'))"
proof -
  let ?fs = "[None, None, None, None, None, None, None, Some 5]"
  obtain bs snapshot q where s: "sample_stopped bs snapshot q" using sample_stopped_exists by blast
  have seen: "idle sample_path (Some snapshot) (sample_disk bs q ?fs) \<or> \<not> call_fails 1 (sample_disk bs q ?fs)"
    by (simp add: sample_disk_def call_fails_def)
  obtain d' r where run: "write_path sample_codec sample_path (sample_at 9) (sample_disk bs q ?fs) = (d', r)" by fastforce
  show ?thesis
    using write_path_atomic [OF sample_path_ok sample_disk_represents [OF s] seen run] run s
    by (intro exI [of _ bs] exI [of _ snapshot] exI [of _ q]) simp
qed

text \<open>
  C37. When the test for an existing log fails, \<open>write_path\<close> returns although the log still
  holds the record of a save that stopped.  The next read without failures then undoes the write
  and returns the table of that record, if the written table has the generation the record
  starts from, and it fails if the table has a generation the record does not name.
\<close>

theorem write_path_over_pending_log:
  assumes "table_path p" "wf_table (fst c) (snd c) t" "encode (fst c) t = Inr bs"
    and "record_for c base snapshot q" "decodes c snapshot u"
    and "dk_files d (wal_path p) = Some (wal_frame 0 q)" "dk_faults d = [None, Some k]"
  shows "\<exists>d1. write_path c p t d = (d1, Inr ()) \<and> dk_files d1 p = Some bs \<and>
    (xt_generation t = base \<longrightarrow> (\<exists>d2. read_path c p d1 = (d2, Inr u))) \<and>
    (xt_generation t \<noteq> base \<and> xt_generation t \<noteq> xt_generation u \<longrightarrow> (\<exists>d2 e. read_path c p d1 = (d2, Inl e)))"
proof -
  obtain d1 where d1: "write_path c p t d = (d1, Inr ())" "st p (Some bs) (Some (frames [q])) d1" "dk_faults d1 = []"
    using write_over_log [OF assms(7,3,1)] assms(6) by (auto simp: frames_one)
  have g: "generation_is c (Some bs) (xt_generation t)" using encode_decodes [OF assms(3,2)] by (simp add: generation_is_def)
  have "\<exists>d2. read_path c p d1 = (d2, Inr u)" if "xt_generation t = base"
  proof -
    have "pending c (Some snapshot) (Some bs) [q]"
      using record_readable [OF assms(4)] assms(4) g that by (auto simp: pending_def)
    moreover have "holds_log MAX_FRAME p (Some bs) [q] d1"
      using record_size [OF assms(4)] by (intro holds_log_frames [OF d1(2)]) (auto simp: frames_one MAX_FRAME_def wal_consts usize_limit_def)
    ultimately have "represents c p (Some snapshot) d1" using record_generation [OF assms(4)] holds_contentI by blast
    moreover have "d1\<lparr>dk_faults := []\<rparr> = d1" using d1(3) by simp
    ultimately show ?thesis using read_attempts [OF assms(1), of c snapshot d1 "[]"] assms(5) by (auto simp: attempts_def)
  qed
  moreover have "\<exists>d2 e. read_path c p d1 = (d2, Inl e)" if "xt_generation t \<noteq> base" "xt_generation t \<noteq> xt_generation u"
    using recover_refuses [OF assms(1) g assms(4,5) that d1(2,3)]
    by (auto simp: read_path_def read_path_with_limits_def bindp_def lock_quiet d1(3))
  ultimately show ?thesis using d1 by (auto simp: st_def)
qed

theorem write_path_over_pending_log_witness:
  "\<exists>bs snapshot q d1 d2. sample_stopped bs snapshot q \<and>
     write_path sample_codec sample_path (sample_at 3) (sample_disk bs q [None, Some 0]) = (d1, Inr ()) \<and>
     read_path sample_codec sample_path d1 = (d2, Inr (norm_table (sample_at 4)))"
proof -
  obtain bs snapshot q where s: "sample_stopped bs snapshot q" using sample_stopped_exists by blast
  then have e: "encode (fst sample_codec) (sample_at 3) = Inr bs" "decodes sample_codec snapshot (norm_table (sample_at 4))"
    using encode_decodes [OF _ sample_at_wf] by (auto simp: sample_stopped_def)
  have f: "dk_files (sample_disk bs q [None, Some 0]) (wal_path sample_path) = Some (wal_frame 0 q)"
    "dk_faults (sample_disk bs q [None, Some 0]) = [None, Some 0]"
    using sample_disk_files [of bs q] by (simp_all add: st_def sample_disk_def)
  show ?thesis
    using write_path_over_pending_log [OF sample_path_ok sample_at_wf e(1) sample_record [OF s] e(2) f] s
    by (intro exI [of _ bs] exI [of _ snapshot] exI [of _ q]) (auto simp: sample_at_def)
qed

text \<open>
  C9. Recovery may itself stop at any call: the content the files represent stays the same.
  When it returns and the test for an existing log did not fail, the table file holds that
  content and no log is left; when that test fails, recovery returns false and has changed
  no file.
\<close>

theorem recover_path_keeps_content:
  assumes "table_path p" "represents c p v d" "recover_path c p d = (d', r)"
  shows "represents c p v d' \<and>
    (\<forall>b. r = Inr b \<longrightarrow> (if call_fails 1 d then \<not> b \<and> dk_files d' = dk_files d
       else dk_files d' p = v \<and> dk_files d' (wal_path p) = None))"
proof -
  have "if call_fails 1 d then \<not> b \<and> dk_files d' = dk_files d else dk_files d' p = v \<and> dk_files d' (wal_path p) = None"
    if "r = Inr b" for b
  proof -
    obtain d1 u where l: "table_lock d = (d1, Inr u)" "recover_path_with_limits c p xbf_limits_default d1 = (d', Inr b)"
      using assms(3) unfolding recover_path_def \<open>r = Inr b\<close> bindp_Inr by blast
    have f: "dk_files d1 = dk_files d" "call_fails 0 d1 = call_fails 1 d" using lock_seen [OF l(1)] by simp_all
    show ?thesis
    proof (cases "call_fails 1 d")
      case True
      then have "call_fails 0 d1" using f(2) by simp
      from recover_skipped [OF this] have "d' = d1\<lparr>dk_faults := tl (dk_faults d1)\<rparr>" "\<not> b" using l(2) by simp_all
      then show ?thesis using True f(1) by simp
    next
      case False
      then have "represents c p v d1 \<and> \<not> call_fails 0 d1" using assms(2) holds_content_files [OF f(1)] f(2) by simp
      from tripleD(1) [OF recover_seen_triple [OF assms(1) order_refl] this l(2)] have "st p v None d'" .
      then show ?thesis using False by (simp add: st_def)
    qed
  qed
  moreover have "represents c p v d'" using recover_path_represents [OF assms(1,2)] assms(3) by simp
  ultimately show ?thesis by blast
qed

theorem recover_path_keeps_content_witness:
  "\<exists>bs snapshot q. sample_stopped bs snapshot q \<and>
     represents sample_codec sample_path (Some snapshot)
       (fst (recover_path sample_codec sample_path (sample_disk bs q [None, None, None, None, None, None, None, None, Some 50]))) \<and>
     (\<exists>d' b. recover_path sample_codec sample_path (sample_disk bs q []) = (d', Inr b) \<and>
        dk_files d' sample_path = Some snapshot \<and> dk_files d' (wal_path sample_path) = None)"
proof -
  let ?fs = "[None, None, None, None, None, None, None, None, Some 50]"
  obtain bs snapshot q where s: "sample_stopped bs snapshot q" using sample_stopped_exists by blast
  obtain d' b where q: "recover_path sample_codec sample_path (sample_disk bs q []) = (d', Inr b)"
    using xbf_recovery.settles [of sample_path sample_codec "Some snapshot" "sample_disk bs q []"] sample_path_ok
      sample_disk_represents [OF s] by (auto simp: sample_disk_def)
  obtain e r where run: "recover_path sample_codec sample_path (sample_disk bs q ?fs) = (e, r)" by fastforce
  have "\<not> call_fails 1 (sample_disk bs q [])" by (simp add: call_fails_def sample_disk_def)
  then show ?thesis
    using recover_path_keeps_content [OF sample_path_ok sample_disk_represents [OF s] q]
      recover_path_keeps_content [OF sample_path_ok sample_disk_represents [OF s] run] q run s
    by (intro exI [of _ bs] exI [of _ snapshot] exI [of _ q]) simp
qed

text \<open>
  C2. A table that was saved once is always readable: after a save with any failures, and
  any number of recovery attempts that fail anywhere, a read that meets no failure returns a
  table. It is the old table or the saved one, and the saved one if the save returned.  As
  above, the log has room for one more record.
\<close>

theorem read_after_save:
  assumes "table_path p" "wf_table (fst c) (snd c) t" "represents c p (Some old) d"
    and "wal_room (2 * MAX_FRAME) (dk_files d (wal_path p))" "save_with_wal c p t d = (d1, r)"
  shows "\<exists>d2 u. read_path c p ((attempts (recover_path c p) fss d1)\<lparr>dk_faults := []\<rparr>) = (d2, Inr u) \<and>
    (decodes c old u \<or> u = norm_table t) \<and> (r = Inr () \<longrightarrow> u = norm_table t)"
proof -
  note save = tripleD [OF save_triple [OF assms(1,2)] more_room [OF assms(3,4)]]
  have cases: "(represents c p (Some old) d1 \<and> r \<noteq> Inr ()) \<or>
      (\<exists>snapshot. encode (fst c) t = Inr snapshot \<and> represents c p (Some snapshot) d1)"
  proof (cases r)
    case (Inl e)
    then show ?thesis using save(2) assms(5) by blast
  next
    case (Inr u)
    then obtain snapshot where s: "encode (fst c) t = Inr snapshot" "st p (Some snapshot) None d1"
      using save(1) assms(5) by blast
    have "generation_is c (Some snapshot) (xt_generation t)"
      using encode_decodes [OF s(1) assms(2)] by (simp add: generation_is_def)
    from holds_content_none [OF this _ s(2)] s(1) show ?thesis using max_frame_limit by simp
  qed
  from cases show ?thesis
    using read_attempts [OF assms(1), of c old] read_attempts [OF assms(1), of c] encode_decodes [OF _ assms(2)]
    by (elim disjE exE conjE) (fastforce, force)
qed

theorem read_after_save_witness:
  "\<exists>bs snapshot q d2 u. sample_stopped bs snapshot q \<and>
     read_path sample_codec sample_path
     ((attempts (recover_path sample_codec sample_path) [[Some 0], [None, Some 1]]
         (fst (save_with_wal sample_codec sample_path (sample_at 5)
           (sample_disk bs q [None, Some 0, None, None, None, None, None, Some 7]))))\<lparr>dk_faults := []\<rparr>) = (d2, Inr u) \<and>
     (u = norm_table (sample_at 4) \<or> u = norm_table (sample_at 5))"
proof -
  let ?fs = "[None, Some 0, None, None, None, None, None, Some 7]"
  obtain bs snapshot q where s: "sample_stopped bs snapshot q" using sample_stopped_exists by blast
  then have dec: "decodes sample_codec snapshot (norm_table (sample_at 4))"
    using encode_decodes [OF _ sample_at_wf] by (auto simp: sample_stopped_def)
  have room: "wal_room (2 * MAX_FRAME) (dk_files (sample_disk bs q ?fs) (wal_path sample_path))"
    using sample_disk_room [OF s] sample_disk_files [of bs q ?fs] by (simp add: st_def)
  obtain d' r where run: "save_with_wal sample_codec sample_path (sample_at 5) (sample_disk bs q ?fs) = (d', r)" by fastforce
  show ?thesis
    using read_after_save [OF sample_path_ok sample_at_wf sample_disk_represents [OF s] room run, of "[[Some 0], [None, Some 1]]"] run s dec
    by (intro exI [of _ bs] exI [of _ snapshot] exI [of _ q]) auto
qed

end
