(* ===== verification/Json_Patch.thy ===== *)
theory Json_Patch
  imports Json Rust_Text "HOL-Library.Sublist"
begin

text \<open>
  Patches of records: \<^verbatim>\<open>src/src/server/json_patch.rs\<close> (JSON Pointer and the six operations of JSON
  Patch) and \<^verbatim>\<open>src/src/server/merge_patch.rs\<close> (JSON Merge Patch on the fields of a record).
\<close>

section \<open>Pointers\<close>

fun decode_token :: "string \<Rightarrow> (string, string) result" where
  "decode_token [] = Inr []"
| "decode_token (c # cs) =
     (if c \<noteq> CHR ''~'' then bindr (decode_token cs) (\<lambda>r. Inr (c # r))
      else case cs of
        [] \<Rightarrow> Inl ''incomplete JSON Pointer escape''
      | d # ds \<Rightarrow>
          if d = CHR ''0'' then bindr (decode_token ds) (\<lambda>r. Inr (CHR ''~'' # r))
          else if d = CHR ''1'' then bindr (decode_token ds) (\<lambda>r. Inr (CHR ''/'' # r))
          else Inl (''invalid JSON Pointer escape ~'' @ first_char cs))"

fun collect :: "('e, 'a) result list \<Rightarrow> ('e, 'a list) result" where
  "collect [] = Inr []"
| "collect (r # rs) = bindr r (\<lambda>x. bindr (collect rs) (\<lambda>xs. Inr (x # xs)))"

definition decode_pointer :: "string \<Rightarrow> (string, string list) result" where
  "decode_pointer path =
     (if path = [] then Inr []
      else case strip_prefix ''/'' path of
        None \<Rightarrow> Inl (''JSON Pointer must be empty or start with '' @ [CHR 0x27, CHR ''/'', CHR 0x27])
      | Some rest \<Rightarrow> collect (map decode_token (split_on CHR ''/'' rest)))"

definition array_index :: "string \<Rightarrow> nat \<Rightarrow> bool \<Rightarrow> (string, nat) result" where
  "array_index token len allow_end =
     (if allow_end \<and> token = ''-'' then Inr len
      else if token = [] \<or> (1 < length token \<and> hd token = CHR ''0'')
      then Inl (''invalid array index: '' @ token)
      else if \<not> list_all is_ascii_digit (string_bytes token)
      then Inl (''invalid array index: '' @ token)
      else
        bindr (ok_or (''array index overflows usize: '' @ token)
          (Option.bind (parse_nat_bytes (string_bytes token)) (\<lambda>n. if n < usize_limit then Some n else None))) (\<lambda>index.
        bindr (ensure (if allow_end then index \<le> len else index < len)
          (''array index out of bounds: '' @ token)) (\<lambda>_.
        Inr index)))"

fun pointer_value :: "json \<Rightarrow> string list \<Rightarrow> (string, json) result" where
  "pointer_value current [] = Inr current"
| "pointer_value current (token # path) =
     (case current of
        JObject kvs \<Rightarrow>
          bindr (ok_or (''path does not exist: '' @ token) (obj_get kvs token)) (\<lambda>v. pointer_value v path)
      | JArray xs \<Rightarrow> bindr (array_index token (length xs) False) (\<lambda>i. pointer_value (xs ! i) path)
      | _ \<Rightarrow> Inl ''path traverses a scalar value'')"

text \<open>
  \<open>pointer_value_mut\<close> returns a reference into the document; the code then changes the value
  it refers to.  Here the change is an argument, and the document around it is rebuilt.
\<close>

fun pointer_value_mut :: "json \<Rightarrow> string list \<Rightarrow> (json \<Rightarrow> (string, json) result) \<Rightarrow> (string, json) result" where
  "pointer_value_mut current [] f = f current"
| "pointer_value_mut current (token # path) f =
     (case current of
        JObject kvs \<Rightarrow>
          bindr (ok_or (''path does not exist: '' @ token) (obj_get kvs token)) (\<lambda>v.
          bindr (pointer_value_mut v path f) (\<lambda>v'. Inr (JObject (obj_insert token v' kvs))))
      | JArray xs \<Rightarrow>
          bindr (array_index token (length xs) False) (\<lambda>i.
          bindr (pointer_value_mut (xs ! i) path f) (\<lambda>v'. Inr (JArray (xs[i := v']))))
      | _ \<Rightarrow> Inl ''path traverses a scalar value'')"

section \<open>Operations\<close>

definition add_at :: "string \<Rightarrow> json \<Rightarrow> json \<Rightarrow> (string, json) result" where
  "add_at token v parent =
     (case parent of
        JObject kvs \<Rightarrow> Inr (JObject (obj_insert token v kvs))
      | JArray xs \<Rightarrow> bindr (array_index token (length xs) True) (\<lambda>i. Inr (JArray (take i xs @ v # drop i xs)))
      | _ \<Rightarrow> Inl ''add path parent is not an object or array'')"

definition add_value :: "json \<Rightarrow> string list \<Rightarrow> json \<Rightarrow> (string, json) result" where
  "add_value root path v =
     (if path = [] then Inr v else pointer_value_mut root (butlast path) (add_at (last path) v))"

definition replace_at :: "string \<Rightarrow> json \<Rightarrow> json \<Rightarrow> (string, json) result" where
  "replace_at token v parent =
     (case parent of
        JObject kvs \<Rightarrow>
          bindr (ensure (obj_get kvs token \<noteq> None) (''replace path does not exist: '' @ token)) (\<lambda>_.
          Inr (JObject (obj_insert token v kvs)))
      | JArray xs \<Rightarrow> bindr (array_index token (length xs) False) (\<lambda>i. Inr (JArray (xs[i := v])))
      | _ \<Rightarrow> Inl ''replace path parent is not an object or array'')"

definition replace_value :: "json \<Rightarrow> string list \<Rightarrow> json \<Rightarrow> (string, json) result" where
  "replace_value root path v =
     (if path = [] then Inr v else pointer_value_mut root (butlast path) (replace_at (last path) v))"

definition remove_at :: "string \<Rightarrow> json \<Rightarrow> (string, json) result" where
  "remove_at token parent =
     (case parent of
        JObject kvs \<Rightarrow>
          bindr (ensure (obj_get kvs token \<noteq> None) (''remove path does not exist: '' @ token)) (\<lambda>_.
          Inr (JObject (obj_remove token kvs)))
      | JArray xs \<Rightarrow> bindr (array_index token (length xs) False) (\<lambda>i. Inr (JArray (take i xs @ drop (Suc i) xs)))
      | _ \<Rightarrow> Inl ''remove path parent is not an object or array'')"

definition remove_value :: "json \<Rightarrow> string list \<Rightarrow> (string, json) result" where
  "remove_value root path =
     (if path = [] then Inl ''remove cannot delete the record root''
      else pointer_value_mut root (butlast path) (remove_at (last path)))"

definition required_value :: "(string \<times> json) list \<Rightarrow> string \<Rightarrow> (string, json) result" where
  "required_value operation op = ok_or (op @ '' operation requires a value'') (obj_get operation ''value'')"

definition string_member :: "(string \<times> json) list \<Rightarrow> string \<Rightarrow> string \<Rightarrow> (string, string) result" where
  "string_member operation name message = ok_or message (Option.bind (obj_get operation name) json_as_str)"

definition json_as_object :: "json \<Rightarrow> (string \<times> json) list option" where
  "json_as_object v = (case v of JObject kvs \<Rightarrow> Some kvs | _ \<Rightarrow> None)"

definition json_as_array :: "json \<Rightarrow> json list option" where
  "json_as_array v = (case v of JArray xs \<Rightarrow> Some xs | _ \<Rightarrow> None)"

definition apply_operation :: "json \<Rightarrow> json \<Rightarrow> (string, json) result" where
  "apply_operation root operation =
     bindr (ok_or ''operation must be an object'' (json_as_object operation)) (\<lambda>operation.
     bindr (string_member operation ''op'' ''operation requires a string op'') (\<lambda>op.
     bindr (string_member operation ''path'' ''operation requires a string path'') (\<lambda>path.
     bindr (decode_pointer path) (\<lambda>path.
     if op = ''add'' then bindr (required_value operation ''add'') (add_value root path)
     else if op = ''remove'' then remove_value root path
     else if op = ''replace'' then bindr (required_value operation ''replace'') (replace_value root path)
     else if op = ''test'' then
       bindr (required_value operation ''test'') (\<lambda>expected.
       bindr (pointer_value root path) (\<lambda>actual.
       bindr (ensure (json_eq actual expected) ''test operation failed'') (\<lambda>_. Inr root)))
     else if op = ''copy'' then
       bindr (string_member operation ''from'' ''copy operation requires a string from'') (\<lambda>from.
       bindr (decode_pointer from) (\<lambda>from.
       bindr (pointer_value root from) (add_value root path)))
     else if op = ''move'' then
       bindr (string_member operation ''from'' ''move operation requires a string from'') (\<lambda>from.
       bindr (decode_pointer from) (\<lambda>from.
       if path \<noteq> from \<and> take (length from) path = from then Inl ''move destination cannot be inside its source''
       else if path = from then Inr root
       else
         bindr (pointer_value root from) (\<lambda>v.
         bindr (remove_value root from) (\<lambda>root'. add_value root' path v))))
     else Inl (''unsupported operation '' @ op)))))"

definition MAX_OPERATIONS :: nat where "MAX_OPERATIONS = 100"

fun apply_operations :: "nat \<Rightarrow> json list \<Rightarrow> json \<Rightarrow> (string, json) result" where
  "apply_operations index [] root = Inr root"
| "apply_operations index (operation # ops) root =
     (case apply_operation root operation of
        Inl e \<Rightarrow> Inl (''JSON Patch operation '' @ show_nat index @ '': '' @ e)
      | Inr root' \<Rightarrow> apply_operations (Suc index) ops root')"

definition apply_patch :: "(string \<times> json) list \<Rightarrow> json \<Rightarrow> (string, (string \<times> json) list) result" where
  "apply_patch current document =
     bindr (ok_or ''JSON Patch body must be an array'' (json_as_array document)) (\<lambda>ops.
     bindr (ensure (length ops \<le> MAX_OPERATIONS)
       (''JSON Patch operation count exceeds '' @ show_nat MAX_OPERATIONS)) (\<lambda>_.
     bindr (apply_operations 0 ops (JObject current)) (\<lambda>root.
     ok_or ''JSON Patch must leave the record root as an object'' (json_as_object root))))"

section \<open>Merge patch\<close>

fun merge_patch_value :: "json \<Rightarrow> json \<Rightarrow> json"
  and merge_members :: "(string \<times> json) list \<Rightarrow> (string \<times> json) list \<Rightarrow> (string \<times> json) list" where
  "merge_patch_value target patch =
     (case patch of
        JObject members \<Rightarrow> JObject (merge_members (case target of JObject kvs \<Rightarrow> kvs | _ \<Rightarrow> []) members)
      | _ \<Rightarrow> patch)"
| "merge_members target [] = target"
| "merge_members target ((key, v) # patch) =
     merge_members
       (if v = JNull then obj_remove key target
        else obj_insert key (merge_patch_value (case obj_get target key of Some t \<Rightarrow> t | None \<Rightarrow> JNull) v) target)
       patch"

text \<open>
  \<open>entry(key).or_insert(Value::Null)\<close>.  In \<open>apply_merge_patch\<close> the merged value is an object,
  as \<open>merge_patch_value\<close> returns one for an object patch; the other case stands for the
  \<open>unreachable!\<close> of the code.
\<close>

definition or_insert_null :: "string \<Rightarrow> (string \<times> json) list \<Rightarrow> (string \<times> json) list" where
  "or_insert_null key kvs = (if obj_get kvs key = None then obj_insert key JNull kvs else kvs)"

definition apply_merge_patch :: "(string \<times> json) list \<Rightarrow> (string \<times> json) list \<Rightarrow> (string \<times> json) list" where
  "apply_merge_patch current patch =
     (let known_fields = obj_keys current;
          unknown_null_fields = map fst (filter (\<lambda>(key, v). v = JNull \<and> obj_get current key = None) patch);
          target = (case merge_patch_value (JObject current) (JObject patch) of JObject kvs \<Rightarrow> kvs | _ \<Rightarrow> [])
      in fold or_insert_null unknown_null_fields (fold or_insert_null known_fields target))"

definition materialize_removed_fields ::
  "(string \<times> json) list \<Rightarrow> (string \<times> json) list \<Rightarrow> (string \<times> json) list" where
  "materialize_removed_fields current patched = fold or_insert_null (obj_keys current) patched"

section \<open>Array indices\<close>

lemma undecimal_snoc [simp]: "undecimal (ds @ [d]) = 10 * undecimal ds + d"
  by (simp add: undecimal_def)

lemma undecimal_pos: "ds \<noteq> [] \<Longrightarrow> hd ds \<noteq> 0 \<Longrightarrow> 0 < undecimal ds"
proof (induction ds rule: rev_induct)
  case (snoc d ds)
  then show ?case by (cases "ds = []") (simp_all add: undecimal_def)
qed simp

lemma decimal_undecimal:
  "ds \<noteq> [] \<Longrightarrow> list_all (\<lambda>d. d < 10) ds \<Longrightarrow> 1 < length ds \<longrightarrow> hd ds \<noteq> 0 \<Longrightarrow> decimal (undecimal ds) = ds"
proof (induction ds rule: rev_induct)
  case (snoc d ds)
  show ?case
  proof (cases "ds = []")
    case True
    with snoc show ?thesis by (simp add: undecimal_def decimal.simps)
  next
    case False
    with snoc have "0 < undecimal ds" by (intro undecimal_pos) auto
    with snoc False show ?thesis by (subst decimal.simps) auto
  qed
qed simp

lemma digit_value: "is_ascii_digit b \<Longrightarrow> unat b - 48 < 10 \<and> 48 \<le> unat b"
  by (auto simp: is_ascii_digit_def word_le_nat_alt)

lemma char_zero_byte: "(word_of_nat (of_char c) :: u8) = 0x30 \<longleftrightarrow> c = CHR ''0''"
  using string_bytes_inject [of "[c]" "''0''"] by (simp add: string_bytes_def)

text \<open>An index has one spelling: the tokens of an array are the decimal numerals.\<close>

lemma array_index_token:
  assumes "array_index token n b = Inr i" "\<not> (b \<and> token = ''-'')"
  shows "string_bytes token = decimal_bytes i \<and> (if b then i \<le> n else i < n)"
proof -
  let ?ds = "map (\<lambda>b. unat b - 48) (string_bytes token)"
  have t: "token \<noteq> []" "1 < length token \<longrightarrow> hd token \<noteq> CHR ''0''" "list_all is_ascii_digit (string_bytes token)"
    and i: "parse_nat_bytes (string_bytes token) = Some i" and le: "if b then i \<le> n else i < n"
    using assms by (auto simp: array_index_def bindr_Inr_iff ok_or_Inr_iff ensure_Inr_iff bind_eq_Some_conv split: if_splits)
  obtain c cs where tok: "token = c # cs" using t(1) by (cases token) auto
  have dig: "is_ascii_digit (word_of_nat (of_char c))" using t(3) tok by (simp add: string_bytes_def)
  then have "(word_of_nat (of_char c) :: u8) \<noteq> 0x2B" by (auto simp: is_ascii_digit_def)
  then have u: "i = undecimal ?ds" using i t(3) tok by (auto simp: parse_nat_bytes_def string_bytes_def)
  have small: "list_all (\<lambda>d. d < 10) ?ds" using t(3) digit_value by (auto simp: list_all_iff)
  have "1 < length ?ds \<longrightarrow> hd ?ds \<noteq> 0"
  proof (intro impI notI)
    assume "1 < length ?ds" "hd ?ds = 0"
    then have "unat (word_of_nat (of_char c) :: u8) = unat (0x30 :: u8)" "cs \<noteq> []"
      using tok digit_value [OF dig] by (auto simp: string_bytes_def)
    then have "(word_of_nat (of_char c) :: u8) = 0x30" by (simp only: word_unat_eq_iff)
    then have "c = CHR ''0''" by (simp add: char_zero_byte)
    then show False using t(2) tok \<open>cs \<noteq> []\<close> by simp
  qed
  with u small have d: "decimal i = ?ds" using decimal_undecimal [of ?ds] t(1) by (simp add: string_bytes_def)
  have "0x30 + word_of_nat (unat b - 48) = b" if "is_ascii_digit b" for b :: u8
    using digit_value [OF that] by (simp add: word_unat_eq_iff unat_word_ariths unat_of_nat)
  then have "decimal_bytes i = string_bytes token"
    using t(3) unfolding decimal_bytes_def d by (auto simp: list_all_iff intro!: map_idI)
  with le show ?thesis by simp
qed

lemma array_index_inj:
  "array_index a n False = Inr i \<Longrightarrow> array_index b n False = Inr i \<Longrightarrow> a = b"
  by (metis array_index_token string_bytes_inject)

lemma array_index_less: "array_index a n False = Inr i \<Longrightarrow> i < n"
  using array_index_token [of a n False i] by simp

lemma array_index_end:
  assumes "array_index a n False = Inr i"
  shows "array_index a (n - 1) True = Inr i"
proof -
  have "i < n" by (rule array_index_less [OF assms])
  moreover have "a \<noteq> ''-''" using assms by (auto simp: array_index_def string_bytes_def is_ascii_digit_def)
  ultimately show ?thesis using assms
    by (auto simp: array_index_def bindr_Inr_iff ok_or_Inr_iff ensure_Inr_iff split: if_splits)
qed

lemma pointer_value_append:
  "pointer_value root (p @ r) = bindr (pointer_value root p) (\<lambda>x. pointer_value x r)"
proof (induction root p rule: pointer_value.induct)
  case (2 current token path)
  then show ?case by (cases current) (auto simp: bindr_assoc intro!: bindr_cong)
qed simp

section \<open>Changing a document at a pointer\<close>

lemma mut_value:
  assumes "pointer_value_mut root path f = Inr root'"
  shows "\<exists>x y. pointer_value root path = Inr x \<and> f x = Inr y \<and> (\<forall>q. pointer_value root' (path @ q) = pointer_value y q)"
  using assms
proof (induction root path f arbitrary: root' rule: pointer_value_mut.induct)
  case (2 current token path f)
  then show ?case
  proof (cases current)
    case (JArray xs)
    then obtain i v where "array_index token (length xs) False = Inr i" "pointer_value_mut (xs ! i) path f = Inr v"
      "root' = JArray (xs[i := v])"
      using 2(3) by (auto simp: bindr_Inr_iff)
    with 2(1) [OF JArray this(1,2)] array_index_less [OF this(1)] JArray show ?thesis by auto
  next
    case (JObject kvs)
    then obtain v v' where "obj_get kvs token = Some v" "pointer_value_mut v path f = Inr v'"
      "root' = JObject (obj_insert token v' kvs)"
      using 2(3) by (auto simp: bindr_Inr_iff ok_or_Inr_iff)
    with 2(2) [OF JObject _ this(2)] JObject show ?thesis by (auto simp: obj_get_insert)
  qed auto
qed auto

lemma mut_frame:
  assumes "pointer_value_mut root path f = Inr root'" "parallel path q"
  shows "pointer_value root' q = pointer_value root q"
  using assms
proof (induction root path f arbitrary: root' q rule: pointer_value_mut.induct)
  case (2 current token path f)
  obtain t r where q: "q = t # r" using 2(4) by (cases q) (auto simp: parallel_def)
  have par: "parallel path r" if "t = token" using 2(4) that q by (auto dest: parallel_cancel)
  show ?case
  proof (cases current)
    case (JArray xs)
    then obtain i v where i: "array_index token (length xs) False = Inr i" "pointer_value_mut (xs ! i) path f = Inr v"
      "root' = JArray (xs[i := v])"
      using 2(3) by (auto simp: bindr_Inr_iff)
    have "pointer_value (xs[i := v] ! j) r = pointer_value (xs ! j) r" if j: "array_index t (length xs) False = Inr j" for j
    proof (cases "j = i")
      case True
      then have "t = token" using array_index_inj [OF _ i(1)] j by simp
      with 2(1) [OF JArray i(1,2)] par True array_index_less [OF i(1)] show ?thesis by simp
    qed simp
    then show ?thesis using i(3) JArray q by (cases "array_index t (length xs) False") simp_all
  next
    case (JObject kvs)
    then obtain v v' where v: "obj_get kvs token = Some v" "pointer_value_mut v path f = Inr v'"
      "root' = JObject (obj_insert token v' kvs)"
      using 2(3) by (auto simp: bindr_Inr_iff ok_or_Inr_iff)
    with 2(2) [OF JObject _ this(2)] par JObject q show ?thesis by (cases "t = token") (auto simp: obj_get_insert)
  qed (use 2(3) in auto)
qed (auto simp: parallel_def)

lemma replace_at_value:
  assumes "replace_at token v x = Inr y"
  shows "pointer_value y (t # q) = (if t = token then pointer_value v q else pointer_value x (t # q))"
proof (cases x)
  case (JArray xs)
  then obtain i where i: "array_index token (length xs) False = Inr i" "y = JArray (xs[i := v])"
    using assms by (auto simp: replace_at_def bindr_Inr_iff)
  have "j \<noteq> i" if "array_index t (length xs) False = Inr j" "t \<noteq> token" for j
    using that array_index_inj [OF _ i(1)] by blast
  with i array_index_less [OF i(1)] JArray show ?thesis by (cases "array_index t (length xs) False") auto
qed (use assms in \<open>auto simp: replace_at_def bindr_Inr_iff obj_get_insert\<close>)

lemma replace_frame:
  assumes "replace_value root path v = Inr root'"
  shows "pointer_value root' (path @ q) = pointer_value v q" "parallel path q \<Longrightarrow> pointer_value root' q = pointer_value root q"
proof -
  show "pointer_value root' (path @ q) = pointer_value v q"
  proof (cases "path = []")
    case False
    then obtain x y where m: "replace_at (last path) v x = Inr y" "\<And>q. pointer_value root' (butlast path @ q) = pointer_value y q"
      using mut_value [of root "butlast path" "replace_at (last path) v" root'] assms by (auto simp: replace_value_def)
    have "path @ q = butlast path @ (last path # q)" using False by simp
    then show ?thesis using m(2) replace_at_value [OF m(1)] by (simp only: if_True refl)
  qed (use assms in \<open>simp add: replace_value_def\<close>)
  assume par: "parallel path q"
  then have ne: "path \<noteq> []" by (auto simp: parallel_def)
  then have mut: "pointer_value_mut root (butlast path) (replace_at (last path) v) = Inr root'"
    using assms by (simp add: replace_value_def)
  show "pointer_value root' q = pointer_value root q"
  proof (cases "parallel (butlast path) q")
    case True
    then show ?thesis by (rule mut_frame [OF mut])
  next
    case False
    have path: "path = butlast path @ [last path]" using ne by simp
    have "\<not> prefix q (butlast path)" using par path by (metis parallel_def prefix_prefix)
    then obtain r where q: "q = butlast path @ r" using False by (auto simp: parallel_def prefix_def)
    with par path have "r \<noteq> []" "hd r \<noteq> last path"
      by (metis append_Nil2 parallel_def prefixI, metis append.assoc append_Cons append_Nil list.collapse parallel_def prefixI append_Nil2)
    then obtain t s where r: "r = t # s" "t \<noteq> last path" by (cases r) auto
    obtain x y where m: "pointer_value root (butlast path) = Inr x" "replace_at (last path) v x = Inr y"
      "pointer_value root' (butlast path @ r) = pointer_value y r"
      using mut_value [OF mut] by blast
    show ?thesis using m replace_at_value [OF m(2), of t s] r q by (simp add: pointer_value_append)
  qed
qed

section \<open>Undoing a removal\<close>

lemma obj_insert_same: "sorted_obj kvs \<Longrightarrow> obj_get kvs k = Some v \<Longrightarrow> obj_insert k v kvs = kvs"
  by (rule sorted_obj_eqI) (auto simp: obj_get_insert fun_eq_iff)

lemma obj_insert_twice: "sorted_obj kvs \<Longrightarrow> obj_insert k v (obj_insert k w kvs) = obj_insert k v kvs"
  by (rule sorted_obj_eqI) (auto simp: obj_get_insert)

lemma obj_insert_removed: "sorted_obj kvs \<Longrightarrow> obj_get kvs k = Some v \<Longrightarrow> obj_insert k v (obj_remove k kvs) = kvs"
  by (rule sorted_obj_eqI) (auto simp: obj_get_insert obj_get_remove fun_eq_iff)

lemma wf_nth: "list_all wf_json xs \<Longrightarrow> i < length xs \<Longrightarrow> wf_json (xs ! i)"
  by (simp add: list_all_length)

lemma mut_mut:
  assumes "pointer_value_mut root path f = Inr root'" "wf_json root" "pointer_value root path = Inr x"
    and "f x = Inr y" "g y = Inr x"
  shows "pointer_value_mut root' path g = Inr root"
  using assms
proof (induction root path f arbitrary: root' rule: pointer_value_mut.induct)
  case (2 current token path f)
  show ?case
  proof (cases current)
    case (JArray xs)
    then obtain i v where i: "array_index token (length xs) False = Inr i" "pointer_value_mut (xs ! i) path f = Inr v"
      "root' = JArray (xs[i := v])"
      using 2(3) by (auto simp: bindr_Inr_iff)
    have n: "i < length xs" by (rule array_index_less [OF i(1)])
    then have "pointer_value_mut v path g = Inr (xs ! i)"
      using 2(1) [OF JArray i(1,2)] 2(4-) JArray i(1) wf_nth by simp
    with i n JArray show ?thesis by simp
  next
    case (JObject kvs)
    then obtain v v' where v: "obj_get kvs token = Some v" "pointer_value_mut v path f = Inr v'"
      "root' = JObject (obj_insert token v' kvs)"
      using 2(3) by (auto simp: bindr_Inr_iff ok_or_Inr_iff)
    then have "pointer_value_mut v' path g = Inr v"
      using 2(2) [OF JObject _ v(2)] 2(4-) JObject wf_json_get [of kvs token v] by simp
    with v 2(4) JObject show ?thesis by (simp add: obj_get_insert obj_insert_twice obj_insert_same)
  qed (use 2(3) in auto)
qed simp

lemma pointer_value_wf: "wf_json root \<Longrightarrow> pointer_value root path = Inr v \<Longrightarrow> wf_json v"
proof (induction root path arbitrary: v rule: pointer_value.induct)
  case (2 current token path)
  show ?case
  proof (cases current)
    case (JArray xs)
    then show ?thesis using 2(1) 2(3,4) wf_nth array_index_less by (auto simp: bindr_Inr_iff)
  next
    case (JObject kvs)
    then show ?thesis using 2(2) 2(3,4) wf_json_get by (fastforce simp: bindr_Inr_iff ok_or_Inr_iff)
  qed (use 2(4) in auto)
qed simp

lemma take_insert_drop: "i < length xs \<Longrightarrow> take i (take i xs @ drop (Suc i) xs) @ xs ! i # drop i (take i xs @ drop (Suc i) xs) = xs"
  by (simp add: min_def Cons_nth_drop_Suc)

lemma add_removed:
  assumes "wf_json x" "remove_at token x = Inr y" "pointer_value x [token] = Inr v"
  shows "add_at token v y = Inr x"
proof (cases x)
  case (JArray xs)
  then obtain i where i: "array_index token (length xs) False = Inr i" "y = JArray (take i xs @ drop (Suc i) xs)" "v = xs ! i"
    using assms by (auto simp: remove_at_def bindr_Inr_iff)
  have n: "i < length xs" by (rule array_index_less [OF i(1)])
  then have len: "length (take i xs @ drop (Suc i) xs) = length xs - 1" by simp
  show ?thesis unfolding add_at_def i(2) json.case len array_index_end [OF i(1)] bindr_simps
    using JArray n i(3) take_insert_drop [OF n] by (simp only:)
next
  case (JObject kvs)
  then show ?thesis using assms
    by (auto simp: remove_at_def add_at_def bindr_Inr_iff ok_or_Inr_iff obj_insert_removed)
qed (use assms(2) in \<open>auto simp: remove_at_def\<close>)

lemma remove_then_add:
  assumes "wf_json root" "pointer_value root path = Inr v" "remove_value root path = Inr root'"
  shows "add_value root' path v = Inr root"
proof -
  have ne: "path \<noteq> []" and mut: "pointer_value_mut root (butlast path) (remove_at (last path)) = Inr root'"
    using assms(3) by (auto simp: remove_value_def split: if_splits)
  obtain x y where x: "pointer_value root (butlast path) = Inr x" "remove_at (last path) x = Inr y"
    using mut_value [OF mut] by blast
  have "pointer_value root (butlast path @ [last path]) = Inr v" using assms(2) ne by simp
  then have "pointer_value x [last path] = Inr v" by (simp only: pointer_value_append x bindr_simps)
  then have "add_at (last path) v y = Inr x" by (rule add_removed [OF pointer_value_wf [OF assms(1) x(1)] x(2)])
  from mut_mut [where g = "add_at (last path) v", OF mut assms(1) x this] ne show ?thesis by (simp add: add_value_def)
qed

section \<open>Documents stay well-formed\<close>

lemma mut_wf:
  "wf_json root \<Longrightarrow> (\<And>x y. wf_json x \<Longrightarrow> f x = Inr y \<Longrightarrow> wf_json y) \<Longrightarrow> pointer_value_mut root path f = Inr root' \<Longrightarrow> wf_json root'"
proof (induction root path f arbitrary: root' rule: pointer_value_mut.induct)
  case (2 current token path f)
  show ?case
  proof (cases current)
    case (JArray xs)
    then obtain i v where i: "array_index token (length xs) False = Inr i" "pointer_value_mut (xs ! i) path f = Inr v"
      "root' = JArray (xs[i := v])"
      using 2(5) by (auto simp: bindr_Inr_iff)
    have "wf_json v" using 2(1) [OF JArray i(1) _ _ i(2)] 2(3,4) JArray wf_nth array_index_less [OF i(1)] by simp
    then show ?thesis using i(3) 2(3) JArray by (auto simp: list_all_iff dest: set_update_subset_insert [THEN subsetD])
  next
    case (JObject kvs)
    then obtain v v' where v: "obj_get kvs token = Some v" "pointer_value_mut v path f = Inr v'"
      "root' = JObject (obj_insert token v' kvs)"
      using 2(5) by (auto simp: bindr_Inr_iff ok_or_Inr_iff)
    then have "wf_json v'" using 2(2) [OF JObject _ _ _ v(2)] 2(3,4) JObject wf_json_get [of kvs token v] by simp
    then show ?thesis using v(3) 2(3) JObject wf_json_insert by simp
  qed (use 2(5) in auto)
qed simp

lemma list_all_take_drop: "list_all P xs \<Longrightarrow> list_all P (take i xs) \<and> list_all P (drop j xs)"
  by (meson in_set_dropD in_set_takeD list_all_iff)

lemma list_all_update: "list_all P xs \<Longrightarrow> P v \<Longrightarrow> list_all P (xs[i := v])"
  using set_update_subset_insert [of xs i v] by (auto simp: list_all_iff)

lemma add_at_wf: "wf_json v \<Longrightarrow> wf_json x \<Longrightarrow> add_at token v x = Inr y \<Longrightarrow> wf_json y"
  by (auto simp: add_at_def bindr_Inr_iff list_all_take_drop wf_json_insert simp del: wf_json.simps(2) split: json.splits)

lemma replace_at_wf: "wf_json v \<Longrightarrow> wf_json x \<Longrightarrow> replace_at token v x = Inr y \<Longrightarrow> wf_json y"
  by (auto simp: replace_at_def bindr_Inr_iff list_all_update wf_json_insert simp del: wf_json.simps(2) split: json.splits)

lemma remove_at_wf: "wf_json x \<Longrightarrow> remove_at token x = Inr y \<Longrightarrow> wf_json y"
  by (auto simp: remove_at_def bindr_Inr_iff list_all_take_drop wf_json_remove simp del: wf_json.simps(2) split: json.splits)

lemma add_wf: "wf_json root \<Longrightarrow> wf_json v \<Longrightarrow> add_value root path v = Inr root' \<Longrightarrow> wf_json root'"
  unfolding add_value_def by (auto split: if_splits elim: mut_wf [rotated 2] add_at_wf)

lemma replace_wf: "wf_json root \<Longrightarrow> wf_json v \<Longrightarrow> replace_value root path v = Inr root' \<Longrightarrow> wf_json root'"
  unfolding replace_value_def by (auto split: if_splits elim: mut_wf [rotated 2] replace_at_wf)

lemma remove_wf: "wf_json root \<Longrightarrow> remove_value root path = Inr root' \<Longrightarrow> wf_json root'"
  unfolding remove_value_def by (auto split: if_splits elim: mut_wf [rotated 2] remove_at_wf)

lemma apply_operation_wf:
  assumes "wf_json root" "wf_json operation" "apply_operation root operation = Inr root'"
  shows "wf_json root'"
proof -
  obtain kvs where "operation = JObject kvs"
    using assms(3) by (auto simp: apply_operation_def bindr_Inr_iff ok_or_Inr_iff json_as_object_def split: json.splits)
  then have req: "required_value kvs op = Inr v \<Longrightarrow> wf_json v" for op v
    using assms(2) wf_json_get by (auto simp: required_value_def ok_or_Inr_iff)
  show ?thesis
    using assms(1,3) \<open>operation = JObject kvs\<close>
    by (auto simp: apply_operation_def json_as_object_def bindr_Inr_iff split: if_splits
        intro: add_wf replace_wf remove_wf req pointer_value_wf)
qed

lemma apply_operations_wf:
  "wf_json root \<Longrightarrow> list_all wf_json ops \<Longrightarrow> apply_operations n ops root = Inr root' \<Longrightarrow> wf_json root'"
  by (induction n ops root rule: apply_operations.induct) (auto split: sum.splits intro: apply_operation_wf)

section \<open>Merging\<close>

lemma fold_or_insert_get:
  "obj_get (fold or_insert_null ks kvs) k = (case obj_get kvs k of Some v \<Rightarrow> Some v | None \<Rightarrow> if k \<in> set ks then Some JNull else None)"
  by (induction ks arbitrary: kvs) (auto simp: or_insert_null_def obj_get_insert split: option.splits)

lemma sorted_fold_or_insert: "sorted_obj kvs \<Longrightarrow> sorted_obj (fold or_insert_null ks kvs)"
  by (induction ks arbitrary: kvs) (auto simp: or_insert_null_def)

definition or_null :: "json option \<Rightarrow> json" where
  "or_null v = (case v of Some t \<Rightarrow> t | None \<Rightarrow> JNull)"

lemma merge_members_get:
  "distinct (map fst patch) \<Longrightarrow>
   obj_get (merge_members target patch) k =
     (case obj_get patch k of
        None \<Rightarrow> obj_get target k
      | Some v \<Rightarrow> if v = JNull then None else Some (merge_patch_value (or_null (obj_get target k)) v))"
proof (induction patch arbitrary: target)
  case (Cons kv patch)
  obtain key v where kv: "kv = (key, v)" by fastforce
  have "obj_get patch key = None" using Cons(2) kv by (auto simp: map_of_eq_None_iff)
  then show ?case using Cons kv
    by (auto simp: obj_get_insert obj_get_remove or_null_def simp del: merge_patch_value.simps split: option.splits)
qed simp

lemma merge_sorted: "sorted_obj target \<Longrightarrow> sorted_obj (merge_members target patch)"
  by (induction patch arbitrary: target) (auto simp del: merge_patch_value.simps)

lemma merge_get:
  assumes "distinct (map fst patch)"
  shows "obj_get (apply_merge_patch current patch) k =
    (case obj_get patch k of
       None \<Rightarrow> obj_get current k
     | Some v \<Rightarrow> if v = JNull then Some JNull else Some (merge_patch_value (or_null (obj_get current k)) v))"
proof -
  have "k \<in> fst ` set current \<longleftrightarrow> obj_get current k \<noteq> None" by (simp add: map_of_eq_None_iff)
  moreover have "(k, JNull) \<in> set patch \<longleftrightarrow> obj_get patch k = Some JNull" using assms by simp
  ultimately show ?thesis
    using merge_members_get [OF assms, of current k]
    by (auto simp: apply_merge_patch_def Let_def fold_or_insert_get obj_keys_def image_iff split: option.splits)
qed

lemma merge_apply_sorted: "sorted_obj current \<Longrightarrow> sorted_obj (apply_merge_patch current patch)"
  by (simp add: apply_merge_patch_def Let_def sorted_fold_or_insert merge_sorted)

lemma json_as_Some:
  "json_as_object v = Some kvs \<longleftrightarrow> v = JObject kvs" "json_as_array v = Some xs \<longleftrightarrow> v = JArray xs"
  by (auto simp: json_as_object_def json_as_array_def split: json.splits)

lemma merge_object:
  "merge_patch_value t (JObject ms) = JObject (merge_members (case t of JObject kvs \<Rightarrow> kvs | _ \<Rightarrow> []) ms)"
  by simp

lemma merge_value_idem:
  "wf_json p \<Longrightarrow> wf_json t \<Longrightarrow> merge_patch_value (merge_patch_value t p) p = merge_patch_value t p"
proof (induction p arbitrary: t)
  case (JObject ms)
  let ?t = "case t of JObject kvs \<Rightarrow> kvs | _ \<Rightarrow> []"
  let ?m = "merge_members ?t ms"
  have t: "wf_json (JObject ?t)" using JObject(3) by (cases t) auto
  have d: "distinct (map fst ms)" using JObject(2) by (simp add: sorted_obj_distinct)
  have "obj_get (merge_members ?m ms) k = obj_get ?m k" for k
  proof (cases "obj_get ms k")
    case (Some v)
    have "wf_json (or_null (obj_get ?t k))" using wf_json_get [OF t] by (auto simp: or_null_def split: option.splits)
    moreover have "(k, v) \<in> set ms" using Some by (rule map_of_SomeD)
    ultimately have "merge_patch_value (merge_patch_value (or_null (obj_get ?t k)) v) v = merge_patch_value (or_null (obj_get ?t k)) v"
      using JObject(1) [of "(k, v)" v "or_null (obj_get ?t k)"] wf_json_get [OF JObject(2) Some] by simp
    with Some show ?thesis
      by (simp add: merge_members_get [OF d] or_null_def del: merge_patch_value.simps)
  qed (simp add: merge_members_get [OF d])
  then have "merge_members ?m ms = ?m"
    using t by (intro sorted_obj_eqI) (auto simp: merge_sorted)
  then show ?case by (simp add: merge_object del: merge_patch_value.simps)
qed simp_all

lemma merge_apply_idem:
  assumes "wf_json (JObject current)" "wf_json (JObject patch)"
  shows "apply_merge_patch (apply_merge_patch current patch) patch = apply_merge_patch current patch"
proof (rule sorted_obj_eqI)
  have d: "distinct (map fst patch)" using assms(2) by (simp add: sorted_obj_distinct)
  show "sorted_obj (apply_merge_patch current patch)" using assms(1) by (simp add: merge_apply_sorted)
  then show "sorted_obj (apply_merge_patch (apply_merge_patch current patch) patch)" by (rule merge_apply_sorted)
  show "obj_get (apply_merge_patch (apply_merge_patch current patch) patch) = obj_get (apply_merge_patch current patch)"
  proof
    fix k
    show "obj_get (apply_merge_patch (apply_merge_patch current patch) patch) k = obj_get (apply_merge_patch current patch) k"
    proof (cases "obj_get patch k")
      case (Some v)
      have "wf_json (or_null (obj_get current k))" using wf_json_get [OF assms(1)] by (auto simp: or_null_def split: option.splits)
      from merge_value_idem [OF wf_json_get [OF assms(2) Some] this] Some show ?thesis
        by (simp add: merge_get [OF d] or_null_def del: merge_patch_value.simps)
    qed (simp add: merge_get [OF d])
  qed
qed

section \<open>Properties of the patches\<close>

text \<open>
  C24. A \<open>replace\<close> operation changes exactly the value it names: below its pointer the document
  is the new value, and every pointer that is neither above nor below it reads, or fails to
  read, what it did before. Two different tokens never name the same array element.
\<close>

theorem replace_value_exact:
  assumes "replace_value root path v = Inr root'"
  shows "(\<forall>q. pointer_value root' (path @ q) = pointer_value v q) \<and>
    (\<forall>q. parallel path q \<longrightarrow> pointer_value root' q = pointer_value root q)"
  using replace_frame [OF assms] by blast

definition sample_document :: json where
  "sample_document = JObject [(''NAME'', JString ''Ada''), (''TAGS'', JArray [JBool True, JNull])]"

theorem replace_value_exact_witness:
  "\<exists>root'. replace_value sample_document [''TAGS'', ''1''] (JString ''new'') = Inr root' \<and>
     pointer_value root' [''TAGS'', ''1''] = Inr (JString ''new'') \<and>
     pointer_value root' [''TAGS'', ''0''] = Inr (JBool True)"
proof -
  have i: "array_index ''1'' 2 False = Inr 1" "array_index ''0'' 2 False = Inr 0"
    by (simp_all add: array_index_def string_bytes_def parse_nat_bytes_def is_ascii_digit_def undecimal_def usize_limit_def)
  have "replace_value sample_document [''TAGS'', ''1''] (JString ''new'') =
      Inr (JObject [(''NAME'', JString ''Ada''), (''TAGS'', JArray [JBool True, JString ''new''])])"
    using i(1) by (simp add: replace_value_def replace_at_def sample_document_def numeral_2_eq_2)
  moreover have "parallel [''TAGS'', ''1''] [''TAGS'', ''0'']" by (simp add: parallel_def)
  moreover have "pointer_value sample_document [''TAGS'', ''0''] = Inr (JBool True)"
    using i(2) by (simp add: sample_document_def numeral_2_eq_2)
  ultimately show ?thesis
    using replace_value_exact [of sample_document "[''TAGS'', ''1'']" "JString ''new''"]
    by (metis append_Nil2 pointer_value.simps(1))
qed

text \<open>
  C25. Adding a removed value back at the same pointer restores the document exactly, in
  objects and, at any index, in arrays.
\<close>

theorem remove_add_roundtrip:
  assumes "wf_json root" "pointer_value root path = Inr v" "remove_value root path = Inr root'"
  shows "add_value root' path v = Inr root"
  using assms by (rule remove_then_add)

theorem remove_add_roundtrip_witness:
  "\<exists>root'. remove_value sample_document [''NAME''] = Inr root' \<and> add_value root' [''NAME''] (JString ''Ada'') = Inr sample_document"
proof -
  have "wf_json sample_document" by (simp add: sample_document_def sorted_obj_def)
  moreover have "pointer_value sample_document [''NAME''] = Inr (JString ''Ada'')" by (simp add: sample_document_def)
  moreover have "remove_value sample_document [''NAME''] = Inr (JObject [(''TAGS'', JArray [JBool True, JNull])])"
    by (simp add: remove_value_def remove_at_def sample_document_def obj_remove_def)
  ultimately show ?thesis using remove_add_roundtrip by blast
qed

text \<open>
  A JSON patch that is applied leaves a well-formed object: its names are in order and
  without duplicates on every level, whatever the operations were.
\<close>

lemma apply_patch_wf:
  assumes "wf_json (JObject current)" "wf_json document" "apply_patch current document = Inr patched"
  shows "wf_json (JObject patched)"
proof -
  obtain ops root where ops: "document = JArray ops" "apply_operations 0 ops (JObject current) = Inr root" "root = JObject patched"
    using assms(3)
    by (auto simp: apply_patch_def bindr_Inr_iff ok_or_Inr_iff json_as_Some)
  then show ?thesis using apply_operations_wf [OF assms(1) _ ops(2)] assms(2) by simp
qed

text \<open>
  C26. A merge patch acts field by field: a field the patch does not name is kept, a null
  clears the field but keeps it as null, and any other value is merged into the old one.
  Applying the same patch twice is the same as applying it once.
\<close>

theorem apply_merge_patch_fields:
  assumes "wf_json (JObject current)" "wf_json (JObject patch)"
  shows "(\<forall>k. obj_get (apply_merge_patch current patch) k =
      (case obj_get patch k of
         None \<Rightarrow> obj_get current k
       | Some v \<Rightarrow> if v = JNull then Some JNull else Some (merge_patch_value (or_null (obj_get current k)) v))) \<and>
    apply_merge_patch (apply_merge_patch current patch) patch = apply_merge_patch current patch"
  using merge_get [of patch current] merge_apply_idem [OF assms] assms(2) by (simp add: sorted_obj_distinct del: merge_patch_value.simps)

theorem apply_merge_patch_fields_witness:
  "obj_get (apply_merge_patch [(''A'', JBool True), (''B'', JNull)] [(''A'', JNull)]) ''A'' = Some JNull \<and>
   apply_merge_patch (apply_merge_patch [(''A'', JBool True), (''B'', JNull)] [(''A'', JNull)]) [(''A'', JNull)] =
     apply_merge_patch [(''A'', JBool True), (''B'', JNull)] [(''A'', JNull)]"
proof -
  have "wf_json (JObject [(''A'', JBool True), (''B'', JNull)])" "wf_json (JObject [(''A'', JNull)])"
    by (simp_all add: sorted_obj_def less_list_code)
  from apply_merge_patch_fields [OF this] show ?thesis by simp
qed

end
