(* ===== verification/Query_Path.thy ===== *)
theory Query_Path
  imports Json_Patch Float64
begin

text \<open>
  Paths into records and projections: \<^verbatim>\<open>src/src/query_path.rs\<close>.  A field name with dots descends
  into objects and arrays.  Functions that change a value in place return it changed.
\<close>

definition path_array_index :: "string \<Rightarrow> nat option" where
  "path_array_index segment =
     (case parse_nat_bytes (string_bytes segment) of
        Some n \<Rightarrow> if n < usize_limit then Some n else None
      | None \<Rightarrow> None)"

definition list_get :: "'a list \<Rightarrow> nat \<Rightarrow> 'a option" where
  "list_get xs i = (if i < length xs then Some (xs ! i) else None)"

lemma size_member: "x \<in> set xs \<Longrightarrow> f x < size_list f xs"
  by (induction xs) auto

lemma list_get_size [termination_simp]: "list_get xs i = Some x \<Longrightarrow> f x < size_list f xs"
  by (auto simp: list_get_def size_member split: if_splits)

lemma obj_get_size: "obj_get kvs k = Some v \<Longrightarrow> size v < size_list (size_prod (\<lambda>_. 0) size) kvs"
  using size_member [of "(k, v)" kvs "size_prod (\<lambda>_. 0) size"] by (auto dest: map_of_SomeD)

fun collect_path_values :: "json \<Rightarrow> string list \<Rightarrow> json list" where
  "collect_path_values v [] = [v]"
| "collect_path_values (JObject kvs) (s # ss) =
     (case obj_get kvs s of Some v \<Rightarrow> collect_path_values v ss | None \<Rightarrow> [])"
| "collect_path_values (JArray vs) (s # ss) =
     (case path_array_index s of
        Some i \<Rightarrow> (case list_get vs i of Some v \<Rightarrow> collect_path_values v ss | None \<Rightarrow> [])
      | None \<Rightarrow> concat (map (\<lambda>v. collect_path_values v (s # ss)) vs))"
| "collect_path_values _ _ = []"

definition one_or_many :: "json list \<Rightarrow> json option" where
  "one_or_many ms = (case ms of [] \<Rightarrow> None | [m] \<Rightarrow> Some m | _ \<Rightarrow> Some (JArray ms))"

definition field_value :: "json_map \<Rightarrow> string \<Rightarrow> json option" where
  "field_value kvs path =
     (case obj_get kvs path of
        Some v \<Rightarrow> Some v
      | None \<Rightarrow>
          (case split_on CHR ''.'' path of
             [] \<Rightarrow> None
           | s # ss \<Rightarrow>
               (case obj_get kvs s of
                  None \<Rightarrow> None
                | Some v \<Rightarrow> one_or_many (collect_path_values v ss))))"

definition field_value_from_value :: "json \<Rightarrow> string \<Rightarrow> json option" where
  "field_value_from_value v path = one_or_many (collect_path_values v (split_on CHR ''.'' path))"

definition is_array :: "json \<Rightarrow> bool" where
  "is_array v \<longleftrightarrow> json_as_array v \<noteq> None"

text \<open>
  \<open>insert_nested_value\<close> and \<open>insert_nested_array\<close> build the projected value beside the source
  value that decides between arrays and objects.
\<close>

definition descend_into_array :: "json option \<Rightarrow> string list \<Rightarrow> bool" where
  "descend_into_array source_value rest \<longleftrightarrow>
     (case source_value of Some v \<Rightarrow> is_array v | None \<Rightarrow> False) \<and>
     (case rest of s # _ \<Rightarrow> path_array_index s \<noteq> None | [] \<Rightarrow> False)"

function (sequential) insert_nested_value :: "json_map \<Rightarrow> json_map option \<Rightarrow> string list \<Rightarrow> json \<Rightarrow> json_map"
  and insert_nested_array :: "json \<Rightarrow> json option \<Rightarrow> string list \<Rightarrow> json \<Rightarrow> json"
  and insert_entry :: "json option \<Rightarrow> json option \<Rightarrow> string list \<Rightarrow> json \<Rightarrow> json" where
  "insert_nested_value output source [] v = output"
| "insert_nested_value output source [s] v = obj_insert s v output"
| "insert_nested_value output source (s # rest) v =
     obj_insert s (insert_entry (obj_get output s) (Option.bind source (\<lambda>m. obj_get m s)) rest v) output"
| "insert_entry entry source_value rest v =
     (if descend_into_array source_value rest then
        insert_nested_array (case entry of Some (JArray vs) \<Rightarrow> JArray vs | _ \<Rightarrow> JArray []) source_value rest v
      else
        JObject (insert_nested_value (case entry of Some (JObject kvs) \<Rightarrow> kvs | _ \<Rightarrow> [])
          (Option.bind source_value json_as_object) rest v))"
| "insert_nested_array output source [] v = output"
| "insert_nested_array output source (s # rest) v =
     (case path_array_index s of
        None \<Rightarrow> output
      | Some i \<Rightarrow>
          (case Option.bind source json_as_array of
             None \<Rightarrow> output
           | Some source_values \<Rightarrow>
               if length source_values \<le> i then output
               else
                 (case json_as_array output of
                    None \<Rightarrow> output
                  | Some vs \<Rightarrow>
                      let vs = resize (i + 1) JNull vs in
                      if rest = [] then JArray (vs[i := v])
                      else JArray (vs[i := insert_entry (Some (vs ! i)) (Some (source_values ! i)) rest v]))))"
  by pat_completeness auto
termination
  by (relation "measures
      [\<lambda>x. case x of Inl (_, _, ss, _) \<Rightarrow> length ss | Inr (Inl (_, _, ss, _)) \<Rightarrow> length ss | Inr (Inr (_, _, ss, _)) \<Rightarrow> length ss,
       \<lambda>x. case x of Inl _ \<Rightarrow> 0 | Inr (Inl _) \<Rightarrow> 0 | Inr (Inr _) \<Rightarrow> 1]") auto

definition insert_projected_value :: "json_map \<Rightarrow> json_map \<Rightarrow> string \<Rightarrow> json \<Rightarrow> json_map" where
  "insert_projected_value output source path v =
     (if obj_get source path \<noteq> None \<or> CHR ''.'' \<notin> set path then obj_insert path v output
      else insert_nested_value output (Some source) (split_on CHR ''.'' path) v)"

function (sequential) remove_nested_value :: "json_map \<Rightarrow> string list \<Rightarrow> json_map"
  and remove_array_value :: "json list \<Rightarrow> string list \<Rightarrow> json list"
  and remove_nested_value_from_value :: "json \<Rightarrow> string list \<Rightarrow> json" where
  "remove_nested_value kvs [] = kvs"
| "remove_nested_value kvs [s] = obj_remove s kvs"
| "remove_nested_value kvs (s # rest) =
     (case obj_get kvs s of
        None \<Rightarrow> kvs
      | Some v \<Rightarrow>
          (case v of
             JObject m \<Rightarrow> obj_insert s (JObject (remove_nested_value m rest)) kvs
           | JArray vs \<Rightarrow> obj_insert s (JArray (remove_array_value vs rest)) kvs
           | _ \<Rightarrow> kvs))"
| "remove_array_value vs [] = vs"
| "remove_array_value vs (s # rest) =
     (case path_array_index s of
        Some i \<Rightarrow>
          (case list_get vs i of
             None \<Rightarrow> vs
           | Some v \<Rightarrow> vs[i := (if rest = [] then JNull else remove_nested_value_from_value v rest)])
      | None \<Rightarrow> map (\<lambda>v. remove_nested_value_from_value v (s # rest)) vs)"
| "remove_nested_value_from_value v [] = v"
| "remove_nested_value_from_value (JObject kvs) ss = JObject (remove_nested_value kvs ss)"
| "remove_nested_value_from_value (JArray vs) ss = JArray (remove_array_value vs ss)"
| "remove_nested_value_from_value v ss = v"
  by pat_completeness auto
termination
  by (relation "measures
      [\<lambda>x. case x of Inl (kvs, _) \<Rightarrow> size_list (size_prod (\<lambda>_. 0) size) kvs | Inr (Inl (vs, _)) \<Rightarrow> size_list size vs
         | Inr (Inr (v, _)) \<Rightarrow> size v]")
    (auto simp: size_member dest: list_get_size [of _ _ _ size] obj_get_size)

definition remove_projected_value :: "json_map \<Rightarrow> string \<Rightarrow> json_map" where
  "remove_projected_value kvs path =
     (if obj_get kvs path \<noteq> None \<or> CHR ''.'' \<notin> set path then obj_remove path kvs
      else remove_nested_value kvs (split_on CHR ''.'' path))"

type_synonym projection = "(string \<times> int) list"

definition project_values :: "json_map \<Rightarrow> projection \<Rightarrow> json" where
  "project_values source p =
     (if p = [] then JObject source
      else if list_ex (\<lambda>(_, n). n = 1) p then
        JObject (fold (\<lambda>(field, n) output.
          if n \<noteq> 1 then output
          else case field_value source field of
            None \<Rightarrow> output
          | Some v \<Rightarrow> insert_projected_value output source field v) p [])
      else JObject (fold (\<lambda>(field, n) output. if n = 0 then remove_projected_value output field else output) p source))"

end
