(* ===== verification/Query_Filter.thy ===== *)
theory Query_Filter
  imports Query_Path
begin

text \<open>
  Filters: their evaluation (\<^verbatim>\<open>src/src/query/predicate.rs\<close>, \<^verbatim>\<open>src/src/query/array_predicate.rs\<close>) and
  their validation (\<^verbatim>\<open>src/src/query/validation.rs\<close>), and the order of values
  (\<^verbatim>\<open>src/src/query/ordering.rs\<close>).  The expression language of \<open>$expr\<close> and the JSON printer are
  arguments.
\<close>

datatype query_error = Query_invalid_json string | Query_invalid string

record query_env =
  qe_json_text :: "json \<Rightarrow> string"
  qe_expr_matches :: "json_map \<Rightarrow> json \<Rightarrow> (query_error, bool) result"
  qe_expr_validate :: "json \<Rightarrow> string \<Rightarrow> (query_error, unit) result"

section \<open>Order of values\<close>

fun compare_values :: "query_env \<Rightarrow> json \<Rightarrow> json \<Rightarrow> ordering option" where
  "compare_values env (JArray l) (JArray r) = Some (compare (qe_json_text env (JArray l)) (qe_json_text env (JArray r)))"
| "compare_values env (JObject l) (JObject r) = Some (compare (qe_json_text env (JObject l)) (qe_json_text env (JObject r)))"
| "compare_values env l r = compare_scalar_values l r"

fun type_rank :: "json \<Rightarrow> nat" where
  "type_rank JNull = 0"
| "type_rank (JBool _) = 1"
| "type_rank (JNumber _) = 2"
| "type_rank (JString _) = 3"
| "type_rank (JArray _) = 4"
| "type_rank (JObject _) = 5"

definition compare_for_sort :: "query_env \<Rightarrow> json option \<Rightarrow> json option \<Rightarrow> ordering" where
  "compare_for_sort env l r =
     (case (l, r) of
        (Some l, Some r) \<Rightarrow>
          (case compare_values env l r of
             Some c \<Rightarrow> c
           | None \<Rightarrow>
               if type_rank l \<noteq> type_rank r then compare (type_rank l) (type_rank r)
               else compare (qe_json_text env l) (qe_json_text env r))
      | (None, None) \<Rightarrow> Equal
      | (None, Some _) \<Rightarrow> Less
      | (Some _, None) \<Rightarrow> Greater)"

section \<open>Evaluation\<close>

definition is_operator :: "string \<Rightarrow> bool" where
  "is_operator key \<longleftrightarrow> (case key of c # _ \<Rightarrow> c = CHR ''$'' | [] \<Rightarrow> False)"

definition equality_matches :: "json \<Rightarrow> json \<Rightarrow> bool" where
  "equality_matches actual expected \<longleftrightarrow>
     json_eq actual expected \<or>
     (case json_as_array actual of Some vs \<Rightarrow> list_ex (\<lambda>v. json_eq v expected) vs | None \<Rightarrow> False)"

definition compare_any :: "query_env \<Rightarrow> json option \<Rightarrow> json \<Rightarrow> ordering set \<Rightarrow> bool" where
  "compare_any env actual expected accepted \<longleftrightarrow>
     (case actual of
        None \<Rightarrow> False
      | Some a \<Rightarrow>
          (case json_as_array a of
             Some vs \<Rightarrow> list_ex (\<lambda>v. compare_values env v expected \<in> Some ` accepted) vs
           | None \<Rightarrow> compare_values env a expected \<in> Some ` accepted))"

definition matches_size :: "json option \<Rightarrow> json \<Rightarrow> (query_error, bool) result" where
  "matches_size actual expected =
     bindr (ok_or (Query_invalid ''$size must be a non-negative integer'')
       (case expected of JNumber n \<Rightarrow> map_option unat (number_as_u64 n) | _ \<Rightarrow> None)) (\<lambda>n.
     Inr (case Option.bind actual json_as_array of Some vs \<Rightarrow> length vs = n | None \<Rightarrow> False))"

definition some_matches :: "json option \<Rightarrow> json list \<Rightarrow> bool" where
  "some_matches actual vs \<longleftrightarrow> (case actual of Some a \<Rightarrow> list_ex (equality_matches a) vs | None \<Rightarrow> False)"

definition elem_match_of :: "json \<Rightarrow> json option" where
  "elem_match_of candidate =
     (case candidate of JObject [(k, criteria)] \<Rightarrow> if k = ''$elemMatch'' then Some criteria else None | _ \<Rightarrow> None)"

lemma elem_match_of_Some: "elem_match_of c = Some d \<longleftrightarrow> c = JObject [(''$elemMatch'', d)]"
  by (auto simp: elem_match_of_def split: json.splits list.splits if_splits)

definition elem_match_member :: "json_map \<Rightarrow> json option" where
  "elem_match_member kvs = obj_get kvs ''$elemMatch''"

text \<open>
  \<open>filter_clauses\<close> is the fold over the clauses of \<open>$and\<close> (\<open>every = True\<close>) and \<open>$or\<close>: all clauses
  are evaluated and the first error is returned.
\<close>

function (sequential) matches_filter :: "query_env \<Rightarrow> json_map \<Rightarrow> json_map \<Rightarrow> (query_error, bool) result"
  and filter_clauses :: "query_env \<Rightarrow> json_map \<Rightarrow> bool \<Rightarrow> json list \<Rightarrow> (query_error, bool) result"
  and matches_condition :: "query_env \<Rightarrow> json option \<Rightarrow> json \<Rightarrow> (query_error, bool) result"
  and matches_operators :: "query_env \<Rightarrow> json option \<Rightarrow> json_map \<Rightarrow> (query_error, bool) result"
  and matches_candidates :: "query_env \<Rightarrow> json list \<Rightarrow> json list \<Rightarrow> (query_error, bool) result"
  and any_element :: "query_env \<Rightarrow> json list \<Rightarrow> json \<Rightarrow> (query_error, bool) result"
  and matches_element :: "query_env \<Rightarrow> json \<Rightarrow> json \<Rightarrow> (query_error, bool) result" where
  "matches_filter env vals [] = Inr True"
| "matches_filter env vals ((field, condition) # r) =
     bindr
       (if field = ''$and'' then
          (case condition of JArray cs \<Rightarrow> filter_clauses env vals True cs | _ \<Rightarrow> Inl (Query_invalid ''$and must be an array''))
        else if field = ''$or'' then
          (case condition of JArray cs \<Rightarrow> filter_clauses env vals False cs | _ \<Rightarrow> Inl (Query_invalid ''$or must be an array''))
        else if field = ''$not'' then
          (case condition of
             JObject clause \<Rightarrow> bindr (matches_filter env vals clause) (\<lambda>m. Inr (\<not> m))
           | _ \<Rightarrow> Inl (Query_invalid ''$not must be an object''))
        else if field = ''$expr'' then qe_expr_matches env vals condition
        else matches_condition env (field_value vals field) condition)
       (\<lambda>m. if m then matches_filter env vals r else Inr False)"
| "filter_clauses env vals every [] = Inr every"
| "filter_clauses env vals every (c # cs) =
     bindr
       (case c of
          JObject clause \<Rightarrow> matches_filter env vals clause
        | _ \<Rightarrow> Inl (Query_invalid (if every then ''$and clause must be an object'' else ''$or clause must be an object'')))
       (\<lambda>m. bindr (filter_clauses env vals every cs) (\<lambda>n. Inr (if every then m \<and> n else m \<or> n)))"
| "matches_condition env actual condition =
     (let equal = (case actual of Some a \<Rightarrow> equality_matches a condition | None \<Rightarrow> False) in
      case condition of
        JObject operators \<Rightarrow>
          if list_ex (\<lambda>(k, _). is_operator k) operators then matches_operators env actual operators else Inr equal
      | _ \<Rightarrow> Inr equal)"
| "matches_operators env actual [] = Inr True"
| "matches_operators env actual ((operator, operand) # r) =
     bindr
       (if operator = ''$eq'' then Inr (case actual of Some a \<Rightarrow> equality_matches a operand | None \<Rightarrow> False)
        else if operator = ''$ne'' then Inr (case actual of Some a \<Rightarrow> \<not> equality_matches a operand | None \<Rightarrow> True)
        else if operator = ''$gt'' then Inr (compare_any env actual operand {Greater})
        else if operator = ''$gte'' then Inr (compare_any env actual operand {Greater, Equal})
        else if operator = ''$lt'' then Inr (compare_any env actual operand {Less})
        else if operator = ''$lte'' then Inr (compare_any env actual operand {Less, Equal})
        else if operator = ''$in'' then
          (case operand of JArray vs \<Rightarrow> Inr (some_matches actual vs) | _ \<Rightarrow> Inl (Query_invalid ''$in must be an array''))
        else if operator = ''$nin'' then
          (case operand of JArray vs \<Rightarrow> Inr (\<not> some_matches actual vs) | _ \<Rightarrow> Inl (Query_invalid ''$nin must be an array''))
        else if operator = ''$exists'' then
          (case operand of JBool b \<Rightarrow> Inr ((actual \<noteq> None) = b) | _ \<Rightarrow> Inl (Query_invalid ''$exists must be a boolean''))
        else if operator = ''$all'' then
          (case operand of
             JArray expected \<Rightarrow>
               (case Option.bind actual json_as_array of
                  None \<Rightarrow> Inr False
                | Some vs \<Rightarrow> if expected = [] then Inr False else matches_candidates env vs expected)
           | _ \<Rightarrow> Inl (Query_invalid ''$all must be an array''))
        else if operator = ''$elemMatch'' then
          (case operand of
             JObject criteria \<Rightarrow>
               (case Option.bind actual json_as_array of
                  None \<Rightarrow> Inr False
                | Some vs \<Rightarrow> any_element env vs operand)
           | _ \<Rightarrow> Inl (Query_invalid ''$elemMatch must be an object''))
        else if operator = ''$size'' then matches_size actual operand
        else if operator = ''$not'' then bindr (matches_condition env actual operand) (\<lambda>m. Inr (\<not> m))
        else Inl (Query_invalid (''unsupported operator '' @ operator)))
       (\<lambda>m. if m then matches_operators env actual r else Inr False)"
| "matches_candidates env actual [] = Inr True"
| "matches_candidates env actual (candidate # cs) =
     bindr
       (case elem_match_of candidate of
          Some criteria \<Rightarrow> any_element env actual criteria
        | None \<Rightarrow> Inr (list_ex (\<lambda>v. equality_matches v candidate) actual))
       (\<lambda>m. if m then matches_candidates env actual cs else Inr False)"
| "any_element env [] criteria = Inr False"
| "any_element env (e # es) criteria =
     bindr (matches_element env e criteria) (\<lambda>m. if m then Inr True else any_element env es criteria)"
| "matches_element env e criteria =
     (case criteria of
        JObject kvs \<Rightarrow>
          if kvs = [] then Inr True
          else if list_all (\<lambda>(k, _). is_operator k) kvs then matches_condition env (Some e) criteria
          else (case e of JObject members \<Rightarrow> matches_filter env members kvs | _ \<Rightarrow> Inr False)
      | _ \<Rightarrow> Inl (Query_invalid ''$elemMatch must be an object''))"
  by pat_completeness auto
termination
  by (relation "measures
      [\<lambda>x. case x of
           Inl (Inl (_, _, f)) \<Rightarrow> size_list (size_prod (\<lambda>_. 0) size) f
         | Inl (Inr (Inl (_, _, _, cs))) \<Rightarrow> size_list size cs
         | Inl (Inr (Inr (_, _, c))) \<Rightarrow> size c
         | Inr (Inl (Inl (_, _, f))) \<Rightarrow> size_list (size_prod (\<lambda>_. 0) size) f
         | Inr (Inl (Inr (_, _, cs))) \<Rightarrow> size_list size cs
         | Inr (Inr (Inl (_, _, c))) \<Rightarrow> size c
         | Inr (Inr (Inr (_, _, c))) \<Rightarrow> size c,
       \<lambda>x. case x of Inr (Inr (Inl (_, es, _))) \<Rightarrow> 2 + length es | Inr (Inr (Inr _)) \<Rightarrow> 1 | _ \<Rightarrow> 0]") (auto simp: elem_match_of_Some)

section \<open>Validation\<close>

definition member :: "string \<Rightarrow> string \<Rightarrow> string" where
  "member path name = path @ ''.'' @ name"

definition element :: "string \<Rightarrow> nat \<Rightarrow> string" where
  "element path index = path @ ''['' @ show_nat index @ '']''"

function (sequential) validate_filter :: "query_env \<Rightarrow> json_map \<Rightarrow> string \<Rightarrow> (query_error, unit) result"
  and validate_clauses :: "query_env \<Rightarrow> json list \<Rightarrow> nat \<Rightarrow> string \<Rightarrow> (query_error, unit) result"
  and validate_condition :: "query_env \<Rightarrow> json \<Rightarrow> string \<Rightarrow> (query_error, unit) result"
  and validate_operators :: "query_env \<Rightarrow> json_map \<Rightarrow> string \<Rightarrow> (query_error, unit) result"
  and validate_all :: "query_env \<Rightarrow> json list \<Rightarrow> nat \<Rightarrow> string \<Rightarrow> (query_error, unit) result"
  and validate_elem_match :: "query_env \<Rightarrow> json \<Rightarrow> string \<Rightarrow> (query_error, unit) result" where
  "validate_filter env [] path = Inr ()"
| "validate_filter env ((field, condition) # r) path =
     bindr
       (if field = ''$and'' \<or> field = ''$or'' then
          (case condition of
             JArray clauses \<Rightarrow> validate_clauses env clauses 0 (member path field)
           | _ \<Rightarrow> Inl (Query_invalid (member path field @ '' must be an array'')))
        else if field = ''$not'' then
          (case condition of
             JObject clause \<Rightarrow> validate_filter env clause (member path ''$not'')
           | _ \<Rightarrow> Inl (Query_invalid (member path ''$not'' @ '' must be an object'')))
        else if field = ''$expr'' then qe_expr_validate env condition (member path ''$expr'')
        else if is_operator field then Inl (Query_invalid (''unsupported logical operator '' @ field))
        else validate_condition env condition (member path field))
       (\<lambda>_. validate_filter env r path)"
| "validate_clauses env [] index path = Inr ()"
| "validate_clauses env (c # cs) index path =
     bindr
       (case c of
          JObject clause \<Rightarrow> validate_filter env clause (element path index)
        | _ \<Rightarrow> Inl (Query_invalid (element path index @ '' must be an object'')))
       (\<lambda>_. validate_clauses env cs (Suc index) path)"
| "validate_condition env condition path =
     (case condition of
        JObject operators \<Rightarrow>
          if \<not> list_ex (\<lambda>(k, _). is_operator k) operators then Inr ()
          else if list_ex (\<lambda>(k, _). \<not> is_operator k) operators
          then Inl (Query_invalid (path @ '' cannot mix operators and fields''))
          else validate_operators env operators path
      | _ \<Rightarrow> Inr ())"
| "validate_operators env [] path = Inr ()"
| "validate_operators env ((operator, operand) # r) path =
     bindr
       (if operator \<in> {''$eq'', ''$ne'', ''$gt'', ''$gte'', ''$lt'', ''$lte''} then Inr ()
        else if operator = ''$exists'' then
          (case operand of JBool _ \<Rightarrow> Inr () | _ \<Rightarrow> Inl (Query_invalid (member path ''$exists'' @ '' must be a boolean'')))
        else if operator = ''$in'' \<or> operator = ''$nin'' then
          (case operand of JArray _ \<Rightarrow> Inr () | _ \<Rightarrow> Inl (Query_invalid (member path operator @ '' must be an array'')))
        else if operator = ''$all'' then
          (case operand of
             JArray vs \<Rightarrow> validate_all env vs 0 (member path ''$all'')
           | _ \<Rightarrow> Inl (Query_invalid (member path ''$all'' @ '' must be an array'')))
        else if operator = ''$elemMatch'' then validate_elem_match env operand (member path ''$elemMatch'')
        else if operator = ''$size'' then
          (case operand of
             JNumber n \<Rightarrow>
               (case number_as_u64 n of
                  Some _ \<Rightarrow> Inr ()
                | None \<Rightarrow> Inl (Query_invalid (member path ''$size'' @ '' must be a non-negative integer'')))
           | _ \<Rightarrow> Inl (Query_invalid (member path ''$size'' @ '' must be a non-negative integer'')))
        else if operator = ''$not'' then
          (case operand of
             JObject _ \<Rightarrow> validate_condition env operand (member path ''$not'')
           | _ \<Rightarrow> Inl (Query_invalid (member path ''$not'' @ '' must be an object'')))
        else Inl (Query_invalid (''unsupported operator '' @ operator @ '' at '' @ path)))
       (\<lambda>_. validate_operators env r path)"
| "validate_all env [] index path = Inr ()"
| "validate_all env (v # vs) index path =
     bindr
       (case v of
          JObject object \<Rightarrow>
            if list_ex (\<lambda>(k, _). is_operator k) object then
              (case elem_match_member object of
                 None \<Rightarrow> Inl (Query_invalid (element path index @ '' supports only $elemMatch expressions''))
               | Some e \<Rightarrow>
                   if length object \<noteq> 1
                   then Inl (Query_invalid (element path index @ '' must contain only $elemMatch''))
                   else validate_elem_match env e (member (element path index) ''$elemMatch''))
            else Inr ()
        | _ \<Rightarrow> Inr ())
       (\<lambda>_. validate_all env vs (Suc index) path)"
| "validate_elem_match env condition path =
     (case condition of
        JObject kvs \<Rightarrow>
          if list_ex (\<lambda>(k, _). is_operator k) kvs then validate_condition env condition path
          else validate_filter env kvs path
      | _ \<Rightarrow> Inl (Query_invalid (path @ '' must be an object'')))"
  by pat_completeness auto
termination
  by (relation "measures
      [\<lambda>x. case x of
           Inl (Inl (_, f, _)) \<Rightarrow> size_list (size_prod (\<lambda>_. 0) size) f
         | Inl (Inr (Inl (_, cs, _, _))) \<Rightarrow> size_list size cs
         | Inl (Inr (Inr (_, c, _))) \<Rightarrow> size c
         | Inr (Inl (_, f, _)) \<Rightarrow> size_list (size_prod (\<lambda>_. 0) size) f
         | Inr (Inr (Inl (_, cs, _, _))) \<Rightarrow> size_list size cs
         | Inr (Inr (Inr (_, c, _))) \<Rightarrow> size c,
       \<lambda>x. case x of Inr (Inr (Inr _)) \<Rightarrow> 1 | _ \<Rightarrow> 0]")
    (auto simp: elem_match_member_def dest: obj_get_size)

section \<open>Validated filters evaluate\<close>

definition expr_error :: "query_env \<Rightarrow> query_error \<Rightarrow> bool" where
  "expr_error env e \<longleftrightarrow> (\<exists>vals c. qe_expr_matches env vals c = Inl e)"

definition evaluates :: "query_env \<Rightarrow> (query_error, bool) result \<Rightarrow> bool" where
  "evaluates env r \<longleftrightarrow> (\<forall>e. r = Inl e \<longrightarrow> expr_error env e)"

lemma evaluates_simps [simp]: "evaluates env (Inr b)" "evaluates env (qe_expr_matches env vals c)"
  by (auto simp: evaluates_def expr_error_def)

lemma evaluates_bindr: "evaluates env r \<Longrightarrow> (\<And>m. r = Inr m \<Longrightarrow> evaluates env (f m)) \<Longrightarrow> evaluates env (bindr r f)"
  by (auto simp: evaluates_def bindr_Inl_iff)

lemma validate_all_elem:
  assumes "validate_all env vs i path = Inr ()" "v \<in> set vs" "elem_match_of v = Some c"
  shows "\<exists>p. validate_elem_match env c p = Inr ()"
  using assms
  by (induction vs arbitrary: i) (auto simp: elem_match_of_Some elem_match_member_def is_operator_def bindr_Inr_iff simp del: validate_elem_match.simps)

lemma elem_match_object: "validate_elem_match env c p = Inr () \<Longrightarrow> \<exists>kvs. c = JObject kvs"
  by (cases c) (auto simp: validate_elem_match.simps)

declare matches_condition.simps [simp del] validate_condition.simps [simp del] matches_element.simps [simp del]
  validate_elem_match.simps [simp del]

lemma validated_evaluates:
  "(\<exists>path. validate_filter env f path = Inr ()) \<Longrightarrow> evaluates env (matches_filter env vals f)"
  "(\<exists>i path. validate_clauses env cs i path = Inr ()) \<Longrightarrow> evaluates env (filter_clauses env vals every cs)"
  "(\<exists>path. validate_condition env c path = Inr ()) \<Longrightarrow> evaluates env (matches_condition env actual c)"
  "(\<exists>path. validate_operators env ops path = Inr ()) \<Longrightarrow> evaluates env (matches_operators env actual ops)"
  "(\<exists>i path. validate_all env vs i path = Inr ()) \<Longrightarrow> evaluates env (matches_candidates env els vs)"
  "(\<exists>path. validate_elem_match env c path = Inr ()) \<Longrightarrow> evaluates env (any_element env els c)"
  "(\<exists>path. validate_elem_match env c path = Inr ()) \<Longrightarrow> evaluates env (matches_element env el c)"
proof (induction env vals f and env vals every cs and env actual c and env actual ops and env els vs and env els c and env el c
    rule: matches_filter_filter_clauses_matches_condition_matches_operators_matches_candidates_any_element_matches_element.induct)
  case (2 env vals field condition r)
  then obtain path where v: "validate_filter env ((field, condition) # r) path = Inr ()" by blast
  show ?case unfolding matches_filter.simps
  proof (rule evaluates_bindr, goal_cases)
    case (2 m)
    then show ?case using v "2.IH"(5) by (auto simp: bindr_Inr_iff)
  next
  case 1
  consider (and_or) "field = ''$and'' \<or> field = ''$or''" | (neg) "field = ''$not''" | (expr) "field = ''$expr''"
    | (field) "field \<noteq> ''$and''" "field \<noteq> ''$or''" "field \<noteq> ''$not''" "field \<noteq> ''$expr''" by argo
  then show ?case
  proof cases
    case and_or
    then obtain cs where o: "condition = JArray cs" "\<exists>i p. validate_clauses env cs i p = Inr ()"
      using v by (cases condition) (auto simp: bindr_Inr_iff)
    from and_or show ?thesis
    proof
      assume f: "field = ''$and''"
      with "2.IH"(1) [OF f o(1) o(2)] o(1) show ?thesis by (auto intro!: evaluates_bindr)
    next
      assume f: "field = ''$or''"
      with "2.IH"(2) [OF _ f o(1) o(2)] o(1) show ?thesis by (auto intro!: evaluates_bindr)
    qed
  next
    case neg
    then obtain clause where o: "condition = JObject clause" "\<exists>p. validate_filter env clause p = Inr ()"
      using v by (cases condition) (auto simp: bindr_Inr_iff)
    with "2.IH"(3) [OF _ _ neg o] neg show ?thesis by (auto intro!: evaluates_bindr)
  next
    case expr
    then show ?thesis by simp
  next
    case field
    then have "\<exists>p. validate_condition env condition p = Inr ()"
      using v by (auto simp: bindr_Inr_iff split: if_splits)
    with "2.IH"(4) field show ?thesis by (auto intro!: evaluates_bindr)
  qed
  qed
next
  case (4 env vals every c cs)
  then show ?case
    by (auto simp: bindr_Inr_iff intro!: evaluates_bindr split: json.splits) blast+
next
  case (5 env actual c)
  then show ?case by (cases c) (auto simp: Let_def matches_condition.simps validate_condition.simps split: if_splits)
next
  case (7 env actual operator operand r)
  then obtain path where v: "validate_operators env ((operator, operand) # r) path = Inr ()" by blast
  show ?case unfolding matches_operators.simps
  proof (rule evaluates_bindr, goal_cases)
    case (2 m)
    then show ?case using v "7.IH"(4) by (auto simp: bindr_Inr_iff)
  next
  case 1
  consider (all) "operator = ''$all''" | (elem) "operator = ''$elemMatch''" | (neg) "operator = ''$not''"
    | (rest) "operator \<noteq> ''$all''" "operator \<noteq> ''$elemMatch''" "operator \<noteq> ''$not''" by argo
  then show ?case
  proof cases
    case all
    then obtain vs where o: "operand = JArray vs" "validate_all env vs 0 (member path ''$all'') = Inr ()"
      using v by (cases operand) (simp_all add: bindr_Inr_iff)
    with all "7.IH"(1) show ?thesis by (auto split: option.splits)
  next
    case elem
    then have o: "validate_elem_match env operand (member path ''$elemMatch'') = Inr ()"
      using v by (simp add: bindr_Inr_iff)
    then obtain kvs where k: "operand = JObject kvs" using elem_match_object by blast
    with elem o "7.IH"(2) show ?thesis by (auto split: option.splits)
  next
    case neg
    then have o: "validate_condition env operand (member path ''$not'') = Inr ()"
      using v by (cases operand) (simp_all add: bindr_Inr_iff)
    with neg "7.IH"(3) show ?thesis by (auto intro!: evaluates_bindr)
  next
    case rest
    consider (plain) "operator \<in> {''$eq'', ''$ne'', ''$gt'', ''$gte'', ''$lt'', ''$lte''}" | (lst) "operator = ''$in'' \<or> operator = ''$nin''"
      | (ex) "operator = ''$exists''" | (sz) "operator = ''$size''"
      | (other) "operator \<notin> {''$eq'', ''$ne'', ''$gt'', ''$gte'', ''$lt'', ''$lte''}" "operator \<noteq> ''$in''" "operator \<noteq> ''$nin''"
          "operator \<noteq> ''$exists''" "operator \<noteq> ''$size''" by argo
    then show ?thesis
    proof cases
      case plain
      then show ?thesis by auto
    next
      case lst
      then obtain vs where "operand = JArray vs" using v by (cases operand) (auto simp: bindr_Inr_iff)
      with lst show ?thesis by auto
    next
      case ex
      then obtain b where "operand = JBool b" using v by (cases operand) (auto simp: bindr_Inr_iff)
      with ex show ?thesis by auto
    next
      case sz
      then obtain n w where "operand = JNumber n" "number_as_u64 n = Some w" using v
        by (cases operand) (auto simp: bindr_Inr_iff split: option.splits)
      with sz show ?thesis by (auto simp: matches_size_def)
    next
      case other
      with rest v show ?thesis by (simp add: bindr_Inr_iff)
    qed
  qed
  qed
next
  case (9 env actual candidate cs)
  then obtain i path where v: "validate_all env (candidate # cs) i path = Inr ()" by blast
  show ?case
    unfolding matches_candidates.simps
    apply (rule evaluates_bindr)
    subgoal using 9(1) validate_all_elem [OF v, of candidate] by (auto split: option.splits)
    subgoal using 9(2) v by (auto simp: bindr_Inr_iff)
    done
next
  case (11 env e es criteria)
  then show ?case by (auto intro!: evaluates_bindr)
next
  case (12 env e criteria)
  from "12.prems" obtain path where v: "validate_elem_match env criteria path = Inr ()" by blast
  from elem_match_object [OF this] obtain kvs where c: "criteria = JObject kvs" by blast
  show ?case
  proof (cases "list_ex (\<lambda>(k, _). is_operator k) kvs")
    case True
    then have "validate_condition env criteria path = Inr ()" using v c by (simp add: validate_elem_match.simps)
    moreover from this True have "list_all (\<lambda>(k, _). is_operator k) kvs"
      using c by (auto simp: validate_condition.simps list_ex_iff list_all_iff split: if_splits)
    ultimately show ?thesis using 12(1) [OF c] c True by (auto simp: matches_element.simps)
  next
    case False
    then have "validate_filter env kvs path = Inr ()" using v c by (simp add: validate_elem_match.simps)
    moreover from False have "kvs = [] \<or> \<not> list_all (\<lambda>(k, _). is_operator k) kvs" by (cases kvs) auto
    ultimately show ?thesis using 12(2) [OF c] c by (cases e) (auto simp: matches_element.simps)
  qed
qed auto

section \<open>Projections\<close>

definition include_field :: "json_map \<Rightarrow> string \<times> int \<Rightarrow> json_map \<Rightarrow> json_map" where
  "include_field source = (\<lambda>(field, n) out.
     if n \<noteq> 1 then out
     else case field_value source field of None \<Rightarrow> out | Some v \<Rightarrow> insert_projected_value out source field v)"

lemma include_fields:
  assumes "sorted_obj out" "\<And>f n. (f, n) \<in> set p \<Longrightarrow> n = 1 \<and> obj_get source f \<noteq> None"
  shows "sorted_obj (fold (include_field source) p out) \<and>
    obj_get (fold (include_field source) p out) =
      (\<lambda>f. if f \<in> fst ` set p then obj_get source f else obj_get out f)"
  using assms
proof (induction p arbitrary: out)
  case (Cons kn p)
  obtain k n where kn: "kn = (k, n)" by (cases kn)
  with Cons.prems(2) obtain v where v: "n = 1" "obj_get source k = Some v" by fastforce
  then have i: "include_field source kn out = obj_insert k v out"
    by (simp add: include_field_def kn field_value_def insert_projected_value_def)
  have "sorted_obj (obj_insert k v out)" "\<And>f n. (f, n) \<in> set p \<Longrightarrow> n = 1 \<and> obj_get source f \<noteq> None"
    using Cons.prems by auto
  from Cons.IH [OF this] have "sorted_obj (fold (include_field source) (kn # p) out) \<and>
      obj_get (fold (include_field source) (kn # p) out) =
        (\<lambda>f. if f \<in> fst ` set p then obj_get source f else obj_get (obj_insert k v out) f)"
    by (simp only: fold.simps comp_def i)
  then show ?case using v kn by (auto simp: obj_get_insert fun_eq_iff)
qed simp

lemma project_included:
  assumes "p \<noteq> []" "\<And>f n. (f, n) \<in> set p \<Longrightarrow> n = 1 \<and> obj_get source f \<noteq> None"
  shows "\<exists>out. project_values source p = JObject out \<and> sorted_obj out \<and>
    obj_get out = (\<lambda>f. if f \<in> fst ` set p then obj_get source f else None)"
proof -
  have "list_ex (\<lambda>(_, n). n = 1) p" using assms by (cases p) (auto split: prod.splits)
  then have "project_values source p = JObject (fold (include_field source) p [])"
    using assms(1) by (simp add: project_values_def include_field_def [abs_def])
  with include_fields [of "[]" p source] assms(2) show ?thesis by auto
qed

text \<open>
  A projection of array elements can lose one it was asked for: the names are visited in
  byte order, so \<open>a.10\<close> comes before \<open>a.2\<close>, and storing the element at the smaller index cuts
  the array that already holds the other one.
\<close>

lemma projection_loses_element:
  "project_values [(''a'', JArray (map (\<lambda>n. JNumber (PosInt (word_of_nat n))) [0..<11]))] [(''a.10'', 1), (''a.2'', 1)] =
     JObject [(''a'', JArray [JNull, JNull, JNumber (PosInt 2)])]"
  by (simp add: project_values_def field_value_def insert_projected_value_def one_or_many_def
      path_array_index_def parse_nat_bytes_def list_get_def descend_into_array_def is_array_def json_as_array_def
      json_as_object_def string_bytes_def undecimal_def is_ascii_digit_def usize_limit_def resize_def upt_rec)

section \<open>The order of numbers\<close>

lemma bit_length_double: "0 < n \<Longrightarrow> bit_length (n * 2 ^ k) = bit_length n + k"
proof (induction k)
  case (Suc k)
  then have "bit_length (n * 2 ^ Suc k) = Suc (bit_length (n * 2 ^ k))"
    by (subst bit_length.simps) (simp add: mult.left_commute)
  with Suc show ?case by simp
qed simp

lemma round_half_even_scale: "0 < c \<Longrightarrow> round_half_even (n * c) (d * c) = round_half_even n d"
proof -
  assume c: "0 < c"
  have "2 * (n mod d * c) < d * c \<longleftrightarrow> 2 * (n mod d) < d" "d * c < 2 * (n mod d * c) \<longleftrightarrow> d < 2 * (n mod d)"
    using c mult_less_cancel2 [of "2 * (n mod d)" c d] mult_less_cancel2 [of d c "2 * (n mod d)"]
    by (simp_all add: mult.assoc)
  with c show ?thesis by (simp add: round_half_even_def Let_def mod_mult_mult2)
qed

lemma f64_of_int_big:
  assumes "53 \<le> bit_length n" "0 < n"
  shows "f64_round (n * 2 ^ 1074) 1 =
    min f64_infinity ((bit_length n + 1021) * 2 ^ 52 + round_half_even n (2 ^ (bit_length n - 53)))"
proof -
  have "bit_length n + 1021 = (bit_length n - 53) + 1074" using assms by simp
  then have p: "(2::nat) ^ (bit_length n + 1021) = 2 ^ (bit_length n - 53) * 2 ^ 1074" by (simp only: power_add)
  have "bit_length (n * 2 ^ 1074 div 1) - 53 = bit_length n + 1021"
    using assms by (simp only: bit_length_double div_by_1)
  then show ?thesis
    unfolding f64_round_def Let_def by (simp only: mult_1 p round_half_even_scale [of "2 ^ 1074"] zero_less_power zero_less_numeral)
qed

lemma f64_of_nat_big:
  assumes "53 \<le> bit_length n" "0 < n"
  shows "f64_of_int (int n) = f64_of_magnitude False
    (min f64_infinity ((bit_length n + 1021) * 2 ^ 52 + round_half_even n (2 ^ (bit_length n - 53))))"
  unfolding f64_of_int_def abs_of_nat nat_int by (simp only: f64_of_int_big [OF assms] of_nat_less_0_iff)

lemma doubles_of_neighbours:
  "f64_of_int 9007199254740992 = 0x4340000000000000" "f64_of_int 9007199254740993 = 0x4340000000000000"
  using f64_of_nat_big [of 9007199254740992] f64_of_nat_big [of 9007199254740993]
  by (simp_all add: bit_length.simps f64_infinity_def round_half_even_def f64_of_magnitude_def)

text \<open>
  The order of a sort is not transitive: an integer and a double compare as doubles, so two
  neighbouring integers above \<open>2 ^ 53\<close> are both equal to the same double, but not to each other.
\<close>

lemma sort_order_not_transitive:
  "compare_for_sort env (Some (JNumber (PosInt 9007199254740992))) (Some (JNumber (Float 0x4340000000000000))) = Equal \<and>
   compare_for_sort env (Some (JNumber (Float 0x4340000000000000))) (Some (JNumber (PosInt 9007199254740993))) = Equal \<and>
   compare_for_sort env (Some (JNumber (PosInt 9007199254740992))) (Some (JNumber (PosInt 9007199254740993))) = Less"
  by (simp add: compare_for_sort_def compare_numbers_def doubles_of_neighbours f64_compare_def f64_is_finite_def
      f64_exponent_def f64_magnitude_def i64_max_def compare_def)

section \<open>The property of filters\<close>

text \<open>
  C23. A filter that passes validation can be evaluated on every record: evaluation returns a
  verdict, and the only errors it can return are those of \<open>$expr\<close> expressions.
\<close>

theorem validated_filter_evaluates:
  assumes "validate_filter env f path = Inr ()"
  shows "(\<exists>b. matches_filter env vals f = Inr b) \<or>
    (\<exists>e vals' c. matches_filter env vals f = Inl e \<and> qe_expr_matches env vals' c = Inl e)"
  using validated_evaluates(1) [of env f vals] assms
  by (cases "matches_filter env vals f") (auto simp: evaluates_def expr_error_def)

definition sample_env :: query_env where
  "sample_env = \<lparr>qe_json_text = \<lambda>_. [], qe_expr_matches = \<lambda>_ _. Inr True, qe_expr_validate = \<lambda>_ _. Inr ()\<rparr>"

definition sample_filter :: json_map where
  "sample_filter =
     [(''$or'', JArray [JObject [(''age'', JObject [(''$gte'', JNumber (PosInt 18))])],
                        JObject [(''tags'', JObject [(''$elemMatch'', JObject [(''$in'', JArray [JString ''a''])])])]])]"

lemma sample_filter_valid: "validate_filter sample_env sample_filter ''filter'' = Inr ()"
  by (simp add: sample_filter_def validate_condition.simps validate_elem_match.simps is_operator_def)

theorem validated_filter_evaluates_witness:
  "\<exists>b. matches_filter sample_env [(''age'', JNumber (PosInt 20))] sample_filter = Inr b"
  using validated_filter_evaluates [OF sample_filter_valid, of "[(''age'', JNumber (PosInt 20))]"]
  by (auto simp: sample_env_def)

end
