(* ===== verification/Replication_Log.thy ===== *)
theory Replication_Log
  imports Disk Rust_Text Json
begin

text \<open>
  The replication log: the operations of a transaction (\<^verbatim>\<open>src/src/xbase.rs\<close>), entries
  (\<^verbatim>\<open>src/src/replication/entry.rs\<close>), follower progress (\<^verbatim>\<open>src/src/replication/progress.rs\<close>), pages of
  entries (\<^verbatim>\<open>src/src/replication/transport.rs\<close>), snapshots (\<^verbatim>\<open>src/src/replication/snapshot.rs\<close>) and the log
  itself (\<^verbatim>\<open>src/src/replication.rs\<close>).  The catalog and the JSON writers and readers are arguments.
\<close>

section \<open>Operations of a transaction\<close>

datatype operation_method = Get | Query | Post | Put | Patch | Delete

record operation_ir =
  op_method :: operation_method
  op_path :: string
  op_body :: "json option"

datatype constraint_mode = Immediate | Deferred

datatype transaction_command = SetConstraints "string option" bool "string list" constraint_mode

datatype transaction_step = Mutation operation_ir | Command transaction_command

definition MAX_OPERATION_BATCH :: nat where "MAX_OPERATION_BATCH = 1000"

fun method_as_str :: "operation_method \<Rightarrow> string" where
  "method_as_str Get = ''GET''"
| "method_as_str Query = ''QUERY''"
| "method_as_str Post = ''POST''"
| "method_as_str Put = ''PUT''"
| "method_as_str Patch = ''PATCH''"
| "method_as_str Delete = ''DELETE''"

fun step_validate :: "transaction_step \<Rightarrow> (string, unit) result" where
  "step_validate (Mutation operation) =
     ensure (op_method operation \<noteq> Get \<and> op_method operation \<noteq> Query)
       (method_as_str (op_method operation) @ '' is a read operation'')"
| "step_validate (Command (SetConstraints tab all_names names mode)) =
     bindr (ensure (\<not> (case tab of Some name \<Rightarrow> trim name = [] | None \<Rightarrow> False))
       ''constraint table name must not be empty'') (\<lambda>_.
     bindr (ensure (\<not> (all_names \<and> names \<noteq> [])) ''all and names cannot be used together'') (\<lambda>_.
     bindr (ensure (\<not> (\<not> all_names \<and> names = [])) ''constraint names must not be empty unless all is true'') (\<lambda>_.
     ensure (\<not> list_ex (\<lambda>name. trim name = []) names) ''constraint names must not be empty'')))"

fun is_constraint_command :: "transaction_step \<Rightarrow> bool" where
  "is_constraint_command (Command _) = True"
| "is_constraint_command (Mutation _) = False"

fun into_mutation :: "transaction_step \<Rightarrow> operation_ir option" where
  "into_mutation (Mutation operation) = Some operation"
| "into_mutation (Command _) = None"

fun collect_options :: "'a option list \<Rightarrow> 'a list option" where
  "collect_options [] = Some []"
| "collect_options (x # xs) = Option.bind x (\<lambda>y. map_option ((#) y) (collect_options xs))"

text \<open>\<open>PartialEq\<close> of the steps: bodies compare as JSON values do.\<close>

fun body_eq :: "json option \<Rightarrow> json option \<Rightarrow> bool" where
  "body_eq None None = True"
| "body_eq (Some a) (Some b) = json_eq a b"
| "body_eq _ _ = False"

definition operation_eq :: "operation_ir \<Rightarrow> operation_ir \<Rightarrow> bool" where
  "operation_eq a b \<longleftrightarrow> op_method a = op_method b \<and> op_path a = op_path b \<and> body_eq (op_body a) (op_body b)"

fun step_eq :: "transaction_step \<Rightarrow> transaction_step \<Rightarrow> bool" where
  "step_eq (Mutation a) (Mutation b) = operation_eq a b"
| "step_eq (Command a) (Command b) = (a = b)"
| "step_eq _ _ = False"

section \<open>Errors\<close>

text \<open>The errors of the catalog are the type arguments.\<close>

datatype ('ce, 'te) replication_error =
    Re_invalid string
  | Re_serialization string
  | Re_catalog 'ce
  | Re_commit 'te
  | TermMismatch u64 u64
  | IndexGap u64 u64
  | TransactionGap u64 u64
  | CatalogStateMismatch u64 u64
  | SchemaMismatch string string
  | HistoryUnavailable u64 u64
  | ConflictingDuplicate u64
  | SidecarStateMismatch
  | ReadUnavailable u64 u64
  | ReadHistoryUnavailable u64 u64
  | SnapshotUnavailable u64 u64
  | EntriesUnavailable u64 u64
  | ProgressUnavailable u64 u64
  | ProgressRegression string u64 u64
  | NoFollowerProgress
  | CompactionNotAcknowledged u64 u64
  | SnapshotStale u64 u64
  | SnapshotConflict u64
  | SnapshotInstallRace u64 u64

section \<open>Entries\<close>

record replication_entry =
  re_version :: u16
  re_term :: u64
  re_index :: u64
  re_transaction_id :: u64
  re_schema_tag :: string
  re_operations :: "operation_ir list"
  re_steps :: "transaction_step list"

definition REPLICATION_ENTRY_VERSION :: u16 where "REPLICATION_ENTRY_VERSION = 1"
definition REPLICATION_ENTRY_STEPS_VERSION :: u16 where "REPLICATION_ENTRY_STEPS_VERSION = 2"

definition entry_eq :: "replication_entry \<Rightarrow> replication_entry \<Rightarrow> bool" where
  "entry_eq a b \<longleftrightarrow>
     re_version a = re_version b \<and> re_term a = re_term b \<and> re_index a = re_index b \<and>
     re_transaction_id a = re_transaction_id b \<and> re_schema_tag a = re_schema_tag b \<and>
     list_all2 operation_eq (re_operations a) (re_operations b) \<and> list_all2 step_eq (re_steps a) (re_steps b)"

definition transaction_steps :: "replication_entry \<Rightarrow> transaction_step list" where
  "transaction_steps e =
     (if re_version e = REPLICATION_ENTRY_VERSION then map Mutation (re_operations e) else re_steps e)"

fun validate_steps :: "transaction_step list \<Rightarrow> bool \<Rightarrow> (('ce, 'te) replication_error, bool) result" where
  "validate_steps [] has_mutation = Inr has_mutation"
| "validate_steps (step # steps) has_mutation =
     bindr (map_err Re_invalid (step_validate step)) (\<lambda>_.
     case step of
       Mutation operation \<Rightarrow>
         bindr (ensure (op_method operation \<noteq> Get \<and> op_method operation \<noteq> Query)
           (Re_invalid (method_as_str (op_method operation) @ '' is a read operation''))) (\<lambda>_.
         validate_steps steps True)
     | Command (SetConstraints tab all_names _ _) \<Rightarrow>
         bindr (ensure (\<not> (\<not> all_names \<and> tab = None))
           (Re_invalid ''table is required when setting named constraints in a replication entry'')) (\<lambda>_.
         validate_steps steps has_mutation))"

definition entry_validate :: "replication_entry \<Rightarrow> (('ce, 'te) replication_error, unit) result" where
  "entry_validate e =
     bindr (ensure (re_version e = REPLICATION_ENTRY_VERSION \<or> re_version e = REPLICATION_ENTRY_STEPS_VERSION)
       (Re_invalid (''unsupported replication entry version: '' @ show_nat (unat (re_version e))))) (\<lambda>_.
     bindr (ensure (\<not> (re_term e = 0 \<or> re_index e = 0 \<or> re_transaction_id e = 0))
       (Re_invalid ''term, index, and transaction_id must be positive'')) (\<lambda>_.
     bindr (ensure (trim (re_schema_tag e) \<noteq> []) (Re_invalid ''schema_tag must not be empty'')) (\<lambda>_.
     let steps = transaction_steps e in
     bindr (ensure (\<not> ((re_version e = REPLICATION_ENTRY_VERSION \<and> (re_operations e = [] \<or> re_steps e \<noteq> [])) \<or>
         (re_version e = REPLICATION_ENTRY_STEPS_VERSION \<and>
           (re_operations e \<noteq> [] \<or> re_steps e = [] \<or> \<not> list_ex is_constraint_command (re_steps e)))))
       (Re_invalid ''replication entry fields do not match their version'')) (\<lambda>_.
     bindr (ensure (steps \<noteq> []) (Re_invalid ''operations must not be empty'')) (\<lambda>_.
     bindr (ensure (length steps \<le> MAX_OPERATION_BATCH)
       (Re_invalid (''operation count exceeds '' @ show_nat MAX_OPERATION_BATCH))) (\<lambda>_.
     bindr (validate_steps steps False) (\<lambda>has_mutation.
     ensure has_mutation (Re_invalid ''replication entry must contain a record mutation''))))))))"

definition entry_new ::
  "u64 \<Rightarrow> u64 \<Rightarrow> u64 \<Rightarrow> string \<Rightarrow> operation_ir list \<Rightarrow> (('ce, 'te) replication_error, replication_entry) result" where
  "entry_new trm index transaction_id schema_tag operations =
     (let e = \<lparr>re_version = REPLICATION_ENTRY_VERSION, re_term = trm, re_index = index,
        re_transaction_id = transaction_id, re_schema_tag = schema_tag, re_operations = operations, re_steps = []\<rparr>
      in bindr (entry_validate e) (\<lambda>_. Inr e))"

definition entry_new_with_steps ::
  "u64 \<Rightarrow> u64 \<Rightarrow> u64 \<Rightarrow> string \<Rightarrow> transaction_step list \<Rightarrow> (('ce, 'te) replication_error, replication_entry) result" where
  "entry_new_with_steps trm index transaction_id schema_tag steps =
     (if \<not> list_ex is_constraint_command steps
      then bindr (ok_or (Re_invalid ''constraint command requires a version 2 replication entry'')
          (collect_options (map into_mutation steps))) (\<lambda>operations.
        entry_new trm index transaction_id schema_tag operations)
      else
        let e = \<lparr>re_version = REPLICATION_ENTRY_STEPS_VERSION, re_term = trm, re_index = index,
          re_transaction_id = transaction_id, re_schema_tag = schema_tag, re_operations = [], re_steps = steps\<rparr>
        in bindr (entry_validate e) (\<lambda>_. Inr e))"

section \<open>Follower progress\<close>

record replication_progress =
  rp_version :: u16
  rp_follower_id :: string
  rp_term :: u64
  rp_index :: u64
  rp_transaction_id :: u64
  rp_schema_tag :: string

type_synonym follower_watermarks = "(string \<times> replication_progress) list"

record replication_log =
  rl_format_version :: u16
  rl_term :: u64
  rl_base_index :: u64
  rl_base_transaction_id :: u64
  rl_entries :: "replication_entry list"
  rl_watermarks :: follower_watermarks

record replication_entry_batch =
  rb_transport_version :: u16
  rb_term :: u64
  rb_base_index :: u64
  rb_base_transaction_id :: u64
  rb_after_index :: u64
  rb_last_index :: u64
  rb_last_transaction_id :: u64
  rb_entries :: "replication_entry list"
  rb_next_after :: "u64 option"

record replication_snapshot =
  rs_version :: u16
  rs_term :: u64
  rs_last_index :: u64
  rs_last_transaction_id :: u64
  rs_schema_tag :: string
  rs_catalog :: bytes

datatype progress_outcome = Accepted | Duplicate_progress

datatype apply_outcome =
    Applied u64 u64
  | Duplicate u64 u64
  | SnapshotInstalled u64 u64
  | SnapshotDuplicate u64 u64

text \<open>\<open>serde_json\<close>: the writers and readers of the types above.\<close>

record replication_serde =
  entry_to_vec :: "replication_entry \<Rightarrow> (string, bytes) result"
  entry_from_slice :: "bytes \<Rightarrow> (string, replication_entry) result"
  progress_to_vec :: "replication_progress \<Rightarrow> (string, bytes) result"
  progress_from_slice :: "bytes \<Rightarrow> (string, replication_progress) result"
  watermarks_to_vec :: "follower_watermarks \<Rightarrow> (string, bytes) result"
  watermarks_from_slice :: "bytes \<Rightarrow> (string, follower_watermarks) result"
  log_to_vec :: "replication_log \<Rightarrow> (string, bytes) result"
  log_from_slice :: "bytes \<Rightarrow> (string, replication_log) result"
  batch_to_vec :: "replication_entry_batch \<Rightarrow> (string, bytes) result"
  batch_from_slice :: "bytes \<Rightarrow> (string, replication_entry_batch) result"
  snapshot_to_vec :: "replication_snapshot \<Rightarrow> (string, bytes) result"
  snapshot_from_slice :: "bytes \<Rightarrow> (string, replication_snapshot) result"

definition MAX_JSON_INPUT_BYTES :: nat where "MAX_JSON_INPUT_BYTES = 1024 * 1024"
definition MAX_REPLICATION_ENTRY_BYTES :: nat where "MAX_REPLICATION_ENTRY_BYTES = MAX_JSON_INPUT_BYTES"
definition REPLICATION_PROGRESS_VERSION :: u16 where "REPLICATION_PROGRESS_VERSION = 1"
definition MAX_REPLICATION_FOLLOWERS :: nat where "MAX_REPLICATION_FOLLOWERS = 1024"
definition MAX_REPLICATION_PROGRESS_BYTES :: nat where "MAX_REPLICATION_PROGRESS_BYTES = MAX_JSON_INPUT_BYTES"
definition MAX_FOLLOWER_ID_BYTES :: nat where "MAX_FOLLOWER_ID_BYTES = 128"
definition REPLICATION_PROGRESS_SIDECAR_MAGIC :: bytes where
  "REPLICATION_PROGRESS_SIDECAR_MAGIC = [0x54, 0x58, 0x52, 0x47]"
definition REPLICATION_PROGRESS_SIDECAR_VERSION :: u8 where "REPLICATION_PROGRESS_SIDECAR_VERSION = 1"
definition REPLICATION_LOG_VERSION :: u16 where "REPLICATION_LOG_VERSION = 1"
definition REPLICATION_TRANSPORT_VERSION :: u16 where "REPLICATION_TRANSPORT_VERSION = 1"
definition REPLICATION_SIDECAR_NAME :: string where "REPLICATION_SIDECAR_NAME = ''.txbase.replication''"
definition REPLICATION_PROGRESS_SIDECAR_NAME :: string where
  "REPLICATION_PROGRESS_SIDECAR_NAME = ''.txbase.replication-progress''"
definition REPLICATION_SIDECAR_MAGIC :: bytes where "REPLICATION_SIDECAR_MAGIC = [0x54, 0x58, 0x52, 0x50]"
definition REPLICATION_SIDECAR_VERSION :: u8 where "REPLICATION_SIDECAR_VERSION = 1"
definition MAX_REPLICATION_ENTRY_BATCH :: nat where "MAX_REPLICATION_ENTRY_BATCH = 128"
definition MAX_REPLICATION_ENTRY_BATCH_BYTES :: nat where "MAX_REPLICATION_ENTRY_BATCH_BYTES = MAX_JSON_INPUT_BYTES"
definition REPLICATION_SNAPSHOT_VERSION :: u16 where "REPLICATION_SNAPSHOT_VERSION = 1"
definition MAX_REPLICATION_SNAPSHOT_BYTES :: nat where "MAX_REPLICATION_SNAPSHOT_BYTES = 64 * 1024 * 1024"

definition exceeds :: "string \<Rightarrow> nat \<Rightarrow> string" where
  "exceeds what n = what @ '' exceeds '' @ show_nat n @ '' bytes''"

definition entry_to_json :: "replication_serde \<Rightarrow> replication_entry \<Rightarrow> (('ce, 'te) replication_error, bytes) result" where
  "entry_to_json sd e =
     bindr (entry_validate e) (\<lambda>_.
     bindr (map_err Re_serialization (entry_to_vec sd e)) (\<lambda>bs.
     bindr (ensure (length bs \<le> MAX_REPLICATION_ENTRY_BYTES)
       (Re_invalid (exceeds ''replication entry JSON'' MAX_REPLICATION_ENTRY_BYTES))) (\<lambda>_. Inr bs)))"

definition entry_from_json :: "replication_serde \<Rightarrow> bytes \<Rightarrow> (('ce, 'te) replication_error, replication_entry) result" where
  "entry_from_json sd bs =
     bindr (ensure (length bs \<le> MAX_REPLICATION_ENTRY_BYTES)
       (Re_invalid (exceeds ''replication entry JSON'' MAX_REPLICATION_ENTRY_BYTES))) (\<lambda>_.
     bindr (map_err Re_serialization (entry_from_slice sd bs)) (\<lambda>e.
     bindr (entry_validate e) (\<lambda>_. Inr e)))"

definition is_ascii_alphanumeric :: "u8 \<Rightarrow> bool" where
  "is_ascii_alphanumeric b \<longleftrightarrow> is_ascii_digit b \<or> (0x41 \<le> b \<and> b \<le> 0x5A) \<or> (0x61 \<le> b \<and> b \<le> 0x7A)"

definition follower_id_ok :: "string \<Rightarrow> bool" where
  "follower_id_ok s \<longleftrightarrow>
     s \<noteq> [] \<and> length s \<le> MAX_FOLLOWER_ID_BYTES \<and>
     list_all (\<lambda>b. is_ascii_alphanumeric b \<or> b \<in> {0x2E, 0x5F, 0x2D}) (string_bytes s)"

definition progress_validate :: "replication_progress \<Rightarrow> (('ce, 'te) replication_error, unit) result" where
  "progress_validate p =
     bindr (ensure (rp_version p = REPLICATION_PROGRESS_VERSION)
       (Re_invalid (''unsupported replication progress version: '' @ show_nat (unat (rp_version p))))) (\<lambda>_.
     bindr (ensure (follower_id_ok (rp_follower_id p))
       (Re_invalid (''follower_id must be 1 to 128 ASCII letters, digits, '' @
         concat [[CHR 0x27], ''.'', [CHR 0x27], '', '', [CHR 0x27], ''_'', [CHR 0x27], '', or '', [CHR 0x27], ''-'', [CHR 0x27]]))) (\<lambda>_.
     bindr (ensure (rp_term p \<noteq> 0) (Re_invalid ''progress term must be positive'')) (\<lambda>_.
     bindr (ensure ((rp_index p = 0) = (rp_transaction_id p = 0))
       (Re_invalid ''progress index and transaction_id must both be zero or both be positive'')) (\<lambda>_.
     ensure (trim (rp_schema_tag p) \<noteq> []) (Re_invalid ''progress schema_tag must not be empty'')))))"

definition progress_new ::
  "string \<Rightarrow> u64 \<Rightarrow> u64 \<Rightarrow> u64 \<Rightarrow> string \<Rightarrow> (('ce, 'te) replication_error, replication_progress) result" where
  "progress_new follower_id trm index transaction_id schema_tag =
     (let p = \<lparr>rp_version = REPLICATION_PROGRESS_VERSION, rp_follower_id = follower_id, rp_term = trm,
        rp_index = index, rp_transaction_id = transaction_id, rp_schema_tag = schema_tag\<rparr>
      in bindr (progress_validate p) (\<lambda>_. Inr p))"

definition progress_to_json :: "replication_serde \<Rightarrow> replication_progress \<Rightarrow> (('ce, 'te) replication_error, bytes) result" where
  "progress_to_json sd p =
     bindr (progress_validate p) (\<lambda>_.
     bindr (map_err Re_serialization (progress_to_vec sd p)) (\<lambda>bs.
     bindr (ensure (length bs \<le> MAX_REPLICATION_PROGRESS_BYTES)
       (Re_invalid (exceeds ''replication progress JSON'' MAX_REPLICATION_PROGRESS_BYTES))) (\<lambda>_. Inr bs)))"

definition progress_from_json :: "replication_serde \<Rightarrow> bytes \<Rightarrow> (('ce, 'te) replication_error, replication_progress) result" where
  "progress_from_json sd bs =
     bindr (ensure (length bs \<le> MAX_REPLICATION_PROGRESS_BYTES)
       (Re_invalid (exceeds ''replication progress JSON'' MAX_REPLICATION_PROGRESS_BYTES))) (\<lambda>_.
     bindr (map_err Re_serialization (progress_from_slice sd bs)) (\<lambda>p.
     bindr (progress_validate p) (\<lambda>_. Inr p)))"

definition key_error :: "('ce, 'te) replication_error" where
  "key_error = Re_invalid ''replication progress follower key does not match follower_id''"

fun write_followers :: "follower_watermarks \<Rightarrow> (('ce, 'te) replication_error, unit) result" where
  "write_followers [] = Inr ()"
| "write_followers ((follower_id, p) # ps) =
     bindr (ensure (follower_id = rp_follower_id p) key_error) (\<lambda>_.
     bindr (progress_validate p) (\<lambda>_. write_followers ps))"

fun read_followers :: "follower_watermarks \<Rightarrow> (('ce, 'te) replication_error, unit) result" where
  "read_followers [] = Inr ()"
| "read_followers ((follower_id, p) # ps) =
     bindr (progress_validate p) (\<lambda>_.
     bindr (ensure (follower_id = rp_follower_id p) key_error) (\<lambda>_. read_followers ps))"

definition follower_count_error :: "('ce, 'te) replication_error" where
  "follower_count_error = Re_invalid (''replication follower count exceeds '' @ show_nat MAX_REPLICATION_FOLLOWERS)"

definition watermarks_to_sidecar_bytes ::
  "replication_serde \<Rightarrow> follower_watermarks \<Rightarrow> (('ce, 'te) replication_error, bytes) result" where
  "watermarks_to_sidecar_bytes sd w =
     bindr (ensure (length w \<le> MAX_REPLICATION_FOLLOWERS) follower_count_error) (\<lambda>_.
     bindr (write_followers w) (\<lambda>_.
     bindr (map_err Re_serialization (watermarks_to_vec sd w)) (\<lambda>payload.
     bindr (ensure (length payload \<le> MAX_REPLICATION_PROGRESS_BYTES)
       (Re_invalid (exceeds ''replication progress sidecar JSON'' MAX_REPLICATION_PROGRESS_BYTES))) (\<lambda>_.
     Inr (REPLICATION_PROGRESS_SIDECAR_MAGIC @ REPLICATION_PROGRESS_SIDECAR_VERSION # payload)))))"

definition watermarks_from_sidecar_bytes ::
  "replication_serde \<Rightarrow> bytes \<Rightarrow> (('ce, 'te) replication_error, follower_watermarks) result" where
  "watermarks_from_sidecar_bytes sd bs =
     bindr (ok_or (Re_invalid ''replication progress sidecar header is invalid'')
       (strip_prefix REPLICATION_PROGRESS_SIDECAR_MAGIC bs)) (\<lambda>body.
     case body of
       [] \<Rightarrow> Inl (Re_invalid ''replication progress sidecar header is truncated'')
     | version # payload \<Rightarrow>
         bindr (ensure (version = REPLICATION_PROGRESS_SIDECAR_VERSION)
           (Re_invalid (''unsupported replication progress sidecar version: '' @ show_nat (unat version)))) (\<lambda>_.
         bindr (ensure (length payload \<le> MAX_REPLICATION_PROGRESS_BYTES)
           (Re_invalid (exceeds ''replication progress sidecar JSON'' MAX_REPLICATION_PROGRESS_BYTES))) (\<lambda>_.
         bindr (map_err Re_serialization (watermarks_from_slice sd payload)) (\<lambda>w.
         bindr (ensure (length w \<le> MAX_REPLICATION_FOLLOWERS) follower_count_error) (\<lambda>_.
         bindr (read_followers w) (\<lambda>_. Inr w))))))"

definition safe_compaction_index :: "follower_watermarks \<Rightarrow> u64 option" where
  "safe_compaction_index w = (if w = [] then None else Some (Min (set (map (rp_index \<circ> snd) w))))"

section \<open>The log\<close>

definition next_value :: "u64 \<Rightarrow> string \<Rightarrow> (('ce, 'te) replication_error, u64) result" where
  "next_value v name = ok_or (Re_invalid (name @ '' is exhausted'')) (checked_add_u64 v 1)"

definition last_index :: "replication_log \<Rightarrow> u64" where
  "last_index l = rl_base_index l + word_of_nat (length (rl_entries l))"

definition last_transaction_id :: "replication_log \<Rightarrow> u64" where
  "last_transaction_id l = rl_base_transaction_id l + word_of_nat (length (rl_entries l))"

definition with_position :: "u64 \<Rightarrow> u64 \<Rightarrow> u64 \<Rightarrow> (('ce, 'te) replication_error, replication_log) result" where
  "with_position trm base_index base_transaction_id =
     bindr (ensure (trm \<noteq> 0) (Re_invalid ''term must be positive'')) (\<lambda>_.
     Inr \<lparr>rl_format_version = REPLICATION_LOG_VERSION, rl_term = trm, rl_base_index = base_index,
       rl_base_transaction_id = base_transaction_id, rl_entries = [], rl_watermarks = []\<rparr>)"

definition log_new :: "u64 \<Rightarrow> (('ce, 'te) replication_error, replication_log) result" where
  "log_new trm = with_position trm 0 0"

fun validate_entries ::
  "u64 \<Rightarrow> u64 \<Rightarrow> u64 \<Rightarrow> replication_entry list \<Rightarrow> (('ce, 'te) replication_error, unit) result" where
  "validate_entries trm expected_index expected_transaction_id [] = Inr ()"
| "validate_entries trm expected_index expected_transaction_id (e # es) =
     bindr (entry_validate e) (\<lambda>_.
     bindr (next_value expected_index ''index'') (\<lambda>expected_index.
     bindr (next_value expected_transaction_id ''transaction_id'') (\<lambda>expected_transaction_id.
     bindr (ensure (re_term e = trm) (TermMismatch trm (re_term e))) (\<lambda>_.
     bindr (ensure (re_index e = expected_index) (IndexGap expected_index (re_index e))) (\<lambda>_.
     bindr (ensure (re_transaction_id e = expected_transaction_id)
       (TransactionGap expected_transaction_id (re_transaction_id e))) (\<lambda>_.
     validate_entries trm expected_index expected_transaction_id es))))))"

definition log_validate :: "replication_log \<Rightarrow> (('ce, 'te) replication_error, unit) result" where
  "log_validate l =
     bindr (ensure (rl_format_version l = REPLICATION_LOG_VERSION)
       (Re_invalid (''unsupported replication log version: '' @ show_nat (unat (rl_format_version l))))) (\<lambda>_.
     bindr (ensure (rl_term l \<noteq> 0) (Re_invalid ''term must be positive'')) (\<lambda>_.
     validate_entries (rl_term l) (rl_base_index l) (rl_base_transaction_id l) (rl_entries l)))"

text \<open>The followers are not part of the JSON of a log; reading one starts without them.\<close>

definition log_to_json :: "replication_serde \<Rightarrow> replication_log \<Rightarrow> (('ce, 'te) replication_error, bytes) result" where
  "log_to_json sd l = bindr (log_validate l) (\<lambda>_. map_err Re_serialization (log_to_vec sd l))"

definition log_from_json :: "replication_serde \<Rightarrow> bytes \<Rightarrow> (('ce, 'te) replication_error, replication_log) result" where
  "log_from_json sd bs =
     bindr (map_err Re_serialization (log_from_slice sd bs)) (\<lambda>l.
     let l = l\<lparr>rl_watermarks := []\<rparr> in bindr (log_validate l) (\<lambda>_. Inr l))"

definition log_to_sidecar_bytes :: "replication_serde \<Rightarrow> replication_log \<Rightarrow> (('ce, 'te) replication_error, bytes) result" where
  "log_to_sidecar_bytes sd l =
     bindr (log_to_json sd l) (\<lambda>bs. Inr (REPLICATION_SIDECAR_MAGIC @ REPLICATION_SIDECAR_VERSION # bs))"

definition log_from_sidecar_bytes :: "replication_serde \<Rightarrow> bytes \<Rightarrow> (('ce, 'te) replication_error, replication_log) result" where
  "log_from_sidecar_bytes sd bs =
     bindr (ok_or (Re_invalid ''replication sidecar header is invalid'') (strip_prefix REPLICATION_SIDECAR_MAGIC bs)) (\<lambda>body.
     case body of
       [] \<Rightarrow> Inl (Re_invalid ''replication sidecar header is truncated'')
     | version # payload \<Rightarrow>
         bindr (ensure (version = REPLICATION_SIDECAR_VERSION)
           (Re_invalid (''unsupported replication sidecar version: '' @ show_nat (unat version)))) (\<lambda>_.
         log_from_json sd payload))"

section \<open>Entry pages\<close>

fun batch_validate_entries ::
  "replication_entry_batch \<Rightarrow> replication_entry list \<Rightarrow> u64 option \<Rightarrow> u64 option \<Rightarrow> (('ce, 'te) replication_error, unit) result" where
  "batch_validate_entries b [] expected_index expected_transaction_id = Inr ()"
| "batch_validate_entries b (e # es) expected_index expected_transaction_id =
     bindr (entry_validate e) (\<lambda>_.
     bindr (ensure (re_term e = rb_term b) (TermMismatch (rb_term b) (re_term e))) (\<lambda>_.
     bindr (ensure (Some (re_index e) = expected_index)
       (IndexGap (case expected_index of Some i \<Rightarrow> i | None \<Rightarrow> - 1) (re_index e))) (\<lambda>_.
     bindr (ensure (re_index e \<le> rb_last_index b)
       (Re_invalid ''replication entry batch contains an index beyond last_index'')) (\<lambda>_.
     bindr (ok_or (Re_invalid ''replication entry transaction ID is exhausted'') expected_transaction_id) (\<lambda>expected.
     bindr (ensure (re_transaction_id e = expected) (TransactionGap expected (re_transaction_id e))) (\<lambda>_.
     bindr (ensure (re_transaction_id e \<le> rb_last_transaction_id b)
       (Re_invalid ''replication entry batch contains a transaction beyond last_transaction_id'')) (\<lambda>_.
     batch_validate_entries b es (checked_add_u64 (re_index e) 1) (checked_add_u64 (re_transaction_id e) 1))))))))"

definition continuation :: "replication_entry list \<Rightarrow> u64 \<Rightarrow> u64 option" where
  "continuation es stop =
     (if es = [] then None else if re_index (last es) < stop then Some (re_index (last es)) else None)"

definition batch_validate :: "replication_entry_batch \<Rightarrow> (('ce, 'te) replication_error, unit) result" where
  "batch_validate b =
     bindr (ensure (rb_transport_version b = REPLICATION_TRANSPORT_VERSION)
       (Re_invalid (''unsupported replication transport version: '' @ show_nat (unat (rb_transport_version b))))) (\<lambda>_.
     bindr (ensure (\<not> (rb_term b = 0 \<or> rb_base_index b > rb_after_index b \<or> rb_last_index b < rb_after_index b \<or>
         rb_base_transaction_id b > rb_last_transaction_id b))
       (Re_invalid ''replication entry batch position is invalid'')) (\<lambda>_.
     bindr (ok_or (Re_invalid ''replication transaction ID exhausted'')
       (checked_add_u64 (rb_base_transaction_id b) (rb_last_index b - rb_base_index b))) (\<lambda>expected_last.
     bindr (ensure (rb_last_transaction_id b = expected_last)
       (TransactionGap expected_last (rb_last_transaction_id b))) (\<lambda>_.
     bindr (ensure (length (rb_entries b) \<le> MAX_REPLICATION_ENTRY_BATCH)
       (Re_invalid (''replication entry batch exceeds '' @ show_nat MAX_REPLICATION_ENTRY_BATCH @ '' entries''))) (\<lambda>_.
     bindr (ensure (\<not> (rb_entries b = [] \<and> rb_after_index b < rb_last_index b))
       (Re_invalid ''replication entry batch cannot be empty before the last index'')) (\<lambda>_.
     bindr (batch_validate_entries b (rb_entries b) (checked_add_u64 (rb_after_index b) 1)
       (Option.bind (checked_add_u64 (rb_base_transaction_id b) (rb_after_index b - rb_base_index b))
         (\<lambda>v. checked_add_u64 v 1))) (\<lambda>_.
     ensure (rb_next_after b = continuation (rb_entries b) (rb_last_index b))
       (Re_invalid ''replication entry batch continuation is invalid''))))))))"

definition batch_new :: "replication_log \<Rightarrow> u64 \<Rightarrow> replication_entry list \<Rightarrow> replication_entry_batch" where
  "batch_new l after_index es =
     \<lparr>rb_transport_version = REPLICATION_TRANSPORT_VERSION, rb_term = rl_term l, rb_base_index = rl_base_index l,
      rb_base_transaction_id = rl_base_transaction_id l, rb_after_index = after_index, rb_last_index = last_index l,
      rb_last_transaction_id = last_transaction_id l, rb_entries = es, rb_next_after = None\<rparr>"

definition page :: "replication_log \<Rightarrow> u64 \<Rightarrow> replication_entry list \<Rightarrow> replication_entry_batch" where
  "page l after_index es = (batch_new l after_index es)\<lparr>rb_next_after := continuation es (last_index l)\<rparr>"

fun collect_page ::
  "replication_serde \<Rightarrow> replication_log \<Rightarrow> u64 \<Rightarrow> replication_entry list \<Rightarrow> replication_entry list \<Rightarrow>
     (('ce, 'te) replication_error, replication_entry list) result" where
  "collect_page sd l after_index [] es = Inr es"
| "collect_page sd l after_index (e # available) es =
     (let candidate = page l after_index (es @ [e]) in
      bindr (batch_validate candidate) (\<lambda>_.
      bindr (map_err Re_serialization (batch_to_vec sd candidate)) (\<lambda>bs.
      if MAX_REPLICATION_ENTRY_BATCH_BYTES < length bs then
        if es = [] then Inl (Re_invalid (''one replication entry exceeds the '' @
            show_nat MAX_REPLICATION_ENTRY_BATCH_BYTES @ ''-byte batch response limit''))
        else Inr es
      else collect_page sd l after_index available (es @ [e]))))"

definition batch_limit_error :: "('ce, 'te) replication_error" where
  "batch_limit_error = Re_invalid (''replication entry batch limit must be between 1 and '' @ show_nat MAX_REPLICATION_ENTRY_BATCH)"

definition entry_batch ::
  "replication_serde \<Rightarrow> replication_log \<Rightarrow> u64 \<Rightarrow> nat \<Rightarrow> (('ce, 'te) replication_error, replication_entry_batch) result" where
  "entry_batch sd l after_index limit =
     bindr (ensure (1 \<le> limit \<and> limit \<le> MAX_REPLICATION_ENTRY_BATCH) batch_limit_error) (\<lambda>_.
     bindr (log_validate l) (\<lambda>_.
     bindr (ensure (\<not> after_index < rl_base_index l) (HistoryUnavailable after_index (rl_base_index l))) (\<lambda>_.
     bindr (ensure (\<not> after_index > last_index l) (EntriesUnavailable after_index (last_index l))) (\<lambda>_.
     let offset = unat (after_index - rl_base_index l); available = drop offset (rl_entries l) in
     bindr (collect_page sd l after_index (take limit available) []) (\<lambda>es.
     let b = page l after_index es in
     bindr (batch_validate b) (\<lambda>_. Inr b))))))"

definition batch_to_json :: "replication_serde \<Rightarrow> replication_entry_batch \<Rightarrow> (('ce, 'te) replication_error, bytes) result" where
  "batch_to_json sd b =
     bindr (batch_validate b) (\<lambda>_.
     bindr (map_err Re_serialization (batch_to_vec sd b)) (\<lambda>bs.
     bindr (ensure (length bs \<le> MAX_REPLICATION_ENTRY_BATCH_BYTES)
       (Re_invalid (exceeds ''replication entry batch JSON'' MAX_REPLICATION_ENTRY_BATCH_BYTES))) (\<lambda>_. Inr bs)))"

definition batch_from_json :: "replication_serde \<Rightarrow> bytes \<Rightarrow> (('ce, 'te) replication_error, replication_entry_batch) result" where
  "batch_from_json sd bs =
     bindr (ensure (length bs \<le> MAX_REPLICATION_ENTRY_BATCH_BYTES)
       (Re_invalid (exceeds ''replication entry batch JSON'' MAX_REPLICATION_ENTRY_BATCH_BYTES))) (\<lambda>_.
     bindr (map_err Re_serialization (batch_from_slice sd bs)) (\<lambda>b.
     bindr (batch_validate b) (\<lambda>_. Inr b)))"

section \<open>The catalog\<close>

text \<open>
  The operations of the catalog a log uses.  A catalog is a value of type \<open>'c\<close>; the
  operations that change it return the new one with their result.
\<close>

record ('c, 'ce, 'te) catalog_ops =
  ct_transaction_id :: "'c \<Rightarrow> ('ce, u64 option) result"
  ct_schema_representation :: "'c \<Rightarrow> ('ce, bytes \<times> string) result"
  ct_read_sidecar_bytes :: "'c \<Rightarrow> string \<Rightarrow> ('ce, bytes option) result"
  ct_from_path_at :: "'c \<Rightarrow> u64 \<Rightarrow> ('ce, 'c) result"
  ct_export_current_snapshot :: "'c \<Rightarrow> ('ce, u64 \<times> string \<times> bytes) result"
  ct_export_snapshot_at :: "'c \<Rightarrow> u64 \<Rightarrow> ('ce, bytes) result"
  ct_snapshot_metadata :: "bytes \<Rightarrow> ('ce, u64 \<times> string) result"
  ct_replace_sidecar :: "string \<Rightarrow> bytes option \<Rightarrow> bytes \<Rightarrow> ('c, 'te, unit) prog"
  ct_remove_sidecar :: "string \<Rightarrow> bytes option \<Rightarrow> ('c, 'te, unit) prog"
  ct_commit_steps :: "transaction_step list \<Rightarrow> string \<Rightarrow> bytes option \<Rightarrow> bytes \<Rightarrow> ('c, 'te, u64) prog"
  ct_commit_steps_with_preconditions ::
    "transaction_step list \<Rightarrow> string option \<Rightarrow> string option \<Rightarrow> string \<Rightarrow> bytes option \<Rightarrow> bytes \<Rightarrow> ('c, 'te, u64) prog"
  ct_commit_operations_with_table_preconditions ::
    "operation_ir list \<Rightarrow> string \<Rightarrow> string option \<times> string option \<Rightarrow> string \<Rightarrow> bytes option \<Rightarrow> bytes \<Rightarrow> ('c, 'te, u64) prog"
  ct_install_snapshot_with_sidecars ::
    "bytes \<Rightarrow> u64 \<Rightarrow> (string \<times> bytes option \<times> bytes option) list \<Rightarrow> ('c, 'te, u64) prog"
  ct_precondition_failed :: "'te \<Rightarrow> (u64 \<times> u64) option"

type_synonym ('c, 'ce, 'te, 'a) cat_prog = "('c, ('ce, 'te) replication_error, 'a) prog"

definition cat_query :: "('c \<Rightarrow> ('ce, 'a) result) \<Rightarrow> ('c, 'ce, 'te, 'a) cat_prog" where
  "cat_query f c = (c, map_err Re_catalog (f c))"

abbreviation cat_commit :: "('c, 'te, 'a) prog \<Rightarrow> ('c, 'ce, 'te, 'a) cat_prog" where
  "cat_commit \<equiv> map_errp Re_commit"

definition current_transaction_id :: "('c, 'ce, 'te) catalog_ops \<Rightarrow> ('c, 'ce, 'te, u64) cat_prog" where
  "current_transaction_id ops =
     bindp (cat_query (ct_transaction_id ops)) (\<lambda>t. retp (case t of Some x \<Rightarrow> x | None \<Rightarrow> 0))"

definition schema_tag_of :: "('c, 'ce, 'te) catalog_ops \<Rightarrow> ('c, 'ce, 'te, string) cat_prog" where
  "schema_tag_of ops = bindp (cat_query (ct_schema_representation ops)) (\<lambda>(_, schema_tag). retp schema_tag)"

definition read_sidecar :: "('c, 'ce, 'te) catalog_ops \<Rightarrow> string \<Rightarrow> ('c, 'ce, 'te, bytes option) cat_prog" where
  "read_sidecar ops name = cat_query (\<lambda>c. ct_read_sidecar_bytes ops c name)"

definition ensure_catalog_position :: "replication_log \<Rightarrow> u64 \<Rightarrow> (('ce, 'te) replication_error, unit) result" where
  "ensure_catalog_position l actual =
     ensure (actual = last_transaction_id l) (CatalogStateMismatch (last_transaction_id l) actual)"

definition at_catalog_position :: "('c, 'ce, 'te) catalog_ops \<Rightarrow> replication_log \<Rightarrow> ('c, 'ce, 'te, unit) cat_prog" where
  "at_catalog_position ops l =
     bindp (current_transaction_id ops) (\<lambda>t. liftp (ensure_catalog_position l t))"

section \<open>Acknowledging progress\<close>

text \<open>The checks of a position, and the entry of a follower.\<close>

definition progress_position :: "replication_log \<Rightarrow> replication_progress \<Rightarrow> (('ce, 'te) replication_error, unit) result" where
  "progress_position l p =
     bindr (ensure (\<not> rp_index p < rl_base_index l) (HistoryUnavailable (rp_index p) (rl_base_index l))) (\<lambda>_.
     bindr (ensure (\<not> rp_index p > last_index l) (ProgressUnavailable (rp_index p) (last_index l))) (\<lambda>_.
     bindr (ok_or (Re_invalid ''progress transaction ID exhausted'')
       (checked_add_u64 (rl_base_transaction_id l) (rp_index p - rl_base_index l))) (\<lambda>expected.
     ensure (rp_transaction_id p = expected) (TransactionGap expected (rp_transaction_id p)))))"

definition record_progress ::
  "follower_watermarks \<Rightarrow> replication_progress \<Rightarrow>
     (('ce, 'te) replication_error, follower_watermarks \<times> progress_outcome) result" where
  "record_progress w p =
     (case obj_get w (rp_follower_id p) of
        Some previous \<Rightarrow>
          if previous = p then Inr (w, Duplicate_progress)
          else
            bindr (ensure (\<not> rp_index p < rp_index previous)
              (ProgressRegression (rp_follower_id p) (rp_index previous) (rp_index p))) (\<lambda>_.
            Inr (obj_insert (rp_follower_id p) p w, Accepted))
      | None \<Rightarrow>
          bindr (ensure (\<not> MAX_REPLICATION_FOLLOWERS \<le> length w) follower_count_error) (\<lambda>_.
          Inr (obj_insert (rp_follower_id p) p w, Accepted)))"

definition acknowledge ::
  "('c, 'ce, 'te) catalog_ops \<Rightarrow> follower_watermarks \<Rightarrow> replication_log \<Rightarrow> replication_progress \<Rightarrow>
     ('c, 'ce, 'te, follower_watermarks \<times> progress_outcome) cat_prog" where
  "acknowledge ops w l p =
     bindp (liftp (progress_validate p)) (\<lambda>_.
     bindp (liftp (log_validate l)) (\<lambda>_.
     bindp (at_catalog_position ops l) (\<lambda>_.
     bindp (liftp (ensure (rp_term p = rl_term l) (TermMismatch (rl_term l) (rp_term p)))) (\<lambda>_.
     bindp (schema_tag_of ops) (\<lambda>schema_tag.
     bindp (liftp (ensure (rp_schema_tag p = schema_tag) (SchemaMismatch schema_tag (rp_schema_tag p)))) (\<lambda>_.
     bindp (liftp (progress_position l p)) (\<lambda>_.
     liftp (record_progress w p))))))))"

fun acknowledge_all ::
  "('c, 'ce, 'te) catalog_ops \<Rightarrow> replication_log \<Rightarrow> follower_watermarks \<Rightarrow> follower_watermarks \<Rightarrow>
     ('c, 'ce, 'te, follower_watermarks) cat_prog" where
  "acknowledge_all ops l [] validated = retp validated"
| "acknowledge_all ops l ((_, p) # w) validated =
     bindp (acknowledge ops validated l p) (\<lambda>(validated, _). acknowledge_all ops l w validated)"

definition validate_against ::
  "('c, 'ce, 'te) catalog_ops \<Rightarrow> replication_log \<Rightarrow> follower_watermarks \<Rightarrow> ('c, 'ce, 'te, unit) cat_prog" where
  "validate_against ops l w =
     bindp (acknowledge_all ops l w []) (\<lambda>validated.
     liftp (ensure (validated = w) (Re_invalid ''replication progress sidecar contains inconsistent followers'')))"

text \<open>
  An operation that changes its log returns the new one; when it fails, the log is the one
  it was called with.
\<close>

definition acknowledge_follower ::
  "replication_serde \<Rightarrow> ('c, 'ce, 'te) catalog_ops \<Rightarrow> replication_log \<Rightarrow> replication_progress \<Rightarrow>
     ('c, 'ce, 'te, replication_log \<times> progress_outcome) cat_prog" where
  "acknowledge_follower sd ops l p =
     bindp (acknowledge ops (rl_watermarks l) l p) (\<lambda>(watermarks, outcome).
     bindp (read_sidecar ops REPLICATION_PROGRESS_SIDECAR_NAME) (\<lambda>expected.
     bindp (liftp (watermarks_to_sidecar_bytes sd watermarks)) (\<lambda>bs.
     bindp (cat_commit (ct_replace_sidecar ops REPLICATION_PROGRESS_SIDECAR_NAME expected bs)) (\<lambda>_.
     retp (l\<lparr>rl_watermarks := watermarks\<rparr>, outcome)))))"

definition progress_for ::
  "('c, 'ce, 'te) catalog_ops \<Rightarrow> replication_log \<Rightarrow> string \<Rightarrow> ('c, 'ce, 'te, replication_progress) cat_prog" where
  "progress_for ops l follower_id =
     bindp (at_catalog_position ops l) (\<lambda>_.
     bindp (schema_tag_of ops) (\<lambda>schema_tag.
     liftp (progress_new follower_id (rl_term l) (last_index l) (last_transaction_id l) schema_tag)))"

definition read_at :: "('c, 'ce, 'te) catalog_ops \<Rightarrow> replication_log \<Rightarrow> u64 \<Rightarrow> ('c, 'ce, 'te, 'c) cat_prog" where
  "read_at ops l transaction_id =
     bindp (liftp (ensure (transaction_id \<noteq> 0) (Re_invalid ''follower read transaction_id must be positive''))) (\<lambda>_.
     bindp (at_catalog_position ops l) (\<lambda>_.
     bindp (liftp (ensure (\<not> transaction_id < rl_base_transaction_id l)
       (ReadHistoryUnavailable transaction_id (rl_base_transaction_id l)))) (\<lambda>_.
     bindp (liftp (ensure (\<not> transaction_id > last_transaction_id l)
       (ReadUnavailable transaction_id (last_transaction_id l)))) (\<lambda>_.
     cat_query (\<lambda>c. ct_from_path_at ops c transaction_id)))))"

definition read_applied :: "('c, 'ce, 'te) catalog_ops \<Rightarrow> replication_log \<Rightarrow> ('c, 'ce, 'te, 'c) cat_prog" where
  "read_applied ops l =
     bindp (current_transaction_id ops) (\<lambda>transaction_id.
     bindp (liftp (ensure (transaction_id \<noteq> 0) (ReadUnavailable 1 0))) (\<lambda>_.
     read_at ops l transaction_id))"

definition log_bootstrap ::
  "replication_serde \<Rightarrow> ('c, 'ce, 'te) catalog_ops \<Rightarrow> u64 \<Rightarrow> bytes option \<Rightarrow> ('c, 'ce, 'te, replication_log) cat_prog" where
  "log_bootstrap sd ops trm sidecar =
     (case sidecar of
        Some bs \<Rightarrow> liftp (log_from_sidecar_bytes sd bs)
      | None \<Rightarrow>
          bindp (current_transaction_id ops) (\<lambda>transaction_id.
          liftp (if transaction_id = 0 then log_new trm else with_position trm transaction_id transaction_id)))"

definition log_open ::
  "replication_serde \<Rightarrow> ('c, 'ce, 'te) catalog_ops \<Rightarrow> u64 \<Rightarrow> ('c, 'ce, 'te, replication_log) cat_prog" where
  "log_open sd ops trm =
     bindp (read_sidecar ops REPLICATION_SIDECAR_NAME) (\<lambda>sidecar.
     bindp (log_bootstrap sd ops trm sidecar) (\<lambda>l.
     bindp (liftp (ensure (rl_term l = trm) (TermMismatch trm (rl_term l)))) (\<lambda>_.
     bindp (at_catalog_position ops l) (\<lambda>_.
     bindp (read_sidecar ops REPLICATION_PROGRESS_SIDECAR_NAME) (\<lambda>progress_sidecar.
     bindp (liftp (ensure (\<not> (sidecar = None \<and> progress_sidecar \<noteq> None))
       (Re_invalid ''replication progress sidecar requires a replication log sidecar''))) (\<lambda>_.
     bindp (liftp (case progress_sidecar of
         Some bs \<Rightarrow> watermarks_from_sidecar_bytes sd bs
       | None \<Rightarrow> Inr [])) (\<lambda>w.
     let l = l\<lparr>rl_watermarks := w\<rparr> in
     bindp (validate_against ops l w) (\<lambda>_. retp l))))))))"

section \<open>Proposing and receiving entries\<close>

datatype commit_preconditions =
    Pre_catalog "string option" "string option"
  | Pre_table string "string option" "string option"

definition commit_entry ::
  "replication_serde \<Rightarrow> ('c, 'ce, 'te) catalog_ops \<Rightarrow> replication_log \<Rightarrow> transaction_step list \<Rightarrow> bytes option \<Rightarrow>
     commit_preconditions option \<Rightarrow> ('c, 'ce, 'te, u64) cat_prog" where
  "commit_entry sd ops next_log steps expected_sidecar preconditions =
     (case preconditions of
        Some (Pre_catalog if_match if_none_match) \<Rightarrow>
          bindp (liftp (log_to_sidecar_bytes sd next_log)) (\<lambda>bs.
          cat_commit (ct_commit_steps_with_preconditions ops steps if_match if_none_match REPLICATION_SIDECAR_NAME
            expected_sidecar bs))
      | Some (Pre_table name if_match if_none_match) \<Rightarrow>
          bindp (liftp (ok_or (Re_invalid ''constraint commands require catalog transaction preconditions'')
            (collect_options (map into_mutation steps)))) (\<lambda>operations.
          bindp (liftp (log_to_sidecar_bytes sd next_log)) (\<lambda>bs.
          cat_commit (ct_commit_operations_with_table_preconditions ops operations name (if_match, if_none_match)
            REPLICATION_SIDECAR_NAME expected_sidecar bs)))
      | None \<Rightarrow>
          bindp (liftp (log_to_sidecar_bytes sd next_log)) (\<lambda>bs.
          cat_commit (ct_commit_steps ops steps REPLICATION_SIDECAR_NAME expected_sidecar bs)))"

definition expected_sidecar_of ::
  "replication_serde \<Rightarrow> replication_log \<Rightarrow> bytes option \<Rightarrow> (('ce, 'te) replication_error, bytes option) result" where
  "expected_sidecar_of sd l actual =
     (case actual of
        Some bs \<Rightarrow>
          bindr (log_to_sidecar_bytes sd l) (\<lambda>own.
          bindr (ensure (bs = own) SidecarStateMismatch) (\<lambda>_. Inr (Some bs)))
      | None \<Rightarrow> Inr None)"

definition apply_new_with_preconditions ::
  "replication_serde \<Rightarrow> ('c, 'ce, 'te) catalog_ops \<Rightarrow> replication_log \<Rightarrow> replication_entry \<Rightarrow>
     commit_preconditions option \<Rightarrow> ('c, 'ce, 'te, replication_log \<times> apply_outcome) cat_prog" where
  "apply_new_with_preconditions sd ops l e preconditions =
     bindp (liftp (next_value (last_index l) ''index'')) (\<lambda>expected_index.
     bindp (liftp (ensure (re_index e = expected_index) (IndexGap expected_index (re_index e)))) (\<lambda>_.
     bindp (liftp (next_value (last_transaction_id l) ''transaction_id'')) (\<lambda>expected_transaction_id.
     bindp (liftp (ensure (re_transaction_id e = expected_transaction_id)
       (TransactionGap expected_transaction_id (re_transaction_id e)))) (\<lambda>_.
     bindp (at_catalog_position ops l) (\<lambda>_.
     bindp (schema_tag_of ops) (\<lambda>schema_tag.
     bindp (liftp (ensure (re_schema_tag e = schema_tag) (SchemaMismatch schema_tag (re_schema_tag e)))) (\<lambda>_.
     bindp (read_sidecar ops REPLICATION_SIDECAR_NAME) (\<lambda>actual_sidecar.
     bindp (liftp (expected_sidecar_of sd l actual_sidecar)) (\<lambda>expected_sidecar.
     let next_log = l\<lparr>rl_entries := rl_entries l @ [e]\<rparr> in
     bindp (commit_entry sd ops next_log (transaction_steps e) expected_sidecar preconditions) (\<lambda>transaction_id.
     bindp (liftp (ensure (transaction_id = re_transaction_id e)
       (Re_invalid (''catalog committed transaction '' @ show_nat (unat transaction_id) @ '', expected '' @
         show_nat (unat (re_transaction_id e)))))) (\<lambda>_.
     retp (l\<lparr>rl_entries := rl_entries l @ [e]\<rparr>, Applied (re_index e) transaction_id))))))))))))"

definition apply_new ::
  "replication_serde \<Rightarrow> ('c, 'ce, 'te) catalog_ops \<Rightarrow> replication_log \<Rightarrow> replication_entry \<Rightarrow>
     ('c, 'ce, 'te, replication_log \<times> apply_outcome) cat_prog" where
  "apply_new sd ops l e = apply_new_with_preconditions sd ops l e None"

definition propose_entry ::
  "replication_serde \<Rightarrow> ('c, 'ce, 'te) catalog_ops \<Rightarrow> replication_log \<Rightarrow>
     (u64 \<Rightarrow> u64 \<Rightarrow> u64 \<Rightarrow> string \<Rightarrow> (('ce, 'te) replication_error, replication_entry) result) \<Rightarrow>
     commit_preconditions \<Rightarrow> ('c, 'ce, 'te, replication_log \<times> replication_entry) cat_prog" where
  "propose_entry sd ops l build preconditions =
     bindp (at_catalog_position ops l) (\<lambda>_.
     bindp (schema_tag_of ops) (\<lambda>schema_tag.
     bindp (liftp (next_value (last_index l) ''index'')) (\<lambda>index.
     bindp (liftp (next_value (last_transaction_id l) ''transaction_id'')) (\<lambda>transaction_id.
     bindp (liftp (build (rl_term l) index transaction_id schema_tag)) (\<lambda>e.
     bindp (apply_new_with_preconditions sd ops l e (Some preconditions)) (\<lambda>(l', _).
     retp (l', e)))))))"

definition propose_with_catalog_preconditions ::
  "replication_serde \<Rightarrow> ('c, 'ce, 'te) catalog_ops \<Rightarrow> replication_log \<Rightarrow> operation_ir list \<Rightarrow> string option \<Rightarrow> string option \<Rightarrow>
     ('c, 'ce, 'te, replication_log \<times> replication_entry) cat_prog" where
  "propose_with_catalog_preconditions sd ops l operations if_match if_none_match =
     propose_entry sd ops l (\<lambda>t i x s. entry_new t i x s operations) (Pre_catalog if_match if_none_match)"

definition propose ::
  "replication_serde \<Rightarrow> ('c, 'ce, 'te) catalog_ops \<Rightarrow> replication_log \<Rightarrow> operation_ir list \<Rightarrow>
     ('c, 'ce, 'te, replication_log \<times> replication_entry) cat_prog" where
  "propose sd ops l operations = propose_with_catalog_preconditions sd ops l operations None None"

definition propose_steps_with_catalog_preconditions ::
  "replication_serde \<Rightarrow> ('c, 'ce, 'te) catalog_ops \<Rightarrow> replication_log \<Rightarrow> transaction_step list \<Rightarrow> string option \<Rightarrow> string option \<Rightarrow>
     ('c, 'ce, 'te, replication_log \<times> replication_entry) cat_prog" where
  "propose_steps_with_catalog_preconditions sd ops l steps if_match if_none_match =
     propose_entry sd ops l (\<lambda>t i x s. entry_new_with_steps t i x s steps) (Pre_catalog if_match if_none_match)"

definition propose_with_table_preconditions ::
  "replication_serde \<Rightarrow> ('c, 'ce, 'te) catalog_ops \<Rightarrow> replication_log \<Rightarrow> string \<Rightarrow> operation_ir list \<Rightarrow> string option \<Rightarrow> string option \<Rightarrow>
     ('c, 'ce, 'te, replication_log \<times> replication_entry) cat_prog" where
  "propose_with_table_preconditions sd ops l table_name operations if_match if_none_match =
     propose_entry sd ops l (\<lambda>t i x s. entry_new t i x s operations) (Pre_table table_name if_match if_none_match)"

definition receive ::
  "replication_serde \<Rightarrow> ('c, 'ce, 'te) catalog_ops \<Rightarrow> replication_log \<Rightarrow> replication_entry \<Rightarrow>
     ('c, 'ce, 'te, replication_log \<times> apply_outcome) cat_prog" where
  "receive sd ops l e =
     bindp (liftp (entry_validate e)) (\<lambda>_.
     bindp (liftp (ensure (re_term e = rl_term l) (TermMismatch (rl_term l) (re_term e)))) (\<lambda>_.
     bindp (liftp (ensure (\<not> re_index e \<le> rl_base_index l) (HistoryUnavailable (re_index e) (rl_base_index l)))) (\<lambda>_.
     let offset = unat (re_index e - rl_base_index l - 1) in
     if offset < length (rl_entries l) then
       if entry_eq (rl_entries l ! offset) e then
         bindp (at_catalog_position ops l) (\<lambda>_. retp (l, Duplicate (re_index e) (re_transaction_id e)))
       else liftp (Inl (ConflictingDuplicate (re_index e)))
     else
       bindp (liftp (next_value (last_index l) ''index'')) (\<lambda>expected_index.
       bindp (liftp (ensure (re_index e = expected_index) (IndexGap expected_index (re_index e)))) (\<lambda>_.
       bindp (liftp (next_value (last_transaction_id l) ''transaction_id'')) (\<lambda>expected_transaction_id.
       bindp (liftp (ensure (re_transaction_id e = expected_transaction_id)
         (TransactionGap expected_transaction_id (re_transaction_id e)))) (\<lambda>_.
       apply_new sd ops l e)))))))"

text \<open>
  A node is a log with its catalog.  A batch changes the log entry by entry, so a failing
  batch leaves the entries before the failure in place.
\<close>

record 'c node =
  nd_log :: replication_log
  nd_catalog :: 'c

definition on_log ::
  "(replication_log \<Rightarrow> ('c, 'e, replication_log \<times> 'a) prog) \<Rightarrow> ('c node, 'e, 'a) prog" where
  "on_log f s =
     (case f (nd_log s) (nd_catalog s) of
        (c, Inl e) \<Rightarrow> (s\<lparr>nd_catalog := c\<rparr>, Inl e)
      | (c, Inr (l, x)) \<Rightarrow> (\<lparr>nd_log = l, nd_catalog = c\<rparr>, Inr x))"

fun receive_entries ::
  "replication_serde \<Rightarrow> ('c, 'ce, 'te) catalog_ops \<Rightarrow> replication_entry list \<Rightarrow>
     ('c node, ('ce, 'te) replication_error, apply_outcome list) prog" where
  "receive_entries sd ops [] = retp []"
| "receive_entries sd ops (e # es) =
     bindp (on_log (\<lambda>l. receive sd ops l e)) (\<lambda>outcome.
     bindp (receive_entries sd ops es) (\<lambda>outcomes. retp (outcome # outcomes)))"

definition receive_batch ::
  "replication_serde \<Rightarrow> ('c, 'ce, 'te) catalog_ops \<Rightarrow> replication_entry_batch \<Rightarrow>
     ('c node, ('ce, 'te) replication_error, apply_outcome list) prog" where
  "receive_batch sd ops b =
     bindp (liftp (batch_validate b)) (\<lambda>_.
     bindp (getp nd_log) (\<lambda>l.
     bindp (liftp (ensure (rb_term b = rl_term l) (TermMismatch (rl_term l) (rb_term b)))) (\<lambda>_.
     receive_entries sd ops (rb_entries b))))"

section \<open>Snapshots\<close>

definition snapshot_validate ::
  "('c, 'ce, 'te) catalog_ops \<Rightarrow> replication_snapshot \<Rightarrow> (('ce, 'te) replication_error, unit) result" where
  "snapshot_validate ops s =
     bindr (ensure (rs_version s = REPLICATION_SNAPSHOT_VERSION)
       (Re_invalid (''unsupported replication snapshot version: '' @ show_nat (unat (rs_version s))))) (\<lambda>_.
     bindr (ensure (\<not> (rs_term s = 0 \<or> rs_last_index s = 0 \<or> rs_last_transaction_id s = 0))
       (Re_invalid ''snapshot term, last_index, and last_transaction_id must be positive'')) (\<lambda>_.
     bindr (ensure (trim (rs_schema_tag s) \<noteq> []) (Re_invalid ''snapshot schema_tag must not be empty'')) (\<lambda>_.
     bindr (ensure (rs_catalog s \<noteq> []) (Re_invalid ''snapshot catalog payload must not be empty'')) (\<lambda>_.
     bindr (ensure (length (rs_catalog s) \<le> MAX_REPLICATION_SNAPSHOT_BYTES)
       (Re_invalid (exceeds ''snapshot catalog payload'' MAX_REPLICATION_SNAPSHOT_BYTES))) (\<lambda>_.
     bindr (map_err Re_catalog (ct_snapshot_metadata ops (rs_catalog s))) (\<lambda>(transaction_id, schema_tag).
     bindr (ensure (transaction_id = rs_last_transaction_id s)
       (TransactionGap (rs_last_transaction_id s) transaction_id)) (\<lambda>_.
     ensure (schema_tag = rs_schema_tag s) (SchemaMismatch schema_tag (rs_schema_tag s)))))))))"

definition snapshot_new ::
  "('c, 'ce, 'te) catalog_ops \<Rightarrow> u64 \<Rightarrow> u64 \<Rightarrow> u64 \<Rightarrow> string \<Rightarrow> bytes \<Rightarrow>
     (('ce, 'te) replication_error, replication_snapshot) result" where
  "snapshot_new ops trm index transaction_id schema_tag bs =
     (let s = \<lparr>rs_version = REPLICATION_SNAPSHOT_VERSION, rs_term = trm, rs_last_index = index,
        rs_last_transaction_id = transaction_id, rs_schema_tag = schema_tag, rs_catalog = bs\<rparr>
      in bindr (snapshot_validate ops s) (\<lambda>_. Inr s))"

definition snapshot_to_json ::
  "replication_serde \<Rightarrow> ('c, 'ce, 'te) catalog_ops \<Rightarrow> replication_snapshot \<Rightarrow> (('ce, 'te) replication_error, bytes) result" where
  "snapshot_to_json sd ops s =
     bindr (snapshot_validate ops s) (\<lambda>_.
     bindr (map_err Re_serialization (snapshot_to_vec sd s)) (\<lambda>bs.
     bindr (ensure (length bs \<le> MAX_REPLICATION_SNAPSHOT_BYTES)
       (Re_invalid (exceeds ''snapshot JSON'' MAX_REPLICATION_SNAPSHOT_BYTES))) (\<lambda>_. Inr bs)))"

definition snapshot_from_json ::
  "replication_serde \<Rightarrow> ('c, 'ce, 'te) catalog_ops \<Rightarrow> bytes \<Rightarrow> (('ce, 'te) replication_error, replication_snapshot) result" where
  "snapshot_from_json sd ops bs =
     bindr (ensure (length bs \<le> MAX_REPLICATION_SNAPSHOT_BYTES)
       (Re_invalid (exceeds ''snapshot JSON'' MAX_REPLICATION_SNAPSHOT_BYTES))) (\<lambda>_.
     bindr (map_err Re_serialization (snapshot_from_slice sd bs)) (\<lambda>s.
     bindr (snapshot_validate ops s) (\<lambda>_. Inr s)))"

definition log_snapshot ::
  "('c, 'ce, 'te) catalog_ops \<Rightarrow> replication_log \<Rightarrow> ('c, 'ce, 'te, replication_snapshot) cat_prog" where
  "log_snapshot ops l =
     bindp (cat_query (ct_export_current_snapshot ops)) (\<lambda>(transaction_id, schema_tag, bs).
     bindp (liftp (ensure_catalog_position l transaction_id)) (\<lambda>_.
     liftp (snapshot_new ops (rl_term l) (last_index l) transaction_id schema_tag bs)))"

definition log_snapshot_at ::
  "('c, 'ce, 'te) catalog_ops \<Rightarrow> replication_log \<Rightarrow> u64 \<Rightarrow> ('c, 'ce, 'te, replication_snapshot) cat_prog" where
  "log_snapshot_at ops l index =
     bindp (liftp (log_validate l)) (\<lambda>_.
     bindp (at_catalog_position ops l) (\<lambda>_.
     bindp (liftp (ensure (\<not> index < rl_base_index l) (HistoryUnavailable index (rl_base_index l)))) (\<lambda>_.
     bindp (liftp (ensure (\<not> index > last_index l) (SnapshotUnavailable index (last_index l)))) (\<lambda>_.
     bindp (liftp (ok_or (Re_invalid ''snapshot transaction ID exhausted'')
       (checked_add_u64 (rl_base_transaction_id l) (index - rl_base_index l)))) (\<lambda>transaction_id.
     bindp (liftp (ensure (transaction_id \<noteq> 0) (Re_invalid ''cannot snapshot an empty catalog''))) (\<lambda>_.
     bindp (cat_query (\<lambda>c. ct_export_snapshot_at ops c transaction_id)) (\<lambda>bs.
     bindp (liftp (map_err Re_catalog (ct_snapshot_metadata ops bs))) (\<lambda>(actual, schema_tag).
     bindp (liftp (ensure (actual = transaction_id) (TransactionGap transaction_id actual))) (\<lambda>_.
     liftp (snapshot_new ops (rl_term l) index transaction_id schema_tag bs))))))))))"

text \<open>The checks before a compaction: the snapshot lies in the log and no follower needs what it covers.\<close>

definition compaction_offset ::
  "replication_log \<Rightarrow> replication_snapshot \<Rightarrow> (('ce, 'te) replication_error, u64) result" where
  "compaction_offset l s =
     bindr (ensure (\<not> rs_last_index s \<le> rl_base_index l)
       (Re_invalid ''snapshot must advance the replication log base'')) (\<lambda>_.
     bindr (ensure (\<not> rs_last_index s > last_index l) (SnapshotUnavailable (rs_last_index s) (last_index l))) (\<lambda>_.
     bindr (ok_or (Re_invalid ''snapshot transaction ID exhausted'')
       (checked_add_u64 (rl_base_transaction_id l) (rs_last_index s - rl_base_index l))) (\<lambda>expected.
     bindr (ensure (rs_last_transaction_id s = expected) (TransactionGap expected (rs_last_transaction_id s))) (\<lambda>_.
     bindr (case safe_compaction_index (rl_watermarks l) of
         Some acknowledged \<Rightarrow>
           ensure (\<not> rs_last_index s > acknowledged) (CompactionNotAcknowledged (rs_last_index s) acknowledged)
       | None \<Rightarrow> Inr ()) (\<lambda>_.
     Inr (rs_last_index s - rl_base_index l))))))"

definition compact_through ::
  "replication_serde \<Rightarrow> ('c, 'ce, 'te) catalog_ops \<Rightarrow> replication_log \<Rightarrow> replication_snapshot \<Rightarrow>
     ('c, 'ce, 'te, replication_log \<times> unit) cat_prog" where
  "compact_through sd ops l s =
     bindp (liftp (snapshot_validate ops s)) (\<lambda>_.
     bindp (liftp (ensure (rs_term s = rl_term l) (TermMismatch (rl_term l) (rs_term s)))) (\<lambda>_.
     bindp (liftp (log_validate l)) (\<lambda>_.
     bindp (at_catalog_position ops l) (\<lambda>_.
     bindp (liftp (compaction_offset l s)) (\<lambda>offset.
     bindp (cat_query (\<lambda>c. ct_export_snapshot_at ops c (rs_last_transaction_id s))) (\<lambda>local_catalog.
     bindp (liftp (ensure (local_catalog = rs_catalog s) (SnapshotConflict (rs_last_transaction_id s)))) (\<lambda>_.
     bindp (liftp (log_to_sidecar_bytes sd l)) (\<lambda>expected_sidecar.
     bindp (read_sidecar ops REPLICATION_SIDECAR_NAME) (\<lambda>actual_sidecar.
     bindp (liftp (ensure (actual_sidecar = Some expected_sidecar) SidecarStateMismatch)) (\<lambda>_.
     let next_log = l\<lparr>rl_base_index := rs_last_index s, rl_base_transaction_id := rs_last_transaction_id s,
       rl_entries := drop (unat offset) (rl_entries l)\<rparr> in
     bindp (liftp (log_validate next_log)) (\<lambda>_.
     bindp (liftp (log_to_sidecar_bytes sd next_log)) (\<lambda>sidecar_after.
     bindp (cat_commit (ct_replace_sidecar ops REPLICATION_SIDECAR_NAME actual_sidecar sidecar_after)) (\<lambda>_.
     retp (next_log, ()))))))))))))))"

definition compact_through_acknowledged ::
  "replication_serde \<Rightarrow> ('c, 'ce, 'te) catalog_ops \<Rightarrow> replication_log \<Rightarrow> replication_snapshot \<Rightarrow>
     ('c, 'ce, 'te, replication_log \<times> unit) cat_prog" where
  "compact_through_acknowledged sd ops l s =
     bindp (liftp (ok_or NoFollowerProgress (safe_compaction_index (rl_watermarks l)))) (\<lambda>acknowledged.
     bindp (liftp (ensure (\<not> rs_last_index s > acknowledged)
       (CompactionNotAcknowledged (rs_last_index s) acknowledged))) (\<lambda>_.
     compact_through sd ops l s))"

definition install_duplicate ::
  "('c, 'ce, 'te) catalog_ops \<Rightarrow> replication_log \<Rightarrow> replication_snapshot \<Rightarrow> bytes \<Rightarrow> bytes option \<Rightarrow> bytes option \<Rightarrow>
     ('c, 'ce, 'te, replication_log \<times> apply_outcome) cat_prog" where
  "install_duplicate ops next_log s sidecar_after actual_sidecar actual_progress_sidecar =
     bindp (cat_query (\<lambda>c. ct_export_snapshot_at ops c (rs_last_transaction_id s))) (\<lambda>current_snapshot.
     bindp (liftp (ensure (current_snapshot = rs_catalog s) (SnapshotConflict (rs_last_transaction_id s)))) (\<lambda>_.
     bindp (liftp (ensure (actual_sidecar = Some sidecar_after) SidecarStateMismatch)) (\<lambda>_.
     bindp (case actual_progress_sidecar of
         Some progress_sidecar \<Rightarrow>
           cat_commit (ct_remove_sidecar ops REPLICATION_PROGRESS_SIDECAR_NAME (Some progress_sidecar))
       | None \<Rightarrow> retp ()) (\<lambda>_.
     retp (next_log, SnapshotDuplicate (rs_last_index s) (rs_last_transaction_id s))))))"

definition install_error :: "('c, 'ce, 'te) catalog_ops \<Rightarrow> 'te \<Rightarrow> ('ce, 'te) replication_error" where
  "install_error ops e =
     (case ct_precondition_failed ops e of
        Some (expected, actual) \<Rightarrow> SnapshotInstallRace expected actual
      | None \<Rightarrow> Re_commit e)"

definition install_snapshot ::
  "replication_serde \<Rightarrow> ('c, 'ce, 'te) catalog_ops \<Rightarrow> replication_log \<Rightarrow> replication_snapshot \<Rightarrow>
     ('c, 'ce, 'te, replication_log \<times> apply_outcome) cat_prog" where
  "install_snapshot sd ops l s =
     bindp (liftp (snapshot_validate ops s)) (\<lambda>_.
     bindp (liftp (ensure (rs_term s = rl_term l) (TermMismatch (rl_term l) (rs_term s)))) (\<lambda>_.
     bindp (current_transaction_id ops) (\<lambda>current.
     bindp (liftp (ensure (\<not> current > rs_last_transaction_id s) (SnapshotStale (rs_last_transaction_id s) current))) (\<lambda>_.
     bindp (liftp (with_position (rs_term s) (rs_last_index s) (rs_last_transaction_id s))) (\<lambda>next_log.
     bindp (liftp (log_to_sidecar_bytes sd next_log)) (\<lambda>sidecar_after.
     bindp (read_sidecar ops REPLICATION_SIDECAR_NAME) (\<lambda>actual_sidecar.
     bindp (read_sidecar ops REPLICATION_PROGRESS_SIDECAR_NAME) (\<lambda>actual_progress_sidecar.
     if current = rs_last_transaction_id s
     then install_duplicate ops next_log s sidecar_after actual_sidecar actual_progress_sidecar
     else
       bindp (map_errp (install_error ops) (ct_install_snapshot_with_sidecars ops (rs_catalog s) current
         [(REPLICATION_SIDECAR_NAME, actual_sidecar, Some sidecar_after),
          (REPLICATION_PROGRESS_SIDECAR_NAME, actual_progress_sidecar, None)])) (\<lambda>transaction_id.
       bindp (liftp (ensure (transaction_id = rs_last_transaction_id s)
         (Re_invalid (''catalog installed transaction '' @ show_nat (unat transaction_id) @ '', expected '' @
           show_nat (unat (rs_last_transaction_id s)))))) (\<lambda>_.
       retp (next_log, SnapshotInstalled (rs_last_index s) transaction_id)))))))))))"

end
