(* ===== verification/Replication.thy ===== *)
theory Replication
  imports Replication_Log
begin

text \<open>
  What the replication log guarantees: the invariant of a log and of its followers under
  every operation, and that pages of entries deliver the whole log.
\<close>

section \<open>What validation accepts\<close>

definition step_ok :: "transaction_step \<Rightarrow> bool" where
  "step_ok s \<longleftrightarrow> step_validate s = Inr () \<and>
     (case s of Command (SetConstraints tab all_names _ _) \<Rightarrow> all_names \<or> tab \<noteq> None | Mutation _ \<Rightarrow> True)"

definition entry_ok :: "replication_entry \<Rightarrow> bool" where
  "entry_ok e \<longleftrightarrow>
     re_version e \<in> {REPLICATION_ENTRY_VERSION, REPLICATION_ENTRY_STEPS_VERSION} \<and>
     re_term e \<noteq> 0 \<and> re_index e \<noteq> 0 \<and> re_transaction_id e \<noteq> 0 \<and> trim (re_schema_tag e) \<noteq> [] \<and>
     (if re_version e = REPLICATION_ENTRY_VERSION then re_operations e \<noteq> [] \<and> re_steps e = []
      else re_operations e = [] \<and> re_steps e \<noteq> [] \<and> list_ex is_constraint_command (re_steps e)) \<and>
     length (transaction_steps e) \<le> MAX_OPERATION_BATCH \<and>
     list_all step_ok (transaction_steps e) \<and> list_ex (\<lambda>s. \<not> is_constraint_command s) (transaction_steps e)"

lemma validate_steps_iff:
  "validate_steps steps b = Inr b' \<longleftrightarrow> list_all step_ok steps \<and> b' = (b \<or> list_ex (\<lambda>s. \<not> is_constraint_command s) steps)"
proof (induction steps arbitrary: b)
  case (Cons step steps)
  show ?case
  proof (cases step)
    case (Mutation operation)
    have "step_validate step = Inr () \<Longrightarrow> op_method operation \<noteq> Get \<and> op_method operation \<noteq> Query"
      using Mutation by (simp add: ensure_Inr_iff)
    then show ?thesis using Mutation Cons
      by (auto simp: bindr_Inr_iff ensure_Inr_iff step_ok_def simp del: step_validate.simps)
  next
    case (Command c)
    obtain tab al names m where c: "c = SetConstraints tab al names m" by (cases c)
    show ?thesis unfolding Command c using Cons
      by (auto simp: bindr_Inr_iff ensure_Inr_iff step_ok_def simp del: step_validate.simps)
  qed
qed auto

lemma entry_validate_iff: "entry_validate e = Inr () \<longleftrightarrow> entry_ok e"
  by (auto simp: entry_validate_def entry_ok_def bindr_Inr_iff ensure_Inr_iff Let_def validate_steps_iff transaction_steps_def
      REPLICATION_ENTRY_VERSION_def REPLICATION_ENTRY_STEPS_VERSION_def)

lemma u64_bound: "unat (w :: u64) < 2 ^ 64"
  by (rule order.strict_trans2 [OF unsigned_less]) simp

lemma next_value_iff: "next_value v name = Inr w \<longleftrightarrow> unat w = unat v + 1"
proof
  assume "next_value v name = Inr w"
  then show "unat w = unat v + 1"
    by (auto simp: next_value_def ok_or_Inr_iff dest: checked_add_u64_Some)
next
  assume w: "unat w = unat v + 1"
  then have "unat v + 1 < 2 ^ 64" using u64_bound [of w] by simp
  moreover have "w = v + 1" using w calculation by (simp add: word_unat_eq_iff unat_word_ariths)
  ultimately show "next_value v name = Inr w" by (simp add: next_value_def checked_add_u64_def)
qed

definition entries_from :: "u64 \<Rightarrow> u64 \<Rightarrow> u64 \<Rightarrow> replication_entry list \<Rightarrow> bool" where
  "entries_from trm i x es \<longleftrightarrow>
     (\<forall>k < length es. entry_ok (es ! k) \<and> re_term (es ! k) = trm \<and>
        unat (re_index (es ! k)) = unat i + k + 1 \<and> unat (re_transaction_id (es ! k)) = unat x + k + 1)"

lemma entries_from_Nil [simp]: "entries_from trm i x []"
  by (simp add: entries_from_def)

lemma entries_from_Cons:
  "entries_from trm i x (e # es) \<longleftrightarrow>
     entry_ok e \<and> re_term e = trm \<and> unat (re_index e) = unat i + 1 \<and> unat (re_transaction_id e) = unat x + 1 \<and>
     entries_from trm (re_index e) (re_transaction_id e) es"
  by (auto simp: entries_from_def All_less_Suc2)

lemma validate_entries_iff: "validate_entries trm i x es = Inr () \<longleftrightarrow> entries_from trm i x es"
proof (induction es arbitrary: i x)
  case (Cons e es)
  then show ?case
    by (auto simp: bindr_Inr_iff ensure_Inr_iff entry_validate_iff entries_from_Cons next_value_iff)
qed simp

definition log_valid :: "replication_log \<Rightarrow> bool" where
  "log_valid l \<longleftrightarrow>
     rl_format_version l = REPLICATION_LOG_VERSION \<and> rl_term l \<noteq> 0 \<and>
     entries_from (rl_term l) (rl_base_index l) (rl_base_transaction_id l) (rl_entries l)"

lemma log_validate_iff: "log_validate l = Inr () \<longleftrightarrow> log_valid l"
  by (simp add: log_validate_def log_valid_def bindr_Inr_iff ensure_Inr_iff validate_entries_iff)

lemma entries_from_bound:
  assumes "entries_from trm i x es"
  shows "unat i + length es < 2 ^ 64" "unat x + length es < 2 ^ 64"
proof -
  have "unat i + length es < 2 ^ 64 \<and> unat x + length es < 2 ^ 64"
  proof (cases es)
    case Nil
    then show ?thesis using u64_bound [of i] u64_bound [of x] by simp
  next
    case (Cons e es')
    then have "unat (re_index (es ! length es')) = unat i + length es" "unat (re_transaction_id (es ! length es')) = unat x + length es"
      using assms by (auto simp: entries_from_def)
    then show ?thesis using u64_bound [of "re_index (es ! length es')"] u64_bound [of "re_transaction_id (es ! length es')"] by simp
  qed
  then show "unat i + length es < 2 ^ 64" "unat x + length es < 2 ^ 64" by auto
qed

lemma unat_add_of_nat: "unat v + n < 2 ^ 64 \<Longrightarrow> unat (v + word_of_nat n :: u64) = unat v + n"
  by (simp add: unat_word_ariths unat_of_nat)

lemma last_unat:
  assumes "log_valid l"
  shows "unat (last_index l) = unat (rl_base_index l) + length (rl_entries l)"
    "unat (last_transaction_id l) = unat (rl_base_transaction_id l) + length (rl_entries l)"
proof -
  have "entries_from (rl_term l) (rl_base_index l) (rl_base_transaction_id l) (rl_entries l)"
    using assms by (simp add: log_valid_def)
  from entries_from_bound [OF this] show "unat (last_index l) = unat (rl_base_index l) + length (rl_entries l)"
    "unat (last_transaction_id l) = unat (rl_base_transaction_id l) + length (rl_entries l)"
    unfolding last_index_def last_transaction_id_def by (simp_all only: unat_add_of_nat)
qed

lemma entries_from_snoc:
  "entries_from trm i x (es @ [e]) \<longleftrightarrow> entries_from trm i x es \<and> entry_ok e \<and> re_term e = trm \<and>
     unat (re_index e) = unat i + length es + 1 \<and> unat (re_transaction_id e) = unat x + length es + 1"
  by (auto simp: entries_from_def nth_append All_less_Suc less_Suc_eq)

lemma entries_from_drop:
  assumes "entries_from trm i x es" "n \<le> length es" "unat i' = unat i + n" "unat x' = unat x + n"
  shows "entries_from trm i' x' (drop n es)"
  using assms by (auto simp: entries_from_def)

lemma entries_from_take: "entries_from trm i x es \<Longrightarrow> entries_from trm i x (take n es)"
  by (simp add: entries_from_def)

section \<open>The invariant of a log\<close>

definition follower_ok :: "replication_log \<Rightarrow> replication_progress \<Rightarrow> bool" where
  "follower_ok l p \<longleftrightarrow>
     rl_base_index l \<le> rp_index p \<and> rp_index p \<le> last_index l \<and>
     unat (rp_transaction_id p) = unat (rl_base_transaction_id l) + (unat (rp_index p) - unat (rl_base_index l))"

definition log_inv :: "replication_log \<Rightarrow> bool" where
  "log_inv l \<longleftrightarrow> log_valid l \<and> (\<forall>p \<in> snd ` set (rl_watermarks l). follower_ok l p)"

lemma with_position_inv: "with_position t i x = Inr l \<Longrightarrow> log_inv l"
  by (auto simp: with_position_def bindr_Inr_iff ensure_Inr_iff log_inv_def log_valid_def)

lemma add_entry_inv:
  assumes "log_inv l" "entry_ok e" "re_term e = rl_term l"
    and "unat (re_index e) = unat (last_index l) + 1" "unat (re_transaction_id e) = unat (last_transaction_id l) + 1"
  shows "log_inv (l\<lparr>rl_entries := rl_entries l @ [e]\<rparr>)"
proof -
  let ?l = "l\<lparr>rl_entries := rl_entries l @ [e]\<rparr>"
  have v: "log_valid l" using assms(1) by (simp add: log_inv_def)
  then have v': "log_valid ?l"
    using assms last_unat [OF v] by (simp add: log_valid_def entries_from_snoc)
  have "last_index l \<le> last_index ?l"
    using last_unat [OF v] last_unat [OF v'] by (simp add: word_le_nat_alt)
  then show ?thesis using assms(1) v' by (fastforce simp: log_inv_def follower_ok_def)
qed

lemma progress_position_ok:
  assumes "progress_position l p = Inr ()"
  shows "follower_ok l p"
proof -
  have le: "rl_base_index l \<le> rp_index p" "rp_index p \<le> last_index l"
    and add: "checked_add_u64 (rl_base_transaction_id l) (rp_index p - rl_base_index l) = Some (rp_transaction_id p)"
    using assms by (auto simp: progress_position_def bindr_Inr_iff ensure_Inr_iff ok_or_Inr_iff)
  have "unat (rp_index p - rl_base_index l) = unat (rp_index p) - unat (rl_base_index l)"
    using le(1) by (rule unat_sub)
  with le checked_add_u64_Some [OF add] show ?thesis by (simp add: follower_ok_def)
qed

lemma record_progress_ok:
  assumes "record_progress w p = Inr (w', r)" "follower_ok l p" "\<forall>p \<in> snd ` set w. follower_ok l p"
  shows "\<forall>p \<in> snd ` set w'. follower_ok l p"
  using assms set_obj_insert [of "rp_follower_id p" p w]
  by (fastforce simp: record_progress_def bindr_Inr_iff split: option.splits if_splits)

lemma liftp_Inr: "liftp r s = (s', Inr x) \<longleftrightarrow> s' = s \<and> r = Inr x"
  by (auto simp: liftp_def)

lemma retp_Inr: "retp x s = (s', Inr y) \<longleftrightarrow> s' = s \<and> y = x"
  by (auto simp: retp_def)

lemmas prog_simps = bindp_Inr liftp_Inr retp_Inr map_errp_iff

lemma bindp_pairE:
  assumes "bindp p (\<lambda>(a, b). f a b) s = (s', Inr y)"
  obtains t a b where "p s = (t, Inr (a, b))" "f a b t = (s', Inr y)"
  using assms by (auto simp: bindp_def split: prod.splits sum.splits)

lemma acknowledge_ok:
  fixes ops :: "('c, 'ce, 'te) catalog_ops"
  assumes "acknowledge ops w l p c = (c', Inr (w', r))" "\<forall>p \<in> snd ` set w. follower_ok l p"
  shows "\<forall>p \<in> snd ` set w'. follower_ok l p"
proof -
  obtain u where "(progress_position l p :: (('ce, 'te) replication_error, unit) result) = Inr u"
    "(record_progress w p :: (('ce, 'te) replication_error, _) result) = Inr (w', r)"
    using assms(1) unfolding acknowledge_def prog_simps by blast
  then show ?thesis using record_progress_ok assms(2) progress_position_ok by (metis (full_types) old.unit.exhaust)
qed

lemma acknowledge_all_ok:
  "acknowledge_all ops l w acc c = (c', Inr w') \<Longrightarrow> \<forall>p \<in> snd ` set acc. follower_ok l p \<Longrightarrow> \<forall>p \<in> snd ` set w'. follower_ok l p"
proof (induction w arbitrary: acc c)
  case (Cons kp w)
  obtain k p where kp: "kp = (k, p)" by fastforce
  from Cons(2) obtain c1 v o1 where a: "acknowledge ops acc l p c = (c1, Inr (v, o1))" "acknowledge_all ops l w v c1 = (c', Inr w')"
    unfolding kp acknowledge_all.simps by (rule bindp_pairE)
  show ?case by (rule Cons(1) [OF a(2) acknowledge_ok [OF a(1) Cons(3)]])
qed (simp add: prog_simps)

lemma follower_ok_watermarks [simp]: "follower_ok (l\<lparr>rl_watermarks := w\<rparr>) p = follower_ok l p"
  by (simp add: follower_ok_def last_index_def)

lemma log_valid_watermarks [simp]: "log_valid (l\<lparr>rl_watermarks := w\<rparr>) = log_valid l"
  by (simp add: log_valid_def)

lemma acknowledge_follower_inv:
  assumes "acknowledge_follower sd ops l p c = (c', Inr (l', r))" "log_inv l"
  shows "log_inv l'"
proof -
  obtain w c1 o1 where "acknowledge ops (rl_watermarks l) l p c = (c1, Inr (w, o1))" "l' = l\<lparr>rl_watermarks := w\<rparr>"
    using assms(1) unfolding acknowledge_follower_def by (elim bindp_pairE) (auto simp: prog_simps)
  with acknowledge_ok [OF this(1)] assms(2) show ?thesis by (simp add: log_inv_def)
qed

section \<open>Every operation keeps the invariant\<close>

lemma apply_new_result:
  assumes "apply_new_with_preconditions sd ops l e pre c = (c', Inr (l', r))"
  shows "l' = l\<lparr>rl_entries := rl_entries l @ [e]\<rparr> \<and> unat (re_index e) = unat (last_index l) + 1 \<and>
    unat (re_transaction_id e) = unat (last_transaction_id l) + 1"
  using assms unfolding apply_new_with_preconditions_def Let_def prog_simps ensure_Inr_iff next_value_iff by blast

lemma entry_new_ok: "entry_new t i x s os = Inr e \<Longrightarrow> entry_ok e \<and> re_term e = t"
  by (auto simp: entry_new_def Let_def bindr_Inr_iff entry_validate_iff)

lemma entry_new_with_steps_ok: "entry_new_with_steps t i x s ss = Inr e \<Longrightarrow> entry_ok e \<and> re_term e = t"
  by (auto simp: entry_new_with_steps_def Let_def bindr_Inr_iff entry_validate_iff dest: entry_new_ok split: if_splits)

lemma propose_entry_inv:
  assumes "propose_entry sd ops l build pre c = (c', Inr (l', e))" "log_inv l"
    and "\<And>t i x s e. build t i x s = Inr e \<Longrightarrow> entry_ok e \<and> re_term e = t"
  shows "log_inv l'"
proof -
  obtain c1 c2 i x s r where b: "build (rl_term l) i x s = Inr e"
    and a: "apply_new_with_preconditions sd ops l e (Some pre) c1 = (c2, Inr (l', r))"
    using assms(1) unfolding propose_entry_def prog_simps by (auto simp: prog_simps elim!: bindp_pairE)
  show ?thesis using apply_new_result [OF a] assms(3) [OF b] add_entry_inv [OF assms(2)] by blast
qed

lemma receive_result:
  assumes "receive sd ops l e c = (c', Inr (l', r))"
  shows "l' = l \<or> (l' = l\<lparr>rl_entries := rl_entries l @ [e]\<rparr> \<and> entry_ok e \<and> re_term e = rl_term l \<and>
    unat (re_index e) = unat (last_index l) + 1 \<and> unat (re_transaction_id e) = unat (last_transaction_id l) + 1)"
proof (cases "unat (re_index e - rl_base_index l - 1) < length (rl_entries l)")
  case True
  then show ?thesis using assms
    unfolding receive_def Let_def prog_simps if_P [OF True]
    by (auto simp: prog_simps split: if_splits)
next
  case False
  then obtain c1 c2 where e: "entry_ok e \<and> re_term e = rl_term l" and a: "apply_new sd ops l e c1 = (c2, Inr (l', r))"
    using assms unfolding receive_def Let_def prog_simps if_not_P [OF False] ensure_Inr_iff by (auto simp: entry_validate_iff prog_simps ensure_Inr_iff)
  show ?thesis using e apply_new_result [OF a [unfolded apply_new_def]] by blast
qed

lemma receive_inv: "receive sd ops l e c = (c', Inr (l', r)) \<Longrightarrow> log_inv l \<Longrightarrow> log_inv l'"
  using receive_result [of sd ops l e c c' l' r] add_entry_inv [of l e] by blast

lemma install_snapshot_result:
  fixes ops :: "('c, 'ce, 'te) catalog_ops"
  assumes "install_snapshot sd ops l s c = (c', Inr (l', r))"
  shows "(with_position (rs_term s) (rs_last_index s) (rs_last_transaction_id s) :: (('ce, 'te) replication_error, _) result) = Inr l'"
  using assms unfolding install_snapshot_def prog_simps install_duplicate_def
  by (auto simp: prog_simps install_duplicate_def split: if_splits)

lemma safe_compaction_le:
  "p \<in> snd ` set w \<Longrightarrow> \<exists>m. safe_compaction_index w = Some m \<and> m \<le> rp_index p"
  unfolding safe_compaction_index_def by (auto intro!: Min_le)

lemma compact_through_result:
  fixes ops :: "('c, 'ce, 'te) catalog_ops"
  assumes "compact_through sd ops l s c = (c', Inr (l', r))"
  shows "\<exists>offset. (compaction_offset l s :: (('ce, 'te) replication_error, _) result) = Inr offset \<and>
    l' = l\<lparr>rl_base_index := rs_last_index s, rl_base_transaction_id := rs_last_transaction_id s,
       rl_entries := drop (unat offset) (rl_entries l)\<rparr>"
  using assms unfolding compact_through_def Let_def prog_simps by blast

lemma compaction_offset_ok:
  assumes "compaction_offset l s = Inr offset"
  shows "rl_base_index l < rs_last_index s" "rs_last_index s \<le> last_index l"
    "unat offset = unat (rs_last_index s) - unat (rl_base_index l)"
    "unat (rs_last_transaction_id s) = unat (rl_base_transaction_id l) + unat offset"
    "p \<in> snd ` set (rl_watermarks l) \<Longrightarrow> rs_last_index s \<le> rp_index p"
proof -
  have c: "rl_base_index l < rs_last_index s" "rs_last_index s \<le> last_index l"
    and o: "offset = rs_last_index s - rl_base_index l"
    and x: "checked_add_u64 (rl_base_transaction_id l) (rs_last_index s - rl_base_index l) = Some (rs_last_transaction_id s)"
    and w: "case safe_compaction_index (rl_watermarks l) of Some m \<Rightarrow> rs_last_index s \<le> m | None \<Rightarrow> True"
    using assms by (auto simp: compaction_offset_def bindr_Inr_iff ensure_Inr_iff ok_or_Inr_iff split: option.splits)
  show "rl_base_index l < rs_last_index s" "rs_last_index s \<le> last_index l" by (fact c)+
  show "unat offset = unat (rs_last_index s) - unat (rl_base_index l)"
    unfolding o by (rule unat_sub) (use c(1) in simp)
  show "unat (rs_last_transaction_id s) = unat (rl_base_transaction_id l) + unat offset"
    using checked_add_u64_Some [OF x] o by simp
  show "p \<in> snd ` set (rl_watermarks l) \<Longrightarrow> rs_last_index s \<le> rp_index p"
    using safe_compaction_le [of p "rl_watermarks l"] w by (auto intro: order.trans)
qed

lemma compact_through_inv:
  fixes ops :: "('c, 'ce, 'te) catalog_ops"
  assumes "compact_through sd ops l s c = (c', Inr (l', r))" "log_inv l"
  shows "log_inv l'"
proof -
  obtain offset where o: "(compaction_offset l s :: (('ce, 'te) replication_error, _) result) = Inr offset"
    and l': "l' = l\<lparr>rl_base_index := rs_last_index s, rl_base_transaction_id := rs_last_transaction_id s,
       rl_entries := drop (unat offset) (rl_entries l)\<rparr>"
    using compact_through_result [OF assms(1)] by blast
  note ok = compaction_offset_ok [OF o]
  have v: "log_valid l" and f: "\<And>p. p \<in> snd ` set (rl_watermarks l) \<Longrightarrow> follower_ok l p"
    using assms(2) by (auto simp: log_inv_def)
  have lt: "unat (rl_base_index l) < unat (rs_last_index s)" "unat (rs_last_index s) \<le> unat (last_index l)"
    using ok(1,2) by (simp_all add: word_less_nat_alt word_le_nat_alt)
  have n: "unat offset \<le> length (rl_entries l)" using lt ok(3) last_unat(1) [OF v] by linarith
  have "entries_from (rl_term l) (rs_last_index s) (rs_last_transaction_id s) (drop (unat offset) (rl_entries l))"
    using v n lt ok(3,4) by (intro entries_from_drop [of _ "rl_base_index l" "rl_base_transaction_id l"]) (auto simp: log_valid_def)
  then have v': "log_valid l'" using v by (simp add: log_valid_def l')
  have last: "last_index l' = last_index l"
    unfolding word_unat_eq_iff using last_unat(1) [OF v] last_unat(1) [OF v'] n lt ok(3) by (simp add: l')
  have "follower_ok l' p" if p: "p \<in> snd ` set (rl_watermarks l)" for p
  proof -
    have "unat (rs_last_index s) \<le> unat (rp_index p)" using ok(5) [OF p] by (simp add: word_le_nat_alt)
    with f [OF p] lt ok last show ?thesis by (simp add: follower_ok_def l' word_le_nat_alt)
  qed
  with v' show ?thesis by (simp add: log_inv_def l')
qed

lemma log_from_json_valid: "log_from_json sd bs = Inr l \<Longrightarrow> log_valid l"
  by (auto simp: log_from_json_def Let_def bindr_Inr_iff log_validate_iff)

lemma log_from_sidecar_valid:
  assumes "log_from_sidecar_bytes sd bs = Inr l"
  shows "log_valid l"
proof (cases "strip_prefix REPLICATION_SIDECAR_MAGIC bs")
  case (Some body)
  then show ?thesis using assms
    by (cases body) (auto simp: log_from_sidecar_bytes_def bindr_Inr_iff dest: log_from_json_valid)
qed (use assms in \<open>simp add: log_from_sidecar_bytes_def\<close>)

lemma with_position_valid: "with_position t i x = Inr l \<Longrightarrow> log_valid l"
  using with_position_inv by (auto simp: log_inv_def)

lemma validate_against_ok:
  assumes "validate_against ops l w c = (c', Inr u)"
  shows "\<forall>p \<in> snd ` set w. follower_ok l p"
  using assms unfolding validate_against_def prog_simps ensure_Inr_iff by (auto dest!: acknowledge_all_ok)

lemma log_bootstrap_valid:
  assumes "log_bootstrap sd ops t bs c = (c', Inr l)"
  shows "log_valid l"
proof (cases bs)
  case None
  then show ?thesis using assms by (auto simp: log_bootstrap_def prog_simps log_new_def dest: with_position_valid split: if_splits)
next
  case (Some b)
  then show ?thesis using assms by (auto simp: log_bootstrap_def prog_simps dest: log_from_sidecar_valid)
qed

lemma log_open_inv:
  assumes "log_open sd ops t c = (c', Inr l)"
  shows "log_inv l"
proof -
  obtain l0 w u c1 c2 c3 c4 bs where l: "l = l0\<lparr>rl_watermarks := w\<rparr>" and a: "validate_against ops l w c1 = (c2, Inr u)"
    and v: "log_bootstrap sd ops t bs c3 = (c4, Inr l0)"
    using assms unfolding log_open_def Let_def prog_simps by blast
  from validate_against_ok [OF a] log_bootstrap_valid [OF v] show ?thesis by (simp add: log_inv_def l)
qed

section \<open>Entry pages of a valid log\<close>

lemma entry_ok_validate [simp]: "entry_ok e \<Longrightarrow> entry_validate e = Inr ()"
  by (simp add: entry_validate_iff)

lemma log_valid_validate [simp]: "log_valid l \<Longrightarrow> log_validate l = Inr ()"
  by (simp add: log_validate_iff)

lemma checked_add_ex: "unat a + unat b < 2 ^ 64 \<Longrightarrow> \<exists>c. checked_add_u64 a b = Some c \<and> unat c = unat a + unat b"
  using checked_add_u64_Some [of a b "a + b"] by (simp add: checked_add_u64_def)

lemma checked_succ: "unat j = unat i + 1 \<Longrightarrow> checked_add_u64 i 1 = Some j"
  using next_value_iff [of i "[]" j] by (simp add: next_value_def ok_or_Inr_iff)

lemma batch_entries_valid:
  assumes "entries_from (rb_term b) i x es"
    and "unat i + length es \<le> unat (rb_last_index b)" "unat x + length es \<le> unat (rb_last_transaction_id b)"
  shows "batch_validate_entries b es (checked_add_u64 i 1) (checked_add_u64 x 1) = (Inr () :: (('ce, 'te) replication_error, unit) result)"
  using assms
proof (induction es arbitrary: i x)
  case (Cons e es)
  have e: "entry_ok e" "re_term e = rb_term b" "unat (re_index e) = unat i + 1" "unat (re_transaction_id e) = unat x + 1"
    and es: "entries_from (rb_term b) (re_index e) (re_transaction_id e) es"
    using Cons(2) by (auto simp: entries_from_Cons)
  have le: "re_index e \<le> rb_last_index b" "re_transaction_id e \<le> rb_last_transaction_id b"
    using e Cons(3,4) by (simp_all add: word_le_nat_alt)
  have "batch_validate_entries b es (checked_add_u64 (re_index e) 1) (checked_add_u64 (re_transaction_id e) 1) =
      (Inr () :: (('ce, 'te) replication_error, unit) result)"
    by (rule Cons(1) [OF es]) (use e Cons(3,4) in simp_all)
  then show ?case
    using e le by (simp add: checked_succ [OF e(3)] checked_succ [OF e(4)] ensure_def)
qed simp

text \<open>The entries after an index: \<open>offset\<close> positions from the base.\<close>

definition entries_after :: "replication_log \<Rightarrow> u64 \<Rightarrow> replication_entry list" where
  "entries_after l after_index = drop (unat after_index - unat (rl_base_index l)) (rl_entries l)"

lemma page_sel [simp]:
  "rb_transport_version (page l a es) = REPLICATION_TRANSPORT_VERSION" "rb_term (page l a es) = rl_term l"
  "rb_base_index (page l a es) = rl_base_index l" "rb_base_transaction_id (page l a es) = rl_base_transaction_id l"
  "rb_after_index (page l a es) = a" "rb_last_index (page l a es) = last_index l"
  "rb_last_transaction_id (page l a es) = last_transaction_id l" "rb_entries (page l a es) = es"
  "rb_next_after (page l a es) = continuation es (last_index l)"
  by (simp_all add: page_def batch_new_def)

lemma ensure_True [simp]: "b \<Longrightarrow> ensure b e = Inr ()"
  by (simp add: ensure_def)

lemma page_valid:
  assumes v: "log_valid l" and le: "rl_base_index l \<le> after_index" "after_index \<le> last_index l"
    and k: "es = take k (entries_after l after_index)" "length es \<le> MAX_REPLICATION_ENTRY_BATCH"
    and ne: "es = [] \<Longrightarrow> after_index = last_index l"
  shows "batch_validate (page l after_index es) = Inr ()"
proof -
  let ?n = "unat after_index - unat (rl_base_index l)"
  have le': "unat (rl_base_index l) \<le> unat after_index" "unat after_index \<le> unat (last_index l)"
    using le by (simp_all add: word_le_nat_alt)
  note last = last_unat [OF v]
  have fr: "entries_from (rl_term l) (rl_base_index l) (rl_base_transaction_id l) (rl_entries l)" "rl_term l \<noteq> 0"
    using v by (simp_all add: log_valid_def)
  have n: "?n \<le> length (rl_entries l)" using le' last(1) by linarith
  have len: "length es \<le> length (rl_entries l) - ?n" by (simp add: k(1) entries_after_def)
  have sub: "unat (last_index l - rl_base_index l) = length (rl_entries l)" "unat (after_index - rl_base_index l) = ?n"
    using le last(1) by (simp_all add: unat_sub)
  have bound: "unat (rl_base_transaction_id l) + length (rl_entries l) < 2 ^ 64" by (rule entries_from_bound [OF fr(1)])
  obtain x where x: "checked_add_u64 (rl_base_transaction_id l) (after_index - rl_base_index l) = Some x"
    and ux: "unat x = unat (rl_base_transaction_id l) + ?n"
    using checked_add_ex [of "rl_base_transaction_id l" "after_index - rl_base_index l"] bound n unfolding sub(2)
    by (meson add_left_mono order.strict_trans1)
  have lx: "checked_add_u64 (rl_base_transaction_id l) (last_index l - rl_base_index l) = Some (last_transaction_id l)"
    using checked_add_ex [of "rl_base_transaction_id l" "last_index l - rl_base_index l"] bound last(2)
    unfolding sub(1) word_unat_eq_iff by (metis word_unat_eq_iff)
  have "entries_from (rl_term l) after_index x es"
    unfolding k(1) entries_after_def
    by (intro entries_from_take entries_from_drop [OF fr(1) n]) (use le' ux in simp_all)
  then have A: "batch_validate_entries (page l after_index es) es (checked_add_u64 after_index 1) (checked_add_u64 x 1) = Inr ()"
    by (intro batch_entries_valid) (use len n last ux le' in simp_all)
  have B: "\<not> (rl_term l = 0 \<or> rl_base_index l > after_index \<or> last_index l < after_index \<or>
      rl_base_transaction_id l > last_transaction_id l)"
    using last(2) le fr(2) by (simp add: word_le_nat_alt not_less)
  have C: "\<not> (es = [] \<and> after_index < last_index l)" using ne by auto
  show ?thesis
    unfolding batch_validate_def page_sel ensure_True [OF B] ensure_True [OF C] ensure_True [OF k(2)] ensure_True [OF refl]
      x lx bind.bind_lunit ok_or_simps bindr_simps A by (rule refl)
qed

text \<open>
  The serializer writes every page cut from the log, and a page of one entry of the log fits a
  response.  An entry that does not fit makes \<open>entry_batch\<close> fail for every page that starts with
  it.
\<close>

definition pages_fit :: "replication_serde \<Rightarrow> replication_log \<Rightarrow> bool" where
  "pages_fit sd l \<longleftrightarrow>
     (\<forall>a es rest. rl_base_index l \<le> a \<and> a \<le> last_index l \<and> entries_after l a = es @ rest \<longrightarrow>
        (\<exists>bs. batch_to_vec sd (page l a es) = Inr bs \<and>
          (length es = 1 \<longrightarrow> length bs \<le> MAX_REPLICATION_ENTRY_BATCH_BYTES)))"

lemma collect_page_prefix:
  assumes v: "log_valid l" and le: "rl_base_index l \<le> a" "a \<le> last_index l" and fit: "pages_fit sd l"
    and "entries_after l a = es @ available @ rest" "length es + length available \<le> MAX_REPLICATION_ENTRY_BATCH"
  shows "\<exists>k \<le> length available.
    collect_page sd l a available es = (Inr (es @ take k available) :: (('ce, 'te) replication_error, _) result) \<and>
    (es = [] \<longrightarrow> available \<noteq> [] \<longrightarrow> 0 < k)"
  using assms(5,6)
proof (induction available arbitrary: es)
  case (Cons e available)
  let ?p = "page l a (es @ [e])"
  have valid: "batch_validate ?p = Inr ()"
    by (rule page_valid [OF v le, of _ "Suc (length es)"]) (use Cons(2,3) in simp_all)
  obtain bs where bs: "batch_to_vec sd ?p = Inr bs" "es = [] \<longrightarrow> length bs \<le> MAX_REPLICATION_ENTRY_BATCH_BYTES"
    using fit [unfolded pages_fit_def, rule_format, of a "es @ [e]" "available @ rest"] le Cons(2) by auto
  show ?case
  proof (cases "MAX_REPLICATION_ENTRY_BATCH_BYTES < length bs")
    case True
    then have "es \<noteq> []" using bs(2) by auto
    with True show ?thesis using bs(1) by (intro exI [of _ 0]) (simp add: Let_def valid)
  next
    case False
    obtain k where "k \<le> length available"
      "collect_page sd l a available (es @ [e]) = (Inr ((es @ [e]) @ take k available) :: (('ce, 'te) replication_error, _) result)"
      using Cons(1) [of "es @ [e]"] Cons(2,3) by auto
    with False bs(1) show ?thesis by (intro exI [of _ "Suc k"]) (simp add: Let_def valid)
  qed
qed simp

lemma entry_batch_page:
  assumes v: "log_valid l" and le: "rl_base_index l \<le> a" "a \<le> last_index l" and fit: "pages_fit sd l"
    and limit: "1 \<le> limit" "limit \<le> MAX_REPLICATION_ENTRY_BATCH"
  shows "\<exists>k \<le> limit.
    entry_batch sd l a limit = (Inr (page l a (take k (entries_after l a))) :: (('ce, 'te) replication_error, _) result) \<and>
    (entries_after l a \<noteq> [] \<longrightarrow> 0 < k)"
proof -
  let ?es = "entries_after l a"
  have off: "unat (a - rl_base_index l) = unat a - unat (rl_base_index l)" using le(1) by (rule unat_sub)
  have d: "?es = [] @ take limit ?es @ drop limit ?es" and m: "length [] + length (take limit ?es) \<le> MAX_REPLICATION_ENTRY_BATCH"
    using limit(2) by (simp_all add: min_le_iff_disj)
  obtain k where k: "k \<le> length (take limit ?es)"
    "collect_page sd l a (take limit ?es) [] = (Inr (take k (take limit ?es)) :: (('ce, 'te) replication_error, _) result)"
    "take limit ?es \<noteq> [] \<longrightarrow> 0 < k"
    using collect_page_prefix [OF v le fit d m] unfolding append_Nil by blast
  have t: "take k (take limit ?es) = take k ?es" using k(1) by (simp add: min_absorb1)
  have "a = last_index l" if "take k ?es = []"
  proof -
    have "?es = []" using that k(3) limit(1) by (cases ?es) auto
    then have "unat (last_index l) \<le> unat a" using last_unat(1) [OF v] le by (simp add: entries_after_def word_le_nat_alt)
    then show ?thesis using le(2) by (simp add: word_le_nat_alt word_unat_eq_iff)
  qed
  then have bv: "batch_validate (page l a (take k ?es)) = Inr ()"
    by (intro page_valid [OF v le, of _ k]) (use k(1) limit(2) in simp_all)
  have "collect_page sd l a (take limit (drop (unat (a - rl_base_index l)) (rl_entries l))) [] =
      (Inr (take k ?es) :: (('ce, 'te) replication_error, _) result)"
    using k(2) t off by (simp add: entries_after_def)
  then have "entry_batch sd l a limit = (Inr (page l a (take k ?es)) :: (('ce, 'te) replication_error, _) result)"
    using limit le v by (simp add: bv entry_batch_def Let_def ensure_def not_less)
  moreover have "k \<le> limit" "?es \<noteq> [] \<longrightarrow> 0 < k" using k(1,3) limit(1) by auto
  ultimately show ?thesis by blast
qed

text \<open>Reading a log page by page: each page names where the next one starts.\<close>

partial_function (option) read_pages ::
  "replication_serde \<Rightarrow> replication_log \<Rightarrow> nat \<Rightarrow> u64 \<Rightarrow> (('ce, 'te) replication_error, replication_entry list) result option" where
  "read_pages sd l limit a =
     (case entry_batch sd l a limit of
        Inl e \<Rightarrow> Some (Inl e)
      | Inr b \<Rightarrow>
          (case rb_next_after b of
             None \<Rightarrow> Some (Inr (rb_entries b))
           | Some n \<Rightarrow> Option.bind (read_pages sd l limit n) (\<lambda>r. Some (bindr r (\<lambda>es. Inr (rb_entries b @ es))))))"

lemma entries_after_length:
  assumes "log_valid l" "rl_base_index l \<le> a" "a \<le> last_index l"
  shows "length (entries_after l a) = unat (last_index l) - unat a"
  using last_unat(1) [OF assms(1)] assms(2,3) by (simp add: entries_after_def word_le_nat_alt)

lemma entries_after_index:
  assumes "log_valid l" "rl_base_index l \<le> a" "j < length (entries_after l a)"
  shows "unat (re_index (entries_after l a ! j)) = unat a + j + 1"
proof -
  let ?n = "unat a - unat (rl_base_index l)"
  have "unat (re_index (rl_entries l ! (?n + j))) = unat (rl_base_index l) + (?n + j) + 1"
    using assms unfolding log_valid_def entries_from_def entries_after_def by simp
  then show ?thesis using assms(2,3) by (simp add: entries_after_def word_le_nat_alt)
qed

lemma page_continuation:
  assumes v: "log_valid l" and le: "rl_base_index l \<le> a" "a \<le> last_index l"
    and k: "entries_after l a \<noteq> [] \<longrightarrow> 0 < k"
  shows "(continuation (take k (entries_after l a)) (last_index l) = None \<and> length (entries_after l a) \<le> k) \<or>
    (\<exists>n. continuation (take k (entries_after l a)) (last_index l) = Some n \<and> unat n = unat a + k \<and> k < length (entries_after l a) \<and>
       0 < k)"
proof (cases "entries_after l a = []")
  case False
  let ?es = "entries_after l a" and ?m = "min k (length (entries_after l a))"
  have m: "0 < ?m" using False k by simp
  have ne: "take k ?es \<noteq> []" and pos: "0 < k" using False k by simp_all
  have "?m - 1 < k" and lt: "?m - 1 < length ?es" using pos m by linarith+
  then have "last (take k ?es) = ?es ! (?m - 1)" using last_conv_nth [OF ne] by (simp add: min.commute)
  then have i: "unat (re_index (last (take k ?es))) = unat a + ?m"
    using entries_after_index [OF v le(1) lt] m by simp
  show ?thesis
    using i m entries_after_length [OF v le] False
    by (auto simp: continuation_def word_less_nat_alt min_def split: if_splits)
qed (simp add: continuation_def)

lemma read_pages_all:
  assumes v: "log_valid l" and fit: "pages_fit sd l" and limit: "1 \<le> limit" "limit \<le> MAX_REPLICATION_ENTRY_BATCH"
    and le: "rl_base_index l \<le> a" "a \<le> last_index l"
  shows "read_pages sd l limit a = Some (Inr (entries_after l a) :: (('ce, 'te) replication_error, _) result)"
  using le
proof (induction "length (entries_after l a)" arbitrary: a rule: less_induct)
  case less
  let ?es = "entries_after l a"
  obtain k where k: "entry_batch sd l a limit = (Inr (page l a (take k ?es)) :: (('ce, 'te) replication_error, _) result)"
    "?es \<noteq> [] \<longrightarrow> 0 < k"
    using entry_batch_page [OF v less(2,3) fit limit] by blast
  from page_continuation [OF v less(2,3) k(2)] show ?case
  proof (elim disjE conjE exE)
    assume "continuation (take k ?es) (last_index l) = None" "length ?es \<le> k"
    then show ?thesis by (subst read_pages.simps) (simp add: k(1))
  next
    fix n assume n: "continuation (take k ?es) (last_index l) = Some n" "unat n = unat a + k" "k < length ?es" "0 < k"
    have len: "length ?es = unat (last_index l) - unat a" by (rule entries_after_length [OF v less(2,3)])
    have le': "rl_base_index l \<le> n" "n \<le> last_index l"
      using n(2,3) less(2,3) len by (simp_all add: word_le_nat_alt)
    have es: "entries_after l n = drop k ?es"
      using n(2) less(2) by (simp add: entries_after_def word_le_nat_alt add.commute)
    have "read_pages sd l limit n = Some (Inr (entries_after l n) :: (('ce, 'te) replication_error, _) result)"
      by (rule less(1) [OF _ le']) (use es n(3,4) in simp)
    then show ?thesis by (subst read_pages.simps) (simp add: k(1) n(1) es)
  qed
qed

section \<open>Reachable nodes\<close>

datatype log_command =
    Propose "operation_ir list" "string option" "string option"
  | Propose_steps "transaction_step list" "string option" "string option"
  | Propose_table string "operation_ir list" "string option" "string option"
  | Receive replication_entry
  | Receive_batch replication_entry_batch
  | Acknowledge replication_progress
  | Compact replication_snapshot
  | Compact_acknowledged replication_snapshot
  | Install replication_snapshot

definition forget :: "('c, 'e, replication_log \<times> 'a) prog \<Rightarrow> ('c, 'e, replication_log \<times> unit) prog" where
  "forget p = bindp p (\<lambda>(l, _). retp (l, ()))"

fun run_command ::
  "replication_serde \<Rightarrow> ('c, 'ce, 'te) catalog_ops \<Rightarrow> log_command \<Rightarrow> ('c node, ('ce, 'te) replication_error, unit) prog" where
  "run_command sd ops (Propose os m n) = on_log (\<lambda>l. forget (propose_with_catalog_preconditions sd ops l os m n))"
| "run_command sd ops (Propose_steps ss m n) = on_log (\<lambda>l. forget (propose_steps_with_catalog_preconditions sd ops l ss m n))"
| "run_command sd ops (Propose_table t os m n) = on_log (\<lambda>l. forget (propose_with_table_preconditions sd ops l t os m n))"
| "run_command sd ops (Receive e) = on_log (\<lambda>l. forget (receive sd ops l e))"
| "run_command sd ops (Receive_batch b) = bindp (receive_batch sd ops b) (\<lambda>_. retp ())"
| "run_command sd ops (Acknowledge p) = on_log (\<lambda>l. forget (acknowledge_follower sd ops l p))"
| "run_command sd ops (Compact s) = on_log (\<lambda>l. compact_through sd ops l s)"
| "run_command sd ops (Compact_acknowledged s) = on_log (\<lambda>l. compact_through_acknowledged sd ops l s)"
| "run_command sd ops (Install s) = on_log (\<lambda>l. forget (install_snapshot sd ops l s))"

text \<open>
  A node starts by opening its log and runs commands that succeed or fail; in between, the
  catalog may change in any way.
\<close>

inductive reachable :: "replication_serde \<Rightarrow> ('c, 'ce, 'te) catalog_ops \<Rightarrow> 'c node \<Rightarrow> bool"
  for sd :: replication_serde and ops :: "('c, 'ce, 'te) catalog_ops" where
  opened: "log_open sd ops t c = (c', Inr l) \<Longrightarrow> reachable sd ops \<lparr>nd_log = l, nd_catalog = c'\<rparr>"
| ran: "reachable sd ops s \<Longrightarrow> run_command sd ops cmd s = (s', r) \<Longrightarrow> reachable sd ops s'"
| changed: "reachable sd ops s \<Longrightarrow> reachable sd ops (s\<lparr>nd_catalog := c\<rparr>)"

abbreviation node_inv :: "'c node \<Rightarrow> bool" where
  "node_inv s \<equiv> log_inv (nd_log s)"

lemma on_log_keeps:
  assumes "\<And>l c c' l' x. f l c = (c', Inr (l', x)) \<Longrightarrow> log_inv l \<Longrightarrow> log_inv l'"
  shows "triple node_inv (on_log f) (\<lambda>_. node_inv) node_inv"
  by (rule tripleI) (auto simp: on_log_def split: prod.splits sum.splits dest: assms)

lemma forget_Inr: "forget p c = (c', Inr (l', u)) \<longleftrightarrow> (\<exists>x. p c = (c', Inr (l', x)))"
  by (auto simp: forget_def prog_simps bindp_def retp_def split: prod.splits sum.splits)

lemma receive_entries_keeps: "triple node_inv (receive_entries sd ops es) (\<lambda>_. node_inv) node_inv"
  by (induction es)
    (auto intro!: triple_ret triple_bind on_log_keeps elim: receive_inv)

lemma receive_batch_keeps: "triple node_inv (receive_batch sd ops b) (\<lambda>_. node_inv) node_inv"
  unfolding receive_batch_def
  by (intro triple_lift_bind triple_bind [OF triple_pre [OF triple_get]] triple_pre [OF receive_entries_keeps]) auto

lemma run_command_keeps: "triple node_inv (run_command sd ops cmd) (\<lambda>_. node_inv) node_inv"
proof (cases cmd)
  case (Receive_batch b)
  then show ?thesis by (auto intro: triple_bind receive_batch_keeps triple_ret)
next
  case (Compact_acknowledged s)
  have "compact_through_acknowledged sd ops l s c = (c', Inr (l', x)) \<Longrightarrow> log_inv l \<Longrightarrow> log_inv l'" for l c c' l' x
    unfolding compact_through_acknowledged_def prog_simps by (blast intro: compact_through_inv)
  then show ?thesis using Compact_acknowledged by (auto intro: on_log_keeps)
qed (auto simp: propose_with_catalog_preconditions_def propose_steps_with_catalog_preconditions_def
    propose_with_table_preconditions_def
    forget_Inr intro!: on_log_keeps elim!: propose_entry_inv receive_inv acknowledge_follower_inv compact_through_inv
    dest!: entry_new_ok entry_new_with_steps_ok install_snapshot_result with_position_inv)

lemma reachable_inv: "reachable sd ops s \<Longrightarrow> node_inv s"
proof (induction rule: reachable.induct)
  case (ran s cmd s' r)
  then show ?case using tripleD [OF run_command_keeps ran(3)] by (cases r) auto
qed (simp_all add: log_open_inv)

section \<open>Properties of replication\<close>

text \<open>
  C3. Whatever entries, pages, acknowledgements, compactions and snapshots a node processes,
  and however its catalog answers, its log stays valid: terms, indices and transaction ids
  are contiguous from the base. Every registered follower stays at a position inside the
  log, so no compaction drops an entry that a registered follower still needs.
\<close>

theorem replication_log_invariant:
  fixes ops :: "('c, 'ce, 'te) catalog_ops"
  assumes "reachable sd ops s"
  shows "log_validate (nd_log s) = (Inr () :: (('ce, 'te) replication_error, unit) result) \<and>
    (\<forall>p \<in> snd ` set (rl_watermarks (nd_log s)).
       rl_base_index (nd_log s) \<le> rp_index p \<and> rp_index p \<le> last_index (nd_log s))"
  using reachable_inv [OF assms] by (auto simp: log_inv_def follower_ok_def)

definition sample_serde :: replication_serde where
  "sample_serde = \<lparr>entry_to_vec = \<lambda>_. Inr [], entry_from_slice = \<lambda>_. Inl ''EOF'', progress_to_vec = \<lambda>_. Inr [],
     progress_from_slice = \<lambda>_. Inl ''EOF'', watermarks_to_vec = \<lambda>_. Inr [], watermarks_from_slice = \<lambda>_. Inl ''EOF'',
     log_to_vec = \<lambda>l. Inr (replicate (length (rl_entries l)) 0), log_from_slice = \<lambda>_. Inl ''EOF'',
     batch_to_vec = \<lambda>b. Inr (replicate (length (rb_entries b)) 0), batch_from_slice = \<lambda>_. Inl ''EOF'',
     snapshot_to_vec = \<lambda>_. Inr [], snapshot_from_slice = \<lambda>_. Inl ''EOF''\<rparr>"

text \<open>A catalog that counts its commits and keeps one sidecar map.\<close>

definition sample_catalog :: "(u64 \<times> (string \<Rightarrow> bytes option), string, string) catalog_ops" where
  "sample_catalog = \<lparr>ct_transaction_id = \<lambda>c. Inr (Some (fst c)), ct_schema_representation = \<lambda>_. Inr ([], ''schema''),
     ct_read_sidecar_bytes = \<lambda>c name. Inr (snd c name), ct_from_path_at = \<lambda>c _. Inr c,
     ct_export_current_snapshot = \<lambda>c. Inr (fst c, ''schema'', [1]), ct_export_snapshot_at = \<lambda>_ _. Inr [1],
     ct_snapshot_metadata = \<lambda>_. Inr (1, ''schema''),
     ct_replace_sidecar = \<lambda>name _ bs c. ((fst c, (snd c)(name \<mapsto> bs)), Inr ()),
     ct_remove_sidecar = \<lambda>name _ c. ((fst c, (snd c)(name := None)), Inr ()),
     ct_commit_steps = \<lambda>_ name _ bs c. ((fst c + 1, (snd c)(name \<mapsto> bs)), Inr (fst c + 1)),
     ct_commit_steps_with_preconditions = \<lambda>_ _ _ name _ bs c. ((fst c + 1, (snd c)(name \<mapsto> bs)), Inr (fst c + 1)),
     ct_commit_operations_with_table_preconditions = \<lambda>_ _ _ name _ bs c. ((fst c + 1, (snd c)(name \<mapsto> bs)), Inr (fst c + 1)),
     ct_install_snapshot_with_sidecars = \<lambda>_ _ _ c. ((1, snd c), Inr 1),
     ct_precondition_failed = \<lambda>_. None\<rparr>"

definition sample_operation :: operation_ir where
  "sample_operation = \<lparr>op_method = Post, op_path = ''/records'', op_body = Some JNull\<rparr>"

definition sample_start :: "(u64 \<times> (string \<Rightarrow> bytes option)) node" where
  "sample_start = \<lparr>nd_log = \<lparr>rl_format_version = 1, rl_term = 1, rl_base_index = 0, rl_base_transaction_id = 0,
     rl_entries = [], rl_watermarks = []\<rparr>, nd_catalog = (0, Map.empty)\<rparr>"

lemma sample_reachable: "reachable sample_serde sample_catalog sample_start"
proof -
  have "log_open sample_serde sample_catalog 1 (0, Map.empty) = ((0, Map.empty), Inr (nd_log sample_start))"
    by (simp add: log_open_def log_bootstrap_def read_sidecar_def cat_query_def sample_catalog_def bindp_def retp_def liftp_def
        current_transaction_id_def at_catalog_position_def ensure_catalog_position_def last_transaction_id_def log_new_def
        with_position_def sample_start_def REPLICATION_LOG_VERSION_def validate_against_def)
  from reachable.opened [OF this] show ?thesis by (simp add: sample_start_def)
qed

theorem replication_log_invariant_witness:
  "log_validate (nd_log (fst (run_command sample_serde sample_catalog (Propose [sample_operation] None None) sample_start))) =
     (Inr () :: ((string, string) replication_error, unit) result)"
  using replication_log_invariant [OF reachable.ran [OF sample_reachable]] by (metis prod.collapse)

text \<open>
  C4. A registered follower can always be served from the log: reading pages from its
  position ends and returns exactly the entries after it, in order and without gaps, for
  every page size, however the pages are cut to fit the response limit.  This needs that the
  serializer writes the pages of this log and that each of its entries fits a response alone;
  for a larger entry the code answers that one replication entry exceeds the limit.
\<close>

theorem follower_reads_all_pages:
  fixes ops :: "('c, 'ce, 'te) catalog_ops"
  assumes "reachable sd ops s" "p \<in> snd ` set (rl_watermarks (nd_log s))" "pages_fit sd (nd_log s)"
    and "1 \<le> limit" "limit \<le> MAX_REPLICATION_ENTRY_BATCH"
  shows "read_pages sd (nd_log s) limit (rp_index p) =
    Some (Inr (drop (unat (rp_index p) - unat (rl_base_index (nd_log s))) (rl_entries (nd_log s))) ::
      (('ce, 'te) replication_error, replication_entry list) result)"
proof -
  have i: "log_inv (nd_log s)" by (rule reachable_inv [OF assms(1)])
  then have "follower_ok (nd_log s) p" using assms(2) by (auto simp: log_inv_def)
  with i show ?thesis
    using read_pages_all [of "nd_log s" sd limit "rp_index p"] assms(3-5)
    by (simp add: log_inv_def follower_ok_def entries_after_def)
qed

definition sample_progress :: replication_progress where
  "sample_progress = \<lparr>rp_version = 1, rp_follower_id = ''f'', rp_term = 1, rp_index = 0, rp_transaction_id = 0,
     rp_schema_tag = ''schema''\<rparr>"

definition sample_entry :: replication_entry where
  "sample_entry = \<lparr>re_version = 1, re_term = 1, re_index = 1, re_transaction_id = 1, re_schema_tag = ''schema'',
     re_operations = [sample_operation], re_steps = []\<rparr>"

definition sample_followed :: "(u64 \<times> (string \<Rightarrow> bytes option)) node" where
  "sample_followed = fst (run_command sample_serde sample_catalog (Acknowledge sample_progress) sample_start)"

lemma trim_schema: "trim ''schema'' = ''schema''"
  by code_simp

lemma sample_progress_ok: "progress_validate sample_progress = Inr ()"
  by (simp add: progress_validate_def sample_progress_def REPLICATION_PROGRESS_VERSION_def follower_id_ok_def
      MAX_FOLLOWER_ID_BYTES_def string_bytes_def is_ascii_alphanumeric_def trim_schema)

lemma sample_followed_log:
  "nd_log sample_followed = (nd_log sample_start)\<lparr>rl_watermarks := [(''f'', sample_progress)]\<rparr>"
  "nd_catalog sample_followed = (0, [REPLICATION_PROGRESS_SIDECAR_NAME \<mapsto>
     REPLICATION_PROGRESS_SIDECAR_MAGIC @ [REPLICATION_PROGRESS_SIDECAR_VERSION]])"
proof -
  have p: "rp_term sample_progress = 1" "rp_schema_tag sample_progress = ''schema''" "rp_index sample_progress = 0"
    "rp_transaction_id sample_progress = 0" "rp_follower_id sample_progress = ''f''"
    by (simp_all add: sample_progress_def)
  have "log_valid (nd_log sample_start)" using reachable_inv [OF sample_reachable] by (simp add: log_inv_def)
  then show "nd_log sample_followed = (nd_log sample_start)\<lparr>rl_watermarks := [(''f'', sample_progress)]\<rparr>"
    "nd_catalog sample_followed = (0, [REPLICATION_PROGRESS_SIDECAR_NAME \<mapsto>
       REPLICATION_PROGRESS_SIDECAR_MAGIC @ [REPLICATION_PROGRESS_SIDECAR_VERSION]])"
    by (simp_all add: sample_followed_def on_log_def forget_def acknowledge_follower_def acknowledge_def bindp_def retp_def liftp_def
        sample_progress_ok at_catalog_position_def current_transaction_id_def cat_query_def sample_catalog_def
        ensure_catalog_position_def last_transaction_id_def sample_start_def p schema_tag_of_def progress_position_def
        last_index_def checked_add_u64_def record_progress_def MAX_REPLICATION_FOLLOWERS_def read_sidecar_def
        watermarks_to_sidecar_bytes_def sample_serde_def MAX_REPLICATION_PROGRESS_BYTES_def map_errp_def)
qed

definition sample_served :: "(u64 \<times> (string \<Rightarrow> bytes option)) node" where
  "sample_served = fst (run_command sample_serde sample_catalog (Receive sample_entry) sample_followed)"

lemma sample_entry_ok: "entry_ok sample_entry"
  by (simp add: entry_ok_def sample_entry_def sample_operation_def transaction_steps_def step_ok_def trim_schema
      REPLICATION_ENTRY_VERSION_def MAX_OPERATION_BATCH_def)

lemma sample_served_log:
  "nd_log sample_served = (nd_log sample_start)\<lparr>rl_watermarks := [(''f'', sample_progress)], rl_entries := [sample_entry]\<rparr>"
proof -
  let ?l = "nd_log sample_followed"
  have inv: "log_inv ?l" using reachable_inv [OF reachable.ran [OF sample_reachable]] unfolding sample_followed_def by (metis prod.collapse)
  have e: "re_term sample_entry = 1" "re_index sample_entry = 1" "re_transaction_id sample_entry = 1" "re_schema_tag sample_entry = ''schema''"
    by (simp_all add: sample_entry_def)
  have last: "last_index ?l = 0" "last_transaction_id ?l = 0" "rl_term ?l = 1" "rl_entries ?l = []" "rl_base_index ?l = 0"
    by (simp_all add: sample_followed_log last_index_def last_transaction_id_def sample_start_def)
  have v: "log_valid (?l\<lparr>rl_entries := [sample_entry]\<rparr>)"
    using add_entry_inv [OF inv sample_entry_ok] by (simp add: e last log_inv_def)
  have n: "next_value 0 m = Inr 1" for m by (simp add: next_value_iff)
  have "run_command sample_serde sample_catalog (Receive sample_entry) sample_followed =
      (\<lparr>nd_log = ?l\<lparr>rl_entries := [sample_entry]\<rparr>,
        nd_catalog = (1, (snd (nd_catalog sample_followed))(REPLICATION_SIDECAR_NAME \<mapsto>
          REPLICATION_SIDECAR_MAGIC @ REPLICATION_SIDECAR_VERSION # [0]))\<rparr>, Inr ())"
    using v
    by (simp add: on_log_def forget_def receive_def Let_def sample_entry_ok e last apply_new_def apply_new_with_preconditions_def
        bindp_def retp_def liftp_def n at_catalog_position_def current_transaction_id_def cat_query_def sample_catalog_def
        ensure_catalog_position_def schema_tag_of_def read_sidecar_def expected_sidecar_of_def commit_entry_def
        log_to_sidecar_bytes_def log_to_json_def sample_serde_def map_errp_def sample_followed_log(2)
        REPLICATION_SIDECAR_NAME_def REPLICATION_PROGRESS_SIDECAR_NAME_def)
  then show ?thesis by (simp add: sample_served_def sample_followed_log(1))
qed

lemma sample_served_reachable: "reachable sample_serde sample_catalog sample_served"
  using reachable.ran [OF reachable.ran [OF sample_reachable]] unfolding sample_served_def sample_followed_def by (metis prod.collapse)

theorem follower_reads_all_pages_witness:
  "read_pages sample_serde (nd_log sample_served) 1 0 =
     Some (Inr [sample_entry] :: ((string, string) replication_error, replication_entry list) result)"
proof -
  have p: "sample_progress \<in> snd ` set (rl_watermarks (nd_log sample_served))" by (simp add: sample_served_log)
  have "pages_fit sample_serde (nd_log sample_served)"
    by (simp add: pages_fit_def sample_serde_def MAX_REPLICATION_ENTRY_BATCH_BYTES_def MAX_JSON_INPUT_BYTES_def)
  from follower_reads_all_pages [OF sample_served_reachable p this, of 1] show ?thesis
    by (simp add: MAX_REPLICATION_ENTRY_BATCH_def sample_served_log sample_progress_def sample_start_def)
qed

end
