(* ===== verification/Replication_Client.thy ===== *)
theory Replication_Client
  imports Replication
begin

text \<open>
  The HTTP client of a follower: its messages (\<^verbatim>\<open>src/src/replication/http/protocol.rs\<close>), requests with
  retries and catching up with an authority (\<^verbatim>\<open>src/src/replication/http/client.rs\<close>).  One exchange
  over the network is an argument.
\<close>

section \<open>Messages\<close>

datatype ('ce, 'te) http_error =
    InvalidUrl string
  | UnsupportedScheme string
  | InvalidConfig string
  | Http_io string
  | Tls string
  | InvalidResponse string
  | HttpStatus u16 "string option" string
  | Http_replication "('ce, 'te) replication_error"

record http_status =
  hs_transport_version :: u16
  hs_role :: string
  hs_term :: u64
  hs_base_index :: u64
  hs_base_transaction_id :: u64
  hs_last_index :: u64
  hs_last_transaction_id :: u64
  hs_follower_count :: nat
  hs_safe_compaction_index :: "u64 option"
  hs_schema_tag :: string

datatype delivery_outcome = Delivery_applied | Delivery_duplicate | Delivery_snapshot_installed | Delivery_snapshot_duplicate

record delivery_response =
  dr_transport_version :: u16
  dr_outcome :: delivery_outcome
  dr_index :: u64
  dr_transaction_id :: u64

datatype progress_response_outcome = Progress_accepted | Progress_duplicate

record progress_response =
  pr_transport_version :: u16
  pr_outcome :: progress_response_outcome
  pr_follower_id :: string
  pr_index :: u64
  pr_transaction_id :: u64
  pr_safe_compaction_index :: "u64 option"

record sync_result =
  sr_snapshot_installed :: bool
  sr_entries_applied :: nat
  sr_progress :: progress_response

type_synonym ('ce, 'te, 'a) http_result = "(('ce, 'te) http_error, 'a) result"

abbreviation invalid :: "string \<Rightarrow> ('ce, 'te) http_error" where
  "invalid m \<equiv> Http_replication (Re_invalid m)"

definition transport_error :: "u16 \<Rightarrow> ('ce, 'te) http_error" where
  "transport_error v = invalid (''unsupported replication transport version: '' @ show_nat (unat v))"

definition http_status_validate :: "http_status \<Rightarrow> ('ce, 'te, unit) http_result" where
  "http_status_validate s =
     bindr (ensure (hs_transport_version s = REPLICATION_TRANSPORT_VERSION) (transport_error (hs_transport_version s))) (\<lambda>_.
     bindr (ensure (hs_role s = ''authority'' \<or> hs_role s = ''follower'') (invalid ''replication role is invalid'')) (\<lambda>_.
     bindr (ensure (\<not> (hs_term s = 0 \<or> hs_base_index s > hs_last_index s \<or>
         hs_base_transaction_id s > hs_last_transaction_id s))
       (invalid ''replication status position is invalid'')) (\<lambda>_.
     bindr (ok_or (invalid ''replication transaction ID exhausted'')
       (checked_add_u64 (hs_base_transaction_id s) (hs_last_index s - hs_base_index s))) (\<lambda>expected.
     bindr (ensure (hs_last_transaction_id s = expected)
       (Http_replication (TransactionGap expected (hs_last_transaction_id s)))) (\<lambda>_.
     bindr (ensure (hs_follower_count s \<le> MAX_REPLICATION_FOLLOWERS)
       (invalid ''replication follower count exceeds the configured maximum'')) (\<lambda>_.
     bindr (ensure (\<not> (case hs_safe_compaction_index s of Some i \<Rightarrow> i > hs_last_index s | None \<Rightarrow> False))
       (invalid ''safe compaction index exceeds the last replication index'')) (\<lambda>_.
     ensure (trim (hs_schema_tag s) \<noteq> []) (invalid ''schema_tag must not be empty''))))))))"

definition delivery_response_validate :: "delivery_response \<Rightarrow> ('ce, 'te, unit) http_result" where
  "delivery_response_validate d =
     bindr (ensure (dr_transport_version d = REPLICATION_TRANSPORT_VERSION) (transport_error (dr_transport_version d))) (\<lambda>_.
     ensure (\<not> (dr_index d = 0 \<or> dr_transaction_id d = 0)) (invalid ''replication delivery position must be positive''))"

definition progress_response_validate :: "progress_response \<Rightarrow> ('ce, 'te, unit) http_result" where
  "progress_response_validate p =
     bindr (ensure (pr_transport_version p = REPLICATION_TRANSPORT_VERSION) (transport_error (pr_transport_version p))) (\<lambda>_.
     bindr (ensure (follower_id_ok (pr_follower_id p)) (invalid ''replication follower_id is invalid'')) (\<lambda>_.
     bindr (ensure ((pr_index p = 0) = (pr_transaction_id p = 0))
       (invalid ''progress index and transaction_id must both be zero or both be positive'')) (\<lambda>_.
     ensure (\<not> (case pr_safe_compaction_index p of Some i \<Rightarrow> i > pr_index p | None \<Rightarrow> False))
       (invalid ''safe compaction index exceeds acknowledged progress''))))"

section \<open>Requests\<close>

text \<open>
  The network, as a value of type \<open>'r\<close>: one exchange with the server, and waiting.  An exchange
  is any function of the state of the network: it stands for \<open>request_once\<close> with \<open>send_request\<close>
  and \<open>read_response\<close>, over sockets with a timeout, and always returns a body or an error.  The
  readers of the messages are those of \<open>serde_json\<close>.
\<close>

record ('r, 'ce, 'te) network =
  nw_request_once :: "string \<Rightarrow> string \<Rightarrow> bytes option \<Rightarrow> nat \<Rightarrow> ('r, ('ce, 'te) http_error, bytes) prog"
  nw_sleep :: "nat \<Rightarrow> 'r \<Rightarrow> 'r"
  nw_status_from_slice :: "bytes \<Rightarrow> (string, http_status) result"
  nw_delivery_from_slice :: "bytes \<Rightarrow> (string, delivery_response) result"
  nw_progress_from_slice :: "bytes \<Rightarrow> (string, progress_response) result"

record retry_policy =
  rt_max_attempts :: nat
  rt_initial_backoff :: nat
  rt_max_backoff :: nat

definition MAX_RETRY_ATTEMPTS :: nat where "MAX_RETRY_ATTEMPTS = 8"
definition MAX_RETRY_BACKOFF :: nat where "MAX_RETRY_BACKOFF = 30000"

text \<open>Durations are counted in milliseconds.\<close>

definition retry_policy_new :: "nat \<Rightarrow> nat \<Rightarrow> nat \<Rightarrow> ('ce, 'te, retry_policy) http_result" where
  "retry_policy_new max_attempts initial_backoff max_backoff =
     bindr (ensure (1 \<le> max_attempts \<and> max_attempts \<le> MAX_RETRY_ATTEMPTS)
       (InvalidConfig (''retry attempts must be between 1 and '' @ show_nat MAX_RETRY_ATTEMPTS))) (\<lambda>_.
     bindr (ensure (\<not> (initial_backoff > max_backoff \<or> max_backoff > MAX_RETRY_BACKOFF))
       (InvalidConfig ''retry backoff must be ordered and at most 30 seconds'')) (\<lambda>_.
     Inr \<lparr>rt_max_attempts = max_attempts, rt_initial_backoff = initial_backoff, rt_max_backoff = max_backoff\<rparr>))"

definition retry_policy_default :: retry_policy where
  "retry_policy_default = \<lparr>rt_max_attempts = 3, rt_initial_backoff = 50, rt_max_backoff = 1000\<rparr>"

fun is_retryable :: "('ce, 'te) http_error \<Rightarrow> bool" where
  "is_retryable (Http_io _) = True"
| "is_retryable (HttpStatus status _ _) = (status \<in> {408, 429, 500, 502, 503, 504})"
| "is_retryable _ = False"

function request_from ::
  "('r, ('ce, 'te) http_error, bytes) prog \<Rightarrow> (nat \<Rightarrow> 'r \<Rightarrow> 'r) \<Rightarrow> retry_policy \<Rightarrow> nat \<Rightarrow> nat \<Rightarrow>
     ('r, ('ce, 'te) http_error, bytes) prog" where
  "request_from once sleep policy attempt backoff r =
     (case once r of
        (r', Inr response) \<Rightarrow> (r', Inr response)
      | (r', Inl e) \<Rightarrow>
          if attempt < rt_max_attempts policy \<and> is_retryable e
          then request_from once sleep policy (Suc attempt) (min (2 * backoff) (rt_max_backoff policy))
            (if backoff = 0 then r' else sleep backoff r')
          else (r', Inl e))"
  by pat_completeness auto
termination by (relation "measure (\<lambda>(_, _, policy, attempt, _, _). rt_max_attempts policy - attempt)") auto

declare request_from.simps [simp del]

definition request ::
  "('r, 'ce, 'te) network \<Rightarrow> retry_policy \<Rightarrow> string \<Rightarrow> string \<Rightarrow> bytes option \<Rightarrow> nat \<Rightarrow> ('r, ('ce, 'te) http_error, bytes) prog" where
  "request nw policy method path body max_bytes =
     request_from (nw_request_once nw method path body max_bytes) (nw_sleep nw) policy 1 (rt_initial_backoff policy)"

definition parse_json :: "(bytes \<Rightarrow> (string, 'a) result) \<Rightarrow> bytes \<Rightarrow> string \<Rightarrow> ('ce, 'te, 'a) http_result" where
  "parse_json from_slice body label =
     map_err (\<lambda>e. InvalidResponse (label @ '' JSON: '' @ e)) (from_slice body)"

definition http_status_request ::
  "('r, 'ce, 'te) network \<Rightarrow> retry_policy \<Rightarrow> ('r, ('ce, 'te) http_error, http_status) prog" where
  "http_status_request nw policy =
     bindp (request nw policy ''GET'' ''/replication/status'' None MAX_REPLICATION_ENTRY_BATCH_BYTES) (\<lambda>body.
     bindp (liftp (parse_json (nw_status_from_slice nw) body ''status'')) (\<lambda>s.
     bindp (liftp (http_status_validate s)) (\<lambda>_. retp s)))"

definition http_entries ::
  "('r, 'ce, 'te) network \<Rightarrow> retry_policy \<Rightarrow> replication_serde \<Rightarrow> u64 \<Rightarrow> nat \<Rightarrow>
     ('r, ('ce, 'te) http_error, replication_entry_batch) prog" where
  "http_entries nw policy sd after_index limit =
     bindp (liftp (ensure (1 \<le> limit \<and> limit \<le> MAX_REPLICATION_ENTRY_BATCH) (Http_replication batch_limit_error))) (\<lambda>_.
     bindp (request nw policy ''GET''
       (''/replication/entries?after='' @ show_nat (unat after_index) @ ''&limit='' @ show_nat limit) None
       MAX_REPLICATION_ENTRY_BATCH_BYTES) (\<lambda>body.
     liftp (map_err Http_replication (batch_from_json sd body))))"

definition http_snapshot ::
  "('r, 'ce, 'te) network \<Rightarrow> retry_policy \<Rightarrow> replication_serde \<Rightarrow> ('c, 'ce, 'te) catalog_ops \<Rightarrow>
     ('r, ('ce, 'te) http_error, replication_snapshot) prog" where
  "http_snapshot nw policy sd ops =
     bindp (request nw policy ''GET'' ''/replication/snapshot'' None MAX_REPLICATION_SNAPSHOT_BYTES) (\<lambda>body.
     liftp (map_err Http_replication (snapshot_from_json sd ops body)))"

definition http_deliver_entry ::
  "('r, 'ce, 'te) network \<Rightarrow> retry_policy \<Rightarrow> replication_serde \<Rightarrow> replication_entry \<Rightarrow>
     ('r, ('ce, 'te) http_error, delivery_response) prog" where
  "http_deliver_entry nw policy sd e =
     bindp (liftp (map_err Http_replication (entry_to_json sd e))) (\<lambda>body.
     bindp (request nw policy ''POST'' ''/replication/entry'' (Some body) MAX_REPLICATION_ENTRY_BATCH_BYTES) (\<lambda>response.
     bindp (liftp (parse_json (nw_delivery_from_slice nw) response ''entry delivery'')) (\<lambda>d.
     bindp (liftp (delivery_response_validate d)) (\<lambda>_. retp d))))"

definition http_install_snapshot ::
  "('r, 'ce, 'te) network \<Rightarrow> retry_policy \<Rightarrow> replication_serde \<Rightarrow> ('c, 'ce, 'te) catalog_ops \<Rightarrow> replication_snapshot \<Rightarrow>
     ('r, ('ce, 'te) http_error, delivery_response) prog" where
  "http_install_snapshot nw policy sd ops s =
     bindp (liftp (map_err Http_replication (snapshot_to_json sd ops s))) (\<lambda>body.
     bindp (request nw policy ''POST'' ''/replication/snapshot'' (Some body) MAX_REPLICATION_SNAPSHOT_BYTES) (\<lambda>response.
     bindp (liftp (parse_json (nw_delivery_from_slice nw) response ''snapshot delivery'')) (\<lambda>d.
     bindp (liftp (delivery_response_validate d)) (\<lambda>_. retp d))))"

definition http_acknowledge_progress ::
  "('r, 'ce, 'te) network \<Rightarrow> retry_policy \<Rightarrow> replication_serde \<Rightarrow> replication_progress \<Rightarrow>
     ('r, ('ce, 'te) http_error, progress_response) prog" where
  "http_acknowledge_progress nw policy sd p =
     bindp (liftp (map_err Http_replication (progress_to_json sd p))) (\<lambda>body.
     bindp (request nw policy ''POST'' ''/replication/progress'' (Some body) MAX_REPLICATION_ENTRY_BATCH_BYTES) (\<lambda>response.
     bindp (liftp (parse_json (nw_progress_from_slice nw) response ''progress'')) (\<lambda>d.
     bindp (liftp (progress_response_validate d)) (\<lambda>_. retp d))))"

section \<open>Catching up\<close>

fun is_history_unavailable :: "('ce, 'te) http_error \<Rightarrow> bool" where
  "is_history_unavailable (HttpStatus status code _) = (status = 409 \<and> code = Some ''replication_history_unavailable'')"
| "is_history_unavailable _ = False"

record ('c, 'r) sync_state =
  sy_node :: "'c node"
  sy_network :: 'r

definition on_network :: "('r, 'e, 'a) prog \<Rightarrow> (('c, 'r) sync_state, 'e, 'a) prog" where
  "on_network p s = (case p (sy_network s) of (r, x) \<Rightarrow> (s\<lparr>sy_network := r\<rparr>, x))"

definition on_node :: "('c node, 'e, 'a) prog \<Rightarrow> (('c, 'r) sync_state, 'e, 'a) prog" where
  "on_node p s = (case p (sy_node s) of (n, x) \<Rightarrow> (s\<lparr>sy_node := n\<rparr>, x))"

abbreviation local_index :: "('c, 'r) sync_state \<Rightarrow> u64" where
  "local_index s \<equiv> last_index (nd_log (sy_node s))"

record ('c, 'r, 'ce, 'te) client =
  cl_network :: "('r, 'ce, 'te) network"
  cl_policy :: retry_policy
  cl_serde :: replication_serde
  cl_catalog :: "('c, 'ce, 'te) catalog_ops"

type_synonym ('c, 'r, 'ce, 'te, 'a) sync_prog = "(('c, 'r) sync_state, ('ce, 'te) http_error, 'a) prog"

definition install_local_snapshot :: "('c, 'r, 'ce, 'te) client \<Rightarrow> ('c, 'r, 'ce, 'te, bool) sync_prog" where
  "install_local_snapshot cl =
     bindp (on_network (http_snapshot (cl_network cl) (cl_policy cl) (cl_serde cl) (cl_catalog cl))) (\<lambda>s.
     bindp (map_errp Http_replication (on_node (on_log (\<lambda>l. install_snapshot (cl_serde cl) (cl_catalog cl) l s)))) (\<lambda>outcome.
     retp (case outcome of SnapshotInstalled _ _ \<Rightarrow> True | SnapshotDuplicate _ _ \<Rightarrow> True | _ \<Rightarrow> False)))"

definition is_applied :: "apply_outcome \<Rightarrow> bool" where
  "is_applied r = (case r of Applied _ _ \<Rightarrow> True | _ \<Rightarrow> False)"

text \<open>One page of the loop: the entries received, and the checks that the log moves on.\<close>

definition receive_page ::
  "('c, 'r, 'ce, 'te) client \<Rightarrow> u64 \<Rightarrow> u64 \<Rightarrow> replication_entry_batch \<Rightarrow> ('c, 'r, 'ce, 'te, nat) sync_prog" where
  "receive_page cl target_index requested_after b =
     bindp (liftp (ensure (rb_after_index b = requested_after)
       (invalid (''replication entry page starts at '' @ show_nat (unat (rb_after_index b)) @ '', expected '' @
         show_nat (unat requested_after))))) (\<lambda>_.
     bindp (liftp (ensure (rb_entries b \<noteq> []) (invalid ''replication entry page made no progress''))) (\<lambda>_.
     bindp (getp local_index) (\<lambda>before.
     bindp (map_errp Http_replication (on_node (receive_batch (cl_serde cl) (cl_catalog cl) b))) (\<lambda>outcomes.
     bindp (getp local_index) (\<lambda>now.
     bindp (liftp (ensure (\<not> now \<le> before) (invalid ''replication entry page did not advance the local log''))) (\<lambda>_.
     bindp (liftp (ensure (\<not> (rb_next_after b = None \<and> now < target_index))
       (invalid ''replication entry page ended before the authority position''))) (\<lambda>_.
     retp (length (filter is_applied outcomes)))))))))"

partial_function (option) catch_up_loop ::
  "('c, 'r, 'ce, 'te) client \<Rightarrow> u64 \<Rightarrow> nat \<Rightarrow> bool \<Rightarrow> bool \<Rightarrow> nat \<Rightarrow> ('c, 'r) sync_state \<Rightarrow>
     (('c, 'r) sync_state \<times> ('ce, 'te, bool \<times> nat) http_result) option" where
  "catch_up_loop cl target_index limit attempted installed applied s =
     (if local_index s < target_index then
        (case on_network (http_entries (cl_network cl) (cl_policy cl) (cl_serde cl) (local_index s) limit) s of
           (s1, Inl e) \<Rightarrow>
             if is_history_unavailable e \<and> \<not> attempted then
               (case install_local_snapshot cl s1 of
                  (s2, Inl e) \<Rightarrow> Some (s2, Inl e)
                | (s2, Inr installed) \<Rightarrow> catch_up_loop cl target_index limit True installed applied s2)
             else Some (s1, Inl e)
         | (s1, Inr b) \<Rightarrow>
             (case receive_page cl target_index (local_index s) b s1 of
                (s2, Inl e) \<Rightarrow> Some (s2, Inl e)
              | (s2, Inr n) \<Rightarrow> catch_up_loop cl target_index limit attempted installed (applied + n) s2))
      else Some (s, Inr (installed, applied)))"

definition catch_up_begin ::
  "('c, 'r, 'ce, 'te) client \<Rightarrow> nat \<Rightarrow> ('c, 'r, 'ce, 'te, http_status) sync_prog" where
  "catch_up_begin cl limit =
     bindp (liftp (ensure (1 \<le> limit \<and> limit \<le> MAX_REPLICATION_ENTRY_BATCH) (Http_replication batch_limit_error))) (\<lambda>_.
     bindp (on_network (http_status_request (cl_network cl) (cl_policy cl))) (\<lambda>status.
     bindp (getp (\<lambda>s. nd_log (sy_node s))) (\<lambda>l.
     bindp (liftp (ensure (hs_role status = ''authority'')
       (invalid ''replication catch-up requires an authority endpoint''))) (\<lambda>_.
     bindp (liftp (ensure (hs_term status = rl_term l) (Http_replication (TermMismatch (rl_term l) (hs_term status))))) (\<lambda>_.
     bindp (map_errp Http_replication (on_node (on_log (\<lambda>l.
       bindp (schema_tag_of (cl_catalog cl)) (\<lambda>schema_tag. retp (l, schema_tag)))))) (\<lambda>local_schema_tag.
     bindp (liftp (ensure (hs_schema_tag status = local_schema_tag)
       (Http_replication (SchemaMismatch local_schema_tag (hs_schema_tag status))))) (\<lambda>_.
     bindp (liftp (ensure (\<not> hs_last_index status < last_index l)
       (Http_replication (EntriesUnavailable (last_index l) (hs_last_index status))))) (\<lambda>_.
     retp status))))))))"

definition catch_up_end ::
  "('c, 'r, 'ce, 'te) client \<Rightarrow> string \<Rightarrow> bool \<times> nat \<Rightarrow> ('c, 'r, 'ce, 'te, sync_result) sync_prog" where
  "catch_up_end cl follower_id = (\<lambda>(installed, applied).
     bindp (map_errp Http_replication (on_node (on_log (\<lambda>l.
       bindp (progress_for (cl_catalog cl) l follower_id) (\<lambda>p. retp (l, p)))))) (\<lambda>p.
     bindp (on_network (http_acknowledge_progress (cl_network cl) (cl_policy cl) (cl_serde cl) p)) (\<lambda>response.
     retp \<lparr>sr_snapshot_installed = installed, sr_entries_applied = applied, sr_progress = response\<rparr>)))"

definition catch_up ::
  "('c, 'r, 'ce, 'te) client \<Rightarrow> string \<Rightarrow> nat \<Rightarrow> ('c, 'r) sync_state \<Rightarrow>
     (('c, 'r) sync_state \<times> ('ce, 'te, sync_result) http_result) option" where
  "catch_up cl follower_id limit s =
     (case catch_up_begin cl limit s of
        (s1, Inl e) \<Rightarrow> Some (s1, Inl e)
      | (s1, Inr status) \<Rightarrow>
          (case (if local_index s1 < hs_base_index status
                 then bindp (install_local_snapshot cl) (\<lambda>installed. retp (installed, True)) s1
                 else (s1, Inr (False, False))) of
             (s2, Inl e) \<Rightarrow> Some (s2, Inl e)
           | (s2, Inr (installed, attempted)) \<Rightarrow>
               Option.bind (catch_up_loop cl (hs_last_index status) limit attempted installed 0 s2) (\<lambda>(s3, r).
               case r of Inl e \<Rightarrow> Some (s3, Inl e) | Inr x \<Rightarrow> Some (catch_up_end cl follower_id x s3))))"

section \<open>Catching up ends\<close>

lemma receive_page_advances:
  assumes "receive_page cl target a b s = (s', Inr n)"
  shows "local_index s < local_index s'"
  using assms unfolding receive_page_def bindp_Inr liftp_Inr retp_Inr getp_def ensure_Inr_iff by (auto simp: not_le)

lemma on_network_node: "on_network p s = (s', r) \<Longrightarrow> sy_node s' = sy_node s"
  by (auto simp: on_network_def split: prod.splits)

lemma catch_up_loop_step:
  assumes page: "\<And>n s2. local_index s < local_index s2 \<Longrightarrow> local_index s < target \<Longrightarrow>
      \<exists>y. catch_up_loop cl target limit attempted installed (applied + n) s2 = Some y"
    and retry: "\<And>i s2. \<not> attempted \<Longrightarrow> \<exists>y. catch_up_loop cl target limit True i applied s2 = Some y"
  shows "\<exists>y. catch_up_loop cl target limit attempted installed applied s = Some y"
proof (cases "local_index s < target")
  case True
  obtain s1 x where e: "on_network (http_entries (cl_network cl) (cl_policy cl) (cl_serde cl) (local_index s) limit) s = (s1, x)"
    by fastforce
  have node: "sy_node s1 = sy_node s" by (rule on_network_node [OF e])
  show ?thesis
  proof (cases x)
    case (Inl err)
    obtain s2 y where i: "install_local_snapshot cl s1 = (s2, y)" by fastforce
    show ?thesis
      unfolding catch_up_loop.simps [of cl target limit attempted installed applied s] if_P [OF True] e Inl prod.case sum.case
      using retry i by (cases y) simp_all
  next
    case (Inr b)
    obtain s2 y where p: "receive_page cl target (local_index s) b s1 = (s2, y)" by fastforce
    have "local_index s < local_index s2" if "y = Inr n" for n
      using receive_page_advances [OF p [unfolded that]] node by simp
    with page True show ?thesis
      unfolding catch_up_loop.simps [of cl target limit attempted installed applied s] if_P [OF True] e Inr prod.case sum.case p
      by (cases y) simp_all
  qed
next
  case False
  then show ?thesis by (subst catch_up_loop.simps) simp
qed

lemma catch_up_loop_attempts:
  fixes cl :: "('c, 'r, 'ce, 'te) client"
  assumes "\<And>i n s2. \<not> attempted \<Longrightarrow> \<exists>y. catch_up_loop cl target limit True i n s2 = Some y"
  shows "\<exists>y. catch_up_loop cl target limit attempted installed applied s = Some y"
proof (induction "unat target - unat (local_index s)" arbitrary: applied s rule: less_induct)
  case less
  show ?case
  proof (rule catch_up_loop_step)
    fix n and s2 :: "('c, 'r) sync_state"
    assume "local_index s < local_index s2" "local_index s < target"
    then have "unat target - unat (local_index s2) < unat target - unat (local_index s)"
      by (simp add: word_less_nat_alt)
    then show "\<exists>y. catch_up_loop cl target limit attempted installed (applied + n) s2 = Some y" by (rule less)
  qed (rule assms)
qed

lemma catch_up_loop_returns: "\<exists>y. catch_up_loop cl target limit attempted installed applied s = Some y"
  by (rule catch_up_loop_attempts, rule catch_up_loop_attempts) simp

lemma catch_up_returns: "\<exists>y. catch_up cl follower_id limit s = Some y"
proof (cases "catch_up_begin cl limit s")
  case (Pair s1 x)
  show ?thesis
  proof (cases x)
    case (Inr status)
    obtain s2 z where z: "(if local_index s1 < hs_base_index status
        then bindp (install_local_snapshot cl) (\<lambda>installed. retp (installed, True)) s1
        else (s1, Inr (False, False))) = (s2, z)" by fastforce
    show ?thesis
    proof (cases z)
      case (Inr ia)
      obtain i a where ia: "ia = (i, a)" by fastforce
      obtain s3 r where "catch_up_loop cl (hs_last_index status) limit a i 0 s2 = Some (s3, r)"
        using catch_up_loop_returns [of cl "hs_last_index status" limit a i 0 s2] by auto
      then show ?thesis
        unfolding catch_up_def Pair prod.case \<open>x = Inr status\<close> sum.case z Inr ia by (cases r) simp_all
    qed (simp add: catch_up_def Pair \<open>x = Inr status\<close> z)
  qed (simp add: catch_up_def Pair)
qed

abbreviation sync_inv :: "('c, 'r) sync_state \<Rightarrow> bool" where
  "sync_inv s \<equiv> node_inv (sy_node s)"

lemma on_network_keeps: "triple sync_inv (on_network p) (\<lambda>_. sync_inv) sync_inv"
  by (rule tripleI) (auto simp: on_network_def split: prod.splits)

lemma on_node_keeps: "triple node_inv p (\<lambda>_. node_inv) node_inv \<Longrightarrow> triple sync_inv (on_node p) (\<lambda>_. sync_inv) sync_inv"
  by (rule tripleI) (auto simp: on_node_def split: prod.splits dest: tripleD)

lemma install_local_keeps: "triple sync_inv (install_local_snapshot cl) (\<lambda>_. sync_inv) sync_inv"
  unfolding install_local_snapshot_def
  by (intro triple_bind [OF on_network_keeps] triple_bind [OF triple_map_err [OF on_node_keeps]] on_log_keeps triple_ret)
    (auto dest!: install_snapshot_result with_position_inv)

lemma get_bind: "(\<And>x. triple P (f x) Q E) \<Longrightarrow> triple P (bindp (getp g) f) Q E"
  by (auto simp: triple_def bindp_def getp_def)

lemma receive_page_keeps: "triple sync_inv (receive_page cl t a b) (\<lambda>_. sync_inv) sync_inv"
  unfolding receive_page_def
  by (intro triple_lift_bind get_bind triple_bind [OF triple_map_err [OF on_node_keeps [OF receive_batch_keeps]]] triple_ret)

lemma triple_case:
  "triple P p Q P' \<Longrightarrow> P s \<Longrightarrow> p s = (s', r) \<Longrightarrow> (case r of Inl _ \<Rightarrow> P' s' | Inr x \<Rightarrow> Q x s')"
  by (cases r) (auto dest: tripleD)

lemma catch_up_loop_result:
  fixes cl :: "('c, 'r, 'ce, 'te) client"
  assumes "catch_up_loop cl target limit attempted installed applied s = Some y"
  shows "(sync_inv s \<longrightarrow> sync_inv (fst y)) \<and> (\<forall>x. snd y = Inr x \<longrightarrow> target \<le> local_index (fst y))"
proof (rule catch_up_loop.raw_induct [OF _ assms])
  fix loop and cl :: "('c, 'r, 'ce, 'te) client" and target limit attempted installed applied and s :: "('c, 'r) sync_state" and y
  assume IH: "\<And>cl target limit attempted installed applied s y. loop cl target limit attempted installed applied s = Some y \<Longrightarrow>
      (sync_inv s \<longrightarrow> sync_inv (fst y)) \<and> (\<forall>x. snd y = Inr x \<longrightarrow> target \<le> local_index (fst y))"
    and body: "(if local_index s < target then
        (case on_network (http_entries (cl_network cl) (cl_policy cl) (cl_serde cl) (local_index s) limit) s of
           (s1, Inl e) \<Rightarrow>
             if is_history_unavailable e \<and> \<not> attempted then
               (case install_local_snapshot cl s1 of
                  (s2, Inl e) \<Rightarrow> Some (s2, Inl e)
                | (s2, Inr installed) \<Rightarrow> loop cl target limit True installed applied s2)
             else Some (s1, Inl e)
         | (s1, Inr b) \<Rightarrow>
             (case receive_page cl target (local_index s) b s1 of
                (s2, Inl e) \<Rightarrow> Some (s2, Inl e)
              | (s2, Inr n) \<Rightarrow> loop cl target limit attempted installed (applied + n) s2))
      else Some (s, Inr (installed, applied))) = Some y"
  show "(sync_inv s \<longrightarrow> sync_inv (fst y)) \<and> (\<forall>x. snd y = Inr x \<longrightarrow> target \<le> local_index (fst y))"
  proof (cases "local_index s < target")
    case True
    obtain s1 x where e: "on_network (http_entries (cl_network cl) (cl_policy cl) (cl_serde cl) (local_index s) limit) s = (s1, x)"
      by fastforce
    have node: "sy_node s1 = sy_node s" by (rule on_network_node [OF e])
    note body = body [unfolded if_P [OF True] e prod.case]
    show ?thesis
    proof (cases x)
      case (Inl err)
      obtain s2 z where i: "install_local_snapshot cl s1 = (s2, z)" by fastforce
      have "sync_inv s \<longrightarrow> sync_inv s2" using triple_case [OF install_local_keeps _ i] node by (auto split: sum.splits)
      moreover have "y = (s1, Inl err) \<or> (\<exists>e. y = (s2, Inl e)) \<or> (\<exists>b. loop cl target limit True b applied s2 = Some y)"
        using body unfolding Inl by (auto simp: i split: if_split_asm sum.split_asm)
      ultimately show ?thesis using node IH by (elim disjE exE) (simp, simp, blast)
    next
      case (Inr b)
      obtain s2 z where p: "receive_page cl target (local_index s) b s1 = (s2, z)" by fastforce
      have "sync_inv s \<longrightarrow> sync_inv s2" using triple_case [OF receive_page_keeps _ p] node by (auto split: sum.splits)
      moreover have "(\<exists>e. y = (s2, Inl e)) \<or> (\<exists>n. loop cl target limit attempted installed (applied + n) s2 = Some y)"
        using body unfolding Inr by (auto simp: p split: sum.split_asm)
      ultimately show ?thesis using IH by (elim disjE exE) (simp, blast)
    qed
  next
    case False
    then show ?thesis using body by auto
  qed
qed

section \<open>The property of catching up\<close>

text \<open>
  C5. Catching up with an authority ends, whatever the network and the authority answer:
  every page must move the local log forward, and a snapshot is fetched at most once in the
  loop. When the loop succeeds, the local log has reached the index the authority reported,
  and a valid log stays valid.
\<close>

theorem catch_up_terminates:
  "(\<exists>s' r. catch_up cl follower_id limit s = Some (s', r)) \<and>
   (\<exists>s' r. catch_up_loop cl target limit attempted installed applied s = Some (s', r) \<and>
      (sync_inv s \<longrightarrow> sync_inv s') \<and> (\<forall>x. r = Inr x \<longrightarrow> target \<le> local_index s'))"
proof -
  obtain y where "catch_up_loop cl target limit attempted installed applied s = Some y"
    using catch_up_loop_returns by blast
  with catch_up_loop_result [OF this] catch_up_returns [of cl follower_id limit s] show ?thesis
    by (cases y) auto
qed

definition sample_client :: "(u64 \<times> (string \<Rightarrow> bytes option), nat, string, string) client" where
  "sample_client = \<lparr>
     cl_network = \<lparr>nw_request_once = \<lambda>_ _ _ _ r. (Suc r, Inl (Http_io ''connection refused'')), nw_sleep = \<lambda>n r. n + r,
       nw_status_from_slice = \<lambda>_. Inl ''EOF'', nw_delivery_from_slice = \<lambda>_. Inl ''EOF'', nw_progress_from_slice = \<lambda>_. Inl ''EOF''\<rparr>,
     cl_policy = retry_policy_default, cl_serde = sample_serde, cl_catalog = sample_catalog\<rparr>"

theorem catch_up_terminates_witness:
  "\<exists>s' r. catch_up_loop sample_client 5 1 False False 0 \<lparr>sy_node = sample_served, sy_network = 0\<rparr> = Some (s', r) \<and> sync_inv s'"
proof -
  have "sync_inv \<lparr>sy_node = sample_served, sy_network = 0 :: nat\<rparr>" using reachable_inv [OF sample_served_reachable] by simp
  then show ?thesis using catch_up_terminates by blast
qed

end
