(* ===== verification/Spec2Isabelle.thy ===== *)
theory Spec2Isabelle
  imports Transactions Dbf_Wal Dbf_Codec Xbf_Store Query_Filter Replication_Client
begin

text \<open>
  A verification development for txBASE, a transactional engine for DBF and XBF tables with
  replication.

  \<^bold>\<open>The program.\<close>  A table is a file.  A change of a table is first appended to a write-ahead
  log beside it (\<^verbatim>\<open>transaction/wal.rs\<close>), in a payload format of the table's kind
  (\<^verbatim>\<open>dbf/wal.rs\<close>, \<^verbatim>\<open>dbf/wal_delta.rs\<close>, \<^verbatim>\<open>xbf/wal.rs\<close>), then the table file is replaced, then
  the log is cleared; opening a table first redoes what its log holds.  Long DBF values live in
  a memo sidecar (\<^verbatim>\<open>dbf/memo_file.rs\<close>).  The transaction manager (\<^verbatim>\<open>transaction/mod.rs\<close>) hands
  out transaction ids over a log.  A server changes records through JSON patches
  (\<^verbatim>\<open>server/json_patch.rs\<close>, \<^verbatim>\<open>server/merge_patch.rs\<close>) and selects them with filters
  (\<^verbatim>\<open>query/predicate.rs\<close>).  Committed transactions are entries of a
  replication log (\<^verbatim>\<open>replication.rs\<close>), which followers fetch in pages or, when the entries are
  compacted away, through a snapshot (\<^verbatim>\<open>replication/http/client.rs\<close>).  All paths are below
  \<^verbatim>\<open>src/src/\<close>.

  \<^bold>\<open>Conventions.\<close>  \<open>Result<T, E>\<close> is the sum \<open>'e + 'a\<close> with \<open>Inl\<close> for \<open>Err\<close>; \<open>?\<close> is \<open>bindr\<close>, an
  early return with an error is \<open>ensure\<close>, \<open>ok_or\<close> and \<open>map_err\<close> have their Rust meaning.
  \<open>u8\<close> to \<open>u64\<close> are words, with checked arithmetic where the code checks; \<open>usize\<close> is a natural
  number below \<open>usize_limit\<close> (\<open>2 ^ 64\<close>).  A \<open>String\<close> is a string with one character per
  UTF-8 byte.  An operation that changes its receiver returns it changed, on the error paths
  too.  Code that works on files is a program \<open>'s \<Rightarrow> 's \<times> ('e, 'a) result\<close>.

  \<^bold>\<open>Theories.\<close>

  \<^item> \<open>Base\<close>: results, machine integers, byte slices, little- and big-endian codecs, decimal
    numerals, and the contract \<open>cursor_reader\<close> of the decoders that read through a cursor.
    \<open>Rust_Text\<close>: UTF-8, trimming, splitting, number parsing.  \<open>Json\<close>: \<open>serde_json::Value\<close>, its
    maps and its equality.  \<open>Float64\<close>: doubles on their bit patterns, with the rounding of integers,
    sums and decimal texts, and the conversions of JSON numbers.
  \<^item> \<open>Wal_Log\<close> (\<^verbatim>\<open>transaction/wal.rs\<close>): \<open>encode_records\<close>, \<open>parse_wal\<close>, \<open>MemoryWal\<close>, \<open>FileWal\<close>.
    The parser is sound on all bytes and returns the whole records of every prefix of a log;
    after a crash at any byte of any append the log opens with all completed records; a write
    that failed half way makes a later append on the same handle unreadable.
  \<^item> \<open>Transactions\<close> (\<^verbatim>\<open>transaction/mod.rs\<close>): \<open>begin\<close>, \<open>commit\<close>, \<open>rollback\<close> over every log that
    satisfies \<open>wal_contract\<close>.  Ids are fresh, a transaction is finished at most once.
  \<^item> \<open>Dbf_Types\<close>, \<open>Dbf_Wal\<close> (\<^verbatim>\<open>dbf/types.rs\<close>, \<^verbatim>\<open>dbf/wal.rs\<close>, \<^verbatim>\<open>dbf/wal_delta.rs\<close>): the payloads of
    the DBF log.  A delta and its base rebuild the target; every kind of record is read back.
  \<^item> \<open>Memo\<close> (\<^verbatim>\<open>dbf/memo_file.rs\<close>, \<^verbatim>\<open>dbf/memo_value.rs\<close>): appending and reading memos.  An
    appended memo reads back and the other memos stay; a memo closed by a single marker does not,
    and a pointer to block 32 is read as no memo.
  \<^item> \<open>Calendar\<close>, \<open>Temporal\<close> (\<^verbatim>\<open>dbf/codec_temporal.rs\<close>): day numbers, over the integers and in \<open>i64\<close>
    arithmetic without overflow up to \<open>2 ^ 62\<close>; date-time and currency fields, with their round trips.
  \<^item> \<open>Code_Pages\<close> (\<^verbatim>\<open>dbf/codepages.rs\<close>): UTF-8 as a bijection with character lists, the tables of
    the single-byte code pages and their conversions, which lose nothing.  \<open>Dbf_Codec\<close>
    (\<^verbatim>\<open>dbf/codec_cjk.rs\<close>, \<^verbatim>\<open>dbf/codec_fields.rs\<close>, \<^verbatim>\<open>dbf/codec_decode.rs\<close>, \<^verbatim>\<open>dbf/codec_encode.rs\<close>,
    \<^verbatim>\<open>dbf/codec_values.rs\<close>): null flags, and reading and writing of every field type.  A stored field
    has its width, and the values \<open>exact_value\<close> describes are read back as they were written.
  \<^item> \<open>Xbf\<close>, \<open>Xbf_Codec\<close> (\<^verbatim>\<open>xbf/\<close>): the XBF format.  An encoded table decodes to itself; what any
    accepted file guarantees; the checksum with a zeroed range.
  \<^item> \<open>Disk\<close>, \<open>Xbf_Store\<close> (\<^verbatim>\<open>xbf/wal.rs\<close>, \<^verbatim>\<open>xbf/persistence.rs\<close>, \<^verbatim>\<open>file_ops.rs\<close>): saving, recovering and
    reading a table on a disk.  \<open>represents c p v d\<close> is the abstract content \<open>v\<close> of the table at
    \<open>p\<close> on the disk \<open>d\<close>, pending log included; a save replaces it atomically, recovery keeps it,
    and a read without failures returns it.  A write while the test for an existing log fails is
    undone by a later read.
  \<^item> \<open>Json_Patch\<close> (\<^verbatim>\<open>server/json_patch.rs\<close>, \<^verbatim>\<open>server/merge_patch.rs\<close>): a replacement changes one
    place and no other, removing and adding back is the identity, patches keep documents
    well-formed, a merge patch sets the fields it names.
  \<^item> \<open>Query_Path\<close>, \<open>Query_Filter\<close> (\<^verbatim>\<open>query_path.rs\<close>, \<^verbatim>\<open>query/predicate.rs\<close>,
    \<^verbatim>\<open>query/array_predicate.rs\<close>, \<^verbatim>\<open>query/validation.rs\<close>, \<^verbatim>\<open>query/ordering.rs\<close>, \<^verbatim>\<open>json_order.rs\<close>): paths
    into records, projections, filters and the order of a sort.  A validated filter gives a verdict
    on every record; a projection that drops an element and an order that is not transitive.
  \<^item> \<open>Replication_Log\<close> (\<^verbatim>\<open>xbase.rs\<close>, \<^verbatim>\<open>replication.rs\<close>, \<^verbatim>\<open>replication/\<close>): all operations of the log;
    \<open>Replication\<close>: the reachable states of a node and their invariant, pages that deliver the
    whole log; \<open>Replication_Client\<close> (\<^verbatim>\<open>replication/http/\<close>): requests with retries and \<open>catch_up\<close>,
    which ends for every network.

  \<^bold>\<open>Failures.\<close>  A file carries a list of outcomes of the coming calls: \<open>None\<close> is a call that
  succeeds, \<open>Some k\<close> one that fails, a failing write after \<open>k\<close> bytes; the theorems are for all
  lists.  A crash is a failure after which the program runs no further call.  A failing
  \<open>Path::exists\<close> answers false, as in Rust.  Renames are atomic and what was written stays
  written: data that the operating system has not synced is never lost in the model, so the
  theorems do not show where the code needs its syncs.

  \<^bold>\<open>Loops.\<close>  Loops over input are structural or have a measure.  The two loops whose end
  depends on other code (\<open>catch_up_loop\<close>, \<open>read_pages\<close>) are partial functions into
  \<open>option\<close>, and their returning is proved.  No definition uses fuel.

  \<^bold>\<open>Arguments that stand for other code.\<close>  \<open>serde_json\<close> (a writer and a reader per type), the
  float printer, the catalog under the replication log (\<open>catalog_ops\<close>), the network (\<open>network\<close>,
  where one exchange is \<open>request_once\<close> and always returns), the multi-byte encodings of
  \<open>encoding_rs\<close> (\<open>text_env\<close>), the expressions of \<open>$expr\<close> and the JSON printer of error messages
  (\<open>query_env\<close>).
  What a theorem needs of them is a hypothesis of the theorem, met by an instance in its witness.

  \<^bold>\<open>Not modelled.\<close>  DBF tables in memory and on disk (\<^verbatim>\<open>dbf/parser.rs\<close>, \<^verbatim>\<open>dbf/mutation.rs\<close>,
  \<^verbatim>\<open>dbf/persistence.rs\<close>, \<^verbatim>\<open>dbf/mvcc.rs\<close>, \<^verbatim>\<open>dbf/schema_metadata.rs\<close> and the files beside them) beyond
  the field codec, the sidecars and the log records they use; \<^verbatim>\<open>parse_fields\<close> of
  \<^verbatim>\<open>dbf/codec_fields.rs\<close>, which belongs to them; the catalog, the secondary indexes and the edge
  stores; requests, expressions, joins and aggregations of the query engine; conversion between
  DBF and XBF.  Collations, TLS and the raft protocol are external libraries.  The HTTP server,
  the command line and the WebAssembly bindings are input and output over the components above.
\<close>

end
